(* ===== verification/Prelude.thy ===== *)
theory Prelude
  imports Main "HOL-Library.Word"
begin

text \<open>
  Shared vocabulary of the development.

  \<^item> The fixed-width integers of the source and Rust's saturating operations on them.
  \<^item> Programs with state and errors: a function marked \<^verbatim>\<open>async fn ... -> Result<T, E>\<close> that touches the
    database is a function from a world state to a result (\<^term>\<open>Inl e\<close> for \<^verbatim>\<open>Err(e)\<close>, \<^term>\<open>Inr x\<close> for \<^verbatim>\<open>Ok(x)\<close>)
    and the state it leaves behind.  The state of a failing call is kept: what a handler wrote before
    an error stays written.
  \<^item> \<^verbatim>\<open>steps\<close>: a relation between the state before and after a program, on success and on error alike.
    The locale \<^verbatim>\<open>step_rel\<close> gives the composition rules for every preorder; each component
    interprets it for the relations its properties need.
  \<^item> Tables as lists of rows, with SQL's UPDATE ... WHERE.
\<close>

named_theorems prog_simps \<open>evaluation rules of the program combinators\<close>
named_theorems steps_intros \<open>composition rules for the relation kept by a program\<close>

section \<open>Fixed-width integers\<close>

type_synonym u8 = "8 word"
type_synonym u32 = "32 word"
type_synonym i32 = "32 word"
type_synonym u64 = "64 word"
type_synonym u256 = "256 word"
type_synonym b256 = "256 word"
type_synonym address = "160 word"

definition sat_add :: "'w::len word \<Rightarrow> 'w word \<Rightarrow> 'w word" where
  "sat_add x y = (if unat x + unat y < 2 ^ LENGTH('w) then x + y else - 1)"

definition sat_sub :: "'w::len word \<Rightarrow> 'w word \<Rightarrow> 'w word" where
  "sat_sub x y = (if y \<le> x then x - y else 0)"

definition sat_mul :: "'w::len word \<Rightarrow> 'w word \<Rightarrow> 'w word" where
  "sat_mul x y = (if unat x * unat y < 2 ^ LENGTH('w) then x * y else - 1)"

lemma unat_all_ones: "unat (- 1 :: 'w::len word) = 2 ^ LENGTH('w) - 1"
  by transfer (simp add: mask_eq_exp_minus_1 nat_diff_distrib' nat_power_eq)

lemma unat_sat_add:
  "unat (sat_add x y) = min (unat x + unat y) (2 ^ LENGTH('w) - 1)" for x y :: "'w::len word"
  by (simp add: sat_add_def unat_all_ones unat_word_ariths(1))

lemma sat_add_code [code]: "sat_add x y = (if y \<le> - 1 - x then x + y else - 1)" for x y :: "'w::len word"
proof -
  have x: "unat x < 2 ^ LENGTH('w)" by (rule unsigned_less)
  then have "unat x \<le> unat (- 1 :: 'w word)" unfolding unat_all_ones by linarith
  then have "unat (- 1 - x) = 2 ^ LENGTH('w) - 1 - unat x"
    by (subst unat_sub) (simp_all add: word_le_nat_alt unat_all_ones)
  with x have "y \<le> - 1 - x \<longleftrightarrow> unat x + unat y < 2 ^ LENGTH('w)"
    unfolding word_le_nat_alt by linarith
  then show ?thesis by (simp add: sat_add_def)
qed

lemma unat_sat_sub: "unat (sat_sub x y) = unat x - unat y"
  by (auto simp: sat_sub_def word_le_nat_alt unat_sub)

lemma unat_sat_mul:
  "unat (sat_mul x y) = min (unat x * unat y) (2 ^ LENGTH('w) - 1)" for x y :: "'w::len word"
  by (simp add: sat_mul_def unat_all_ones unat_word_ariths(2))

lemma unat_ucast_up:
  fixes x :: "'v::len word"
  assumes "LENGTH('v) \<le> LENGTH('w::len)"
  shows "unat (ucast x :: 'w word) = unat x"
  using assms by transfer (simp add: min_def)

section \<open>Programs with state and errors\<close>

type_synonym ('e, 's, 'a) prog = "'s \<Rightarrow> ('e + 'a) \<times> 's"

definition okP :: "'a \<Rightarrow> ('e, 's, 'a) prog" where
  "okP x s = (Inr x, s)"

definition errP :: "'e \<Rightarrow> ('e, 's, 'a) prog" where
  "errP e s = (Inl e, s)"

definition getP :: "('s \<Rightarrow> 'a) \<Rightarrow> ('e, 's, 'a) prog" where
  "getP f s = (Inr (f s), s)"

definition modP :: "('s \<Rightarrow> 's) \<Rightarrow> ('e, 's, unit) prog" where
  "modP f s = (Inr (), f s)"

text \<open>The question mark operator: an error returns from the function at once.\<close>

definition bindP :: "('e, 's, 'a) prog \<Rightarrow> ('a \<Rightarrow> ('e, 's, 'b) prog) \<Rightarrow> ('e, 's, 'b) prog" where
  "bindP m f s = (case m s of (Inl e, t) \<Rightarrow> (Inl e, t) | (Inr x, t) \<Rightarrow> f x t)"

abbreviation thenP :: "('e, 's, 'a) prog \<Rightarrow> ('e, 's, 'b) prog \<Rightarrow> ('e, 's, 'b) prog" where
  "thenP m n \<equiv> bindP m (\<lambda>_. n)"

text \<open>A call whose result is inspected with \<^verbatim>\<open>match\<close> or \<^verbatim>\<open>if let Err(e)\<close> instead of being propagated.\<close>

definition tryP :: "('e, 's, 'a) prog \<Rightarrow> ('f, 's, 'e + 'a) prog" where
  "tryP m s = (case m s of (r, t) \<Rightarrow> (Inr r, t))"

text \<open>\<^verbatim>\<open>map_err\<close>.\<close>

definition mapErrP :: "('e \<Rightarrow> 'f) \<Rightarrow> ('e, 's, 'a) prog \<Rightarrow> ('f, 's, 'a) prog" where
  "mapErrP h m s = (case m s of (r, t) \<Rightarrow> (map_sum h id r, t))"

text \<open>A \<^verbatim>\<open>for\<close> loop whose body may return early with an error.\<close>

primrec iterP :: "('x \<Rightarrow> ('e, 's, unit) prog) \<Rightarrow> 'x list \<Rightarrow> ('e, 's, unit) prog" where
  "iterP f [] = okP ()"
| "iterP f (x # xs) = thenP (f x) (iterP f xs)"

text \<open>A loop that adds up what its body counts.\<close>

primrec sumP :: "('x \<Rightarrow> ('e, 's, nat) prog) \<Rightarrow> 'x list \<Rightarrow> ('e, 's, nat) prog" where
  "sumP f [] = okP 0"
| "sumP f (x # xs) = bindP (f x) (\<lambda>a. bindP (sumP f xs) (\<lambda>b. okP (a + b)))"

lemma okP_app [prog_simps]: "okP x s = (Inr x, s)" by (rule okP_def)
lemma errP_app [prog_simps]: "errP e s = (Inl e, s)" by (rule errP_def)
lemma getP_app [prog_simps]: "getP f s = (Inr (f s), s)" by (rule getP_def)
lemma modP_app [prog_simps]: "modP f s = (Inr (), f s)" by (rule modP_def)

lemma bindP_ok [prog_simps]: "m s = (Inr x, t) \<Longrightarrow> bindP m f s = f x t"
  by (simp add: bindP_def)

lemma bindP_err [prog_simps]: "m s = (Inl e, t) \<Longrightarrow> bindP m f s = (Inl e, t)"
  by (simp add: bindP_def)

lemma bindP_Inr_iff:
  "bindP m f s = (Inr y, u) \<longleftrightarrow> (\<exists>x t. m s = (Inr x, t) \<and> f x t = (Inr y, u))"
  by (auto simp: bindP_def split: prod.splits sum.splits)

lemma bindP_Inl_iff:
  "bindP m f s = (Inl e, u) \<longleftrightarrow>
     m s = (Inl e, u) \<or> (\<exists>x t. m s = (Inr x, t) \<and> f x t = (Inl e, u))"
  by (auto simp: bindP_def split: prod.splits sum.splits)

lemma tryP_app [prog_simps]: "tryP m s = (Inr (fst (m s)), snd (m s))"
  by (simp add: tryP_def split_def)

lemma mapErrP_app [prog_simps]: "mapErrP h m s = (map_sum h id (fst (m s)), snd (m s))"
  by (simp add: mapErrP_def split_def)

lemma bindP_assoc: "bindP (bindP m f) g = bindP m (\<lambda>x. bindP (f x) g)"
  by (rule ext) (auto simp: bindP_def split: prod.splits sum.splits)

lemma iterP_append: "iterP f (xs @ ys) = thenP (iterP f xs) (iterP f ys)"
  by (induction xs) (auto simp: bindP_assoc fun_eq_iff bindP_def okP_def split: prod.splits sum.splits)

section \<open>What holds after a program\<close>

definition wp :: "('e, 's, 'a) prog \<Rightarrow> ('e + 'a \<Rightarrow> 's \<Rightarrow> bool) \<Rightarrow> 's \<Rightarrow> bool" where
  "wp m Q s = (case m s of (r, t) \<Rightarrow> Q r t)"

named_theorems wp_simps \<open>weakest preconditions of the program combinators\<close>

lemma wpD: "wp m Q s \<Longrightarrow> m s = (r, t) \<Longrightarrow> Q r t"
  by (simp add: wp_def)

lemma wpI: "(\<And>r t. m s = (r, t) \<Longrightarrow> Q r t) \<Longrightarrow> wp m Q s"
  by (simp add: wp_def split: prod.split)

lemma wp_mono: "wp m Q s \<Longrightarrow> (\<And>r t. Q r t \<Longrightarrow> Q' r t) \<Longrightarrow> wp m Q' s"
  by (auto simp: wp_def split: prod.splits)

lemma wp_ok [wp_simps]: "wp (okP x) Q s = Q (Inr x) s"
  by (simp add: wp_def okP_def)

lemma wp_err [wp_simps]: "wp (errP e) Q s = Q (Inl e) s"
  by (simp add: wp_def errP_def)

lemma wp_get [wp_simps]: "wp (getP f) Q s = Q (Inr (f s)) s"
  by (simp add: wp_def getP_def)

lemma wp_mod [wp_simps]: "wp (modP f) Q s = Q (Inr ()) (f s)"
  by (simp add: wp_def modP_def)

lemma wp_bind [wp_simps]:
  "wp (bindP m f) Q s = wp m (\<lambda>r t. case r of Inl e \<Rightarrow> Q (Inl e) t | Inr x \<Rightarrow> wp (f x) Q t) s"
  by (simp add: wp_def bindP_def split: prod.split sum.split)

lemma wp_try [wp_simps]: "wp (tryP m) Q s = wp m (\<lambda>r t. Q (Inr r) t) s"
  by (simp add: wp_def tryP_def split: prod.split)

lemma wp_mapErr [wp_simps]: "wp (mapErrP h m) Q s = wp m (\<lambda>r t. Q (map_sum h id r) t) s"
  by (simp add: wp_def mapErrP_def split: prod.split)

section \<open>Relations kept by a program\<close>

definition steps :: "('s \<Rightarrow> 's \<Rightarrow> bool) \<Rightarrow> ('e, 's, 'a) prog \<Rightarrow> bool" where
  "steps R m \<longleftrightarrow> (\<forall>s. R s (snd (m s)))"

lemma stepsD: "steps R m \<Longrightarrow> m s = (r, t) \<Longrightarrow> R s t"
  by (metis steps_def snd_conv)

lemma steps_wp: "steps R m \<longleftrightarrow> (\<forall>s. wp m (\<lambda>r t. R s t) s)"
  by (simp add: steps_def wp_def split_def)

lemma wp_steps: "steps R m \<Longrightarrow> (\<And>r t. R s t \<Longrightarrow> Q r t) \<Longrightarrow> wp m Q s"
  by (auto intro!: wpI dest: stepsD)

lemma steps_if [steps_intros]: "steps R m \<Longrightarrow> steps R n \<Longrightarrow> steps R (if b then m else n)"
  by simp

lemma steps_option [steps_intros]:
  "steps R m \<Longrightarrow> (\<And>x. steps R (f x)) \<Longrightarrow> steps R (case z of None \<Rightarrow> m | Some x \<Rightarrow> f x)"
  by (simp split: option.split)

lemma steps_sum [steps_intros]:
  "(\<And>e. steps R (g e)) \<Longrightarrow> (\<And>x. steps R (f x)) \<Longrightarrow> steps R (case z of Inl e \<Rightarrow> g e | Inr x \<Rightarrow> f x)"
  by (simp split: sum.split)

lemma steps_prod [steps_intros]: "(\<And>x y. steps R (f x y)) \<Longrightarrow> steps R (case z of (x, y) \<Rightarrow> f x y)"
  by (simp split: prod.split)

lemma steps_bool [steps_intros]:
  "steps R m \<Longrightarrow> steps R n \<Longrightarrow> steps R (case b of True \<Rightarrow> m | False \<Rightarrow> n)"
  by (simp split: bool.split)

lemma steps_let [steps_intros]: "(\<And>x. steps R (f x)) \<Longrightarrow> steps R (let x = e in f x)"
  by simp

lemma steps_mono: "steps R m \<Longrightarrow> (\<And>s t. R s t \<Longrightarrow> Q s t) \<Longrightarrow> steps Q m"
  by (auto simp: steps_def)

text \<open>
  The composition rules hold for every reflexive and transitive relation: a preserved invariant, a
  set that only grows, a field that is never changed.
\<close>

locale step_rel =
  fixes R :: "'s \<Rightarrow> 's \<Rightarrow> bool"
  assumes R_refl: "R s s"
    and R_trans: "R s t \<Longrightarrow> R t u \<Longrightarrow> R s u"
begin

lemma steps_ok [steps_intros]: "steps R (okP x)"
  by (simp add: steps_def okP_def R_refl)

lemma steps_err [steps_intros]: "steps R (errP e)"
  by (simp add: steps_def errP_def R_refl)

lemma steps_get [steps_intros]: "steps R (getP f)"
  by (simp add: steps_def getP_def R_refl)

lemma steps_mod: "(\<And>s. R s (f s)) \<Longrightarrow> steps R (modP f)"
  by (simp add: steps_def modP_def)

lemma steps_bind [steps_intros]: "steps R m \<Longrightarrow> (\<And>x. steps R (f x)) \<Longrightarrow> steps R (bindP m f)"
  unfolding steps_def
proof
  fix s
  assume m: "\<forall>s. R s (snd (m s))" and f: "\<And>x. \<forall>s. R s (snd (f x s))"
  obtain r t where mt: "m s = (r, t)" by (cases "m s")
  with m have st: "R s t" by (metis snd_conv)
  show "R s (snd (bindP m f s))"
  proof (cases r)
    case (Inl e) then show ?thesis using mt st by (simp add: bindP_def)
  next
    case (Inr x) then show ?thesis using mt st f R_trans by (auto simp: bindP_def)
  qed
qed

lemma steps_try [steps_intros]: "steps R m \<Longrightarrow> steps R (tryP m)"
  by (auto simp: steps_def tryP_app)

lemma steps_mapErr [steps_intros]: "steps R m \<Longrightarrow> steps R (mapErrP h m)"
  by (auto simp: steps_def mapErrP_app)

lemma steps_iter [steps_intros]: "(\<And>x. steps R (f x)) \<Longrightarrow> steps R (iterP f xs)"
  by (induction xs) (auto intro: steps_ok steps_bind)

lemma steps_sumP [steps_intros]: "(\<And>x. steps R (f x)) \<Longrightarrow> steps R (sumP f xs)"
  by (induction xs) (auto intro: steps_ok steps_bind)

end

text \<open>The relation of an invariant.\<close>

definition kept :: "('s \<Rightarrow> bool) \<Rightarrow> 's \<Rightarrow> 's \<Rightarrow> bool" where
  "kept I s t \<longleftrightarrow> (I s \<longrightarrow> I t)"

lemma step_rel_kept: "step_rel (kept I)"
  by unfold_locales (auto simp: kept_def)

lemma steps_keptD: "steps (kept I) m \<Longrightarrow> I s \<Longrightarrow> I (snd (m s))"
  by (simp add: steps_def kept_def)

text \<open>The relation of a view of the state that is not changed.\<close>

definition same :: "('s \<Rightarrow> 'v) \<Rightarrow> 's \<Rightarrow> 's \<Rightarrow> bool" where
  "same f s t \<longleftrightarrow> f t = f s"

interpretation same: step_rel "same f" for f
  by unfold_locales (auto simp: same_def)

lemma steps_sameD: "steps (same f) m \<Longrightarrow> f (snd (m s)) = f s"
  by (simp add: steps_def same_def)

lemma steps_same_read: "(\<And>s. snd (m s) = s) \<Longrightarrow> steps (same f) m"
  by (simp add: steps_def same_def)

section \<open>Tables\<close>

text \<open>\<^verbatim>\<open>UPDATE rows SET ... WHERE ...\<close>: every matching row is rewritten, the others stay.\<close>

definition update_where :: "('r \<Rightarrow> bool) \<Rightarrow> ('r \<Rightarrow> 'r) \<Rightarrow> 'r list \<Rightarrow> 'r list" where
  "update_where P f rows = map (\<lambda>r. if P r then f r else r) rows"

text \<open>The number of rows an UPDATE reports.\<close>

definition rows_affected :: "('r \<Rightarrow> bool) \<Rightarrow> 'r list \<Rightarrow> nat" where
  "rows_affected P rows = length (filter P rows)"

lemma rows_affected_0 [simp]: "rows_affected P rows = 0 \<longleftrightarrow> (\<forall>r \<in> set rows. \<not> P r)"
  by (simp add: rows_affected_def filter_empty_conv)

lemma update_where_Nil [simp]: "update_where P f [] = []"
  by (simp add: update_where_def)

lemma update_where_Cons [simp]:
  "update_where P f (r # rows) = (if P r then f r else r) # update_where P f rows"
  by (simp add: update_where_def)

lemma length_update_where [simp]: "length (update_where P f rows) = length rows"
  by (simp add: update_where_def)

lemma set_update_where: "set (update_where P f rows) = (\<lambda>r. if P r then f r else r) ` set rows"
  by (simp add: update_where_def)

lemma map_update_where_key:
  "(\<And>r. P r \<Longrightarrow> k (f r) = k r) \<Longrightarrow> map k (update_where P f rows) = map k rows"
  by (induction rows) auto

lemma update_where_none: "\<forall>r \<in> set rows. \<not> P r \<Longrightarrow> update_where P f rows = rows"
  by (induction rows) auto

lemma find_update_where:
  "(\<And>r. P r \<Longrightarrow> q (f r) = q r) \<Longrightarrow>
   find q (update_where P f rows) = map_option (\<lambda>r. if P r then f r else r) (find q rows)"
  by (induction rows) auto

lemma find_Some_iff_distinct:
  "distinct (map k rows) \<Longrightarrow> find (\<lambda>r. k r = x) rows = Some r \<longleftrightarrow> r \<in> set rows \<and> k r = x"
  by (induction rows) (auto simp: image_iff)

lemma find_append:
  "find P (xs @ ys) = (case find P xs of Some x \<Rightarrow> Some x | None \<Rightarrow> find P ys)"
  by (induction xs) auto

lemma find_SomeD: "find P rows = Some r \<Longrightarrow> r \<in> set rows \<and> P r"
  by (induction rows) (auto split: if_splits)

end
