(* ===== verification/Chains.thy ===== *)
theory Chains
  imports Rust_Text
begin

text \<open>
  The chain catalogue: \<^verbatim>\<open>src/evm/src/network.rs\<close> and \<^verbatim>\<open>src/evm/src/testnet.rs\<close>.  The supported networks,
  their identifiers, the per-chain configuration records and the lookups over them.  The lemmas
  show that the two tables describing a mainnet agree, that identifiers are injective over mainnets
  and testnets together, and that the derived grace period is computed without saturation.
\<close>

section \<open>Networks\<close>

datatype EvmNetwork =
  Ethereum | Polygon | Arbitrum | Optimism | Base | Avalanche | BinanceSmartChain
  | ZkSync | Linea | Scroll | Fantom | Gnosis


primrec display_name :: "EvmNetwork \<Rightarrow> string" where
  "display_name Ethereum = ''Ethereum''"
| "display_name Polygon = ''Polygon''"
| "display_name Arbitrum = ''Arbitrum''"
| "display_name Optimism = ''Optimism''"
| "display_name Base = ''Base''"
| "display_name Avalanche = ''Avalanche''"
| "display_name BinanceSmartChain = ''BNB Chain''"
| "display_name ZkSync = ''zkSync''"
| "display_name Linea = ''Linea''"
| "display_name Scroll = ''Scroll''"
| "display_name Fantom = ''Fantom''"
| "display_name Gnosis = ''Gnosis''"

primrec native_symbol :: "EvmNetwork \<Rightarrow> string" where
  "native_symbol Ethereum = ''ETH''"
| "native_symbol Polygon = ''POL''"
| "native_symbol Arbitrum = ''ETH''"
| "native_symbol Optimism = ''ETH''"
| "native_symbol Base = ''ETH''"
| "native_symbol Avalanche = ''AVAX''"
| "native_symbol BinanceSmartChain = ''BNB''"
| "native_symbol ZkSync = ''ETH''"
| "native_symbol Linea = ''ETH''"
| "native_symbol Scroll = ''ETH''"
| "native_symbol Fantom = ''FTM''"
| "native_symbol Gnosis = ''xDAI''"

primrec network_chain_id :: "EvmNetwork \<Rightarrow> u64" where
  "network_chain_id Ethereum = 1"
| "network_chain_id Polygon = 137"
| "network_chain_id Arbitrum = 42161"
| "network_chain_id Optimism = 10"
| "network_chain_id Base = 8453"
| "network_chain_id Avalanche = 43114"
| "network_chain_id BinanceSmartChain = 56"
| "network_chain_id ZkSync = 324"
| "network_chain_id Linea = 59144"
| "network_chain_id Scroll = 534352"
| "network_chain_id Fantom = 250"
| "network_chain_id Gnosis = 100"

definition from_chain_id :: "u64 \<Rightarrow> EvmNetwork option" where
  "from_chain_id c =
     (if c = 1 then Some Ethereum else
      if c = 137 then Some Polygon else
      if c = 42161 then Some Arbitrum else
      if c = 10 then Some Optimism else
      if c = 8453 then Some Base else
      if c = 43114 then Some Avalanche else
      if c = 56 then Some BinanceSmartChain else
      if c = 324 then Some ZkSync else
      if c = 59144 then Some Linea else
      if c = 534352 then Some Scroll else
      if c = 250 then Some Fantom else
      if c = 100 then Some Gnosis else
      None)"

primrec as_str :: "EvmNetwork \<Rightarrow> string" where
  "as_str Ethereum = ''ethereum''"
| "as_str Polygon = ''polygon''"
| "as_str Arbitrum = ''arbitrum''"
| "as_str Optimism = ''optimism''"
| "as_str Base = ''base''"
| "as_str Avalanche = ''avalanche''"
| "as_str BinanceSmartChain = ''binance_smart_chain''"
| "as_str ZkSync = ''zksync''"
| "as_str Linea = ''linea''"
| "as_str Scroll = ''scroll''"
| "as_str Fantom = ''fantom''"
| "as_str Gnosis = ''gnosis''"

definition network_from_str :: "string \<Rightarrow> string + EvmNetwork" where
  "network_from_str s =
     (let l = to_lowercase s in
      if l = ''ethereum'' \<or> l = ''eth'' then Inr Ethereum else
      if l = ''polygon'' \<or> l = ''matic'' then Inr Polygon else
      if l = ''arbitrum'' \<or> l = ''arb'' then Inr Arbitrum else
      if l = ''optimism'' \<or> l = ''op'' then Inr Optimism else
      if l = ''base'' then Inr Base else
      if l = ''avalanche'' \<or> l = ''avax'' then Inr Avalanche else
      if l = ''binance_smart_chain'' \<or> l = ''bsc'' \<or> l = ''bnb'' then Inr BinanceSmartChain else
      if l = ''zksync'' \<or> l = ''zk_sync'' then Inr ZkSync else
      if l = ''linea'' then Inr Linea else
      if l = ''scroll'' then Inr Scroll else
      if l = ''fantom'' \<or> l = ''ftm'' then Inr Fantom else
      if l = ''gnosis'' \<or> l = ''xdai'' then Inr Gnosis else
      Inl (''unknown network: '' @ s))"

section \<open>Chain configurations\<close>

record ChainConfig =
  network :: "EvmNetwork option"
  chain_id :: u64
  name :: string
  cfg_native_symbol :: string
  native_decimals :: u8
  block_time_secs :: u64
  confirmations_required :: u32
  explorer_url :: string

definition tx_explorer_url :: "ChainConfig \<Rightarrow> string \<Rightarrow> string" where
  "tx_explorer_url cfg tx_hash = str_replace ''{tx}'' tx_hash (explorer_url cfg)"

definition address_explorer_url :: "ChainConfig \<Rightarrow> string \<Rightarrow> string" where
  "address_explorer_url cfg addr = str_replace ''/tx/{tx}'' (''/address/'' @ addr) (explorer_url cfg)"

definition min_paid_unwatch_grace_period_secs :: "ChainConfig \<Rightarrow> u64" where
  "min_paid_unwatch_grace_period_secs cfg =
     sat_mul (sat_mul (ucast (confirmations_required cfg)) (block_time_secs cfg)) 2"

definition ETHEREUM :: ChainConfig where
  "ETHEREUM = \<lparr> network = Some Ethereum, chain_id = 1, name = ''Ethereum'',
     cfg_native_symbol = ''ETH'', native_decimals = 18, block_time_secs = 12,
     confirmations_required = 12, explorer_url = ''https://etherscan.io/tx/{tx}'' \<rparr>"

definition POLYGON :: ChainConfig where
  "POLYGON = \<lparr> network = Some Polygon, chain_id = 137, name = ''Polygon'',
     cfg_native_symbol = ''POL'', native_decimals = 18, block_time_secs = 2,
     confirmations_required = 128, explorer_url = ''https://polygonscan.com/tx/{tx}'' \<rparr>"

definition ARBITRUM :: ChainConfig where
  "ARBITRUM = \<lparr> network = Some Arbitrum, chain_id = 42161, name = ''Arbitrum One'',
     cfg_native_symbol = ''ETH'', native_decimals = 18, block_time_secs = 1,
     confirmations_required = 64, explorer_url = ''https://arbiscan.io/tx/{tx}'' \<rparr>"

definition OPTIMISM :: ChainConfig where
  "OPTIMISM = \<lparr> network = Some Optimism, chain_id = 10, name = ''Optimism'',
     cfg_native_symbol = ''ETH'', native_decimals = 18, block_time_secs = 2,
     confirmations_required = 64, explorer_url = ''https://optimistic.etherscan.io/tx/{tx}'' \<rparr>"

definition BASE :: ChainConfig where
  "BASE = \<lparr> network = Some Base, chain_id = 8453, name = ''Base'',
     cfg_native_symbol = ''ETH'', native_decimals = 18, block_time_secs = 2,
     confirmations_required = 64, explorer_url = ''https://basescan.org/tx/{tx}'' \<rparr>"

definition AVALANCHE :: ChainConfig where
  "AVALANCHE = \<lparr> network = Some Avalanche, chain_id = 43114, name = ''Avalanche C-Chain'',
     cfg_native_symbol = ''AVAX'', native_decimals = 18, block_time_secs = 2,
     confirmations_required = 12, explorer_url = ''https://snowtrace.io/tx/{tx}'' \<rparr>"

definition BINANCE_SMART_CHAIN :: ChainConfig where
  "BINANCE_SMART_CHAIN = \<lparr> network = Some BinanceSmartChain, chain_id = 56, name = ''BNB Smart Chain'',
     cfg_native_symbol = ''BNB'', native_decimals = 18, block_time_secs = 3,
     confirmations_required = 15, explorer_url = ''https://bscscan.com/tx/{tx}'' \<rparr>"

definition ZKSYNC :: ChainConfig where
  "ZKSYNC = \<lparr> network = Some ZkSync, chain_id = 324, name = ''zkSync Era'',
     cfg_native_symbol = ''ETH'', native_decimals = 18, block_time_secs = 1,
     confirmations_required = 1, explorer_url = ''https://explorer.zksync.io/tx/{tx}'' \<rparr>"

definition LINEA :: ChainConfig where
  "LINEA = \<lparr> network = Some Linea, chain_id = 59144, name = ''Linea'',
     cfg_native_symbol = ''ETH'', native_decimals = 18, block_time_secs = 2,
     confirmations_required = 20, explorer_url = ''https://lineascan.build/tx/{tx}'' \<rparr>"

definition SCROLL :: ChainConfig where
  "SCROLL = \<lparr> network = Some Scroll, chain_id = 534352, name = ''Scroll'',
     cfg_native_symbol = ''ETH'', native_decimals = 18, block_time_secs = 3,
     confirmations_required = 20, explorer_url = ''https://scrollscan.com/tx/{tx}'' \<rparr>"

definition FANTOM :: ChainConfig where
  "FANTOM = \<lparr> network = Some Fantom, chain_id = 250, name = ''Fantom Opera'',
     cfg_native_symbol = ''FTM'', native_decimals = 18, block_time_secs = 1,
     confirmations_required = 12, explorer_url = ''https://ftmscan.com/tx/{tx}'' \<rparr>"

definition GNOSIS :: ChainConfig where
  "GNOSIS = \<lparr> network = Some Gnosis, chain_id = 100, name = ''Gnosis Chain'',
     cfg_native_symbol = ''xDAI'', native_decimals = 18, block_time_secs = 5,
     confirmations_required = 20, explorer_url = ''https://gnosisscan.io/tx/{tx}'' \<rparr>"

definition SEPOLIA :: ChainConfig where
  "SEPOLIA = \<lparr> network = None, chain_id = 11155111, name = ''Sepolia'',
     cfg_native_symbol = ''ETH'', native_decimals = 18, block_time_secs = 12,
     confirmations_required = 3, explorer_url = ''https://sepolia.etherscan.io/tx/{tx}'' \<rparr>"

definition HOLESKY :: ChainConfig where
  "HOLESKY = \<lparr> network = None, chain_id = 17000, name = ''Holesky'',
     cfg_native_symbol = ''ETH'', native_decimals = 18, block_time_secs = 12,
     confirmations_required = 3, explorer_url = ''https://holesky.etherscan.io/tx/{tx}'' \<rparr>"

definition POLYGON_AMOY :: ChainConfig where
  "POLYGON_AMOY = \<lparr> network = None, chain_id = 80002, name = ''Polygon Amoy'',
     cfg_native_symbol = ''POL'', native_decimals = 18, block_time_secs = 2,
     confirmations_required = 5, explorer_url = ''https://amoy.polygonscan.com/tx/{tx}'' \<rparr>"

definition ARBITRUM_SEPOLIA :: ChainConfig where
  "ARBITRUM_SEPOLIA = \<lparr> network = None, chain_id = 421614, name = ''Arbitrum Sepolia'',
     cfg_native_symbol = ''ETH'', native_decimals = 18, block_time_secs = 1,
     confirmations_required = 5, explorer_url = ''https://sepolia.arbiscan.io/tx/{tx}'' \<rparr>"

definition OPTIMISM_SEPOLIA :: ChainConfig where
  "OPTIMISM_SEPOLIA = \<lparr> network = None, chain_id = 11155420, name = ''Optimism Sepolia'',
     cfg_native_symbol = ''ETH'', native_decimals = 18, block_time_secs = 2,
     confirmations_required = 5, explorer_url = ''https://sepolia-optimism.etherscan.io/tx/{tx}'' \<rparr>"

definition BASE_SEPOLIA :: ChainConfig where
  "BASE_SEPOLIA = \<lparr> network = None, chain_id = 84532, name = ''Base Sepolia'',
     cfg_native_symbol = ''ETH'', native_decimals = 18, block_time_secs = 2,
     confirmations_required = 5, explorer_url = ''https://sepolia.basescan.org/tx/{tx}'' \<rparr>"

definition AVALANCHE_FUJI :: ChainConfig where
  "AVALANCHE_FUJI = \<lparr> network = None, chain_id = 43113, name = ''Avalanche Fuji'',
     cfg_native_symbol = ''AVAX'', native_decimals = 18, block_time_secs = 2,
     confirmations_required = 3, explorer_url = ''https://testnet.snowtrace.io/tx/{tx}'' \<rparr>"

definition BSC_TESTNET :: ChainConfig where
  "BSC_TESTNET = \<lparr> network = None, chain_id = 97, name = ''BSC Testnet'',
     cfg_native_symbol = ''tBNB'', native_decimals = 18, block_time_secs = 3,
     confirmations_required = 5, explorer_url = ''https://testnet.bscscan.com/tx/{tx}'' \<rparr>"

definition HOODI :: ChainConfig where
  "HOODI = \<lparr> network = None, chain_id = 560048, name = ''Hoodi'',
     cfg_native_symbol = ''ETH'', native_decimals = 18, block_time_secs = 12,
     confirmations_required = 3, explorer_url = ''https://hoodi.etherscan.io/tx/{tx}'' \<rparr>"

definition ALL_CHAINS :: "ChainConfig list" where
  "ALL_CHAINS = [ETHEREUM, POLYGON, ARBITRUM, OPTIMISM, BASE, AVALANCHE, BINANCE_SMART_CHAIN, ZKSYNC, LINEA, SCROLL, FANTOM, GNOSIS]"

definition ALL_TESTNETS :: "ChainConfig list" where
  "ALL_TESTNETS = [SEPOLIA, HOLESKY, HOODI, POLYGON_AMOY, ARBITRUM_SEPOLIA, OPTIMISM_SEPOLIA, BASE_SEPOLIA, AVALANCHE_FUJI, BSC_TESTNET]"

text \<open>\<^verbatim>\<open>expect\<close> panics on a missing entry: \<^term>\<open>None\<close>.\<close>

definition get_chain_config :: "EvmNetwork \<Rightarrow> ChainConfig option" where
  "get_chain_config n = find (\<lambda>c. network c = Some n) ALL_CHAINS"

definition get_chain_config_by_id :: "u64 \<Rightarrow> ChainConfig option" where
  "get_chain_config_by_id i = find (\<lambda>c. chain_id c = i) ALL_CHAINS"

definition get_testnet_config :: "u64 \<Rightarrow> ChainConfig option" where
  "get_testnet_config i = find (\<lambda>c. chain_id c = i) ALL_TESTNETS"

definition get_any_chain_config :: "u64 \<Rightarrow> ChainConfig option" where
  "get_any_chain_config i =
     (case get_chain_config_by_id i of Some c \<Rightarrow> Some c | None \<Rightarrow> get_testnet_config i)"

lemmas chain_consts = ETHEREUM_def POLYGON_def ARBITRUM_def OPTIMISM_def BASE_def AVALANCHE_def BINANCE_SMART_CHAIN_def ZKSYNC_def LINEA_def SCROLL_def FANTOM_def GNOSIS_def SEPOLIA_def HOLESKY_def POLYGON_AMOY_def ARBITRUM_SEPOLIA_def OPTIMISM_SEPOLIA_def BASE_SEPOLIA_def AVALANCHE_FUJI_def BSC_TESTNET_def HOODI_def

section \<open>Properties\<close>

lemma from_chain_id_inverse: "from_chain_id (network_chain_id n) = Some n"
  by (cases n) (simp_all add: from_chain_id_def)

lemma from_chain_id_SomeD: "from_chain_id c = Some n \<Longrightarrow> c = network_chain_id n"
  by (cases n) (auto simp: from_chain_id_def split: if_splits)

text \<open>C34 (round trip): a chain id names a network exactly when it is that network's chain id, and the
  printed identifier of a network parses back to it.\<close>

theorem network_round_trips:
  "(from_chain_id c = Some n \<longleftrightarrow> c = network_chain_id n) \<and> network_from_str (as_str n) = Inr n"
proof
  show "from_chain_id c = Some n \<longleftrightarrow> c = network_chain_id n"
    using from_chain_id_inverse from_chain_id_SomeD by blast
  show "network_from_str (as_str n) = Inr n"
    by (cases n) (simp_all add: network_from_str_def to_lowercase_def lower_char_def)
qed

lemma all_chain_ids_distinct: "distinct (map chain_id (ALL_CHAINS @ ALL_TESTNETS))"
  by (simp add: ALL_CHAINS_def ALL_TESTNETS_def chain_consts)

lemma get_any_chain_config_find:
  "get_any_chain_config i = find (\<lambda>c. chain_id c = i) (ALL_CHAINS @ ALL_TESTNETS)"
  unfolding get_any_chain_config_def get_chain_config_by_id_def get_testnet_config_def
  by (simp add: find_append split: option.split)

lemma get_any_chain_config_iff:
  "get_any_chain_config i = Some cfg \<longleftrightarrow> cfg \<in> set (ALL_CHAINS @ ALL_TESTNETS) \<and> chain_id cfg = i"
  unfolding get_any_chain_config_find by (rule find_Some_iff_distinct[OF all_chain_ids_distinct])

lemma get_chain_config_total:
  "\<exists>cfg \<in> set ALL_CHAINS. get_chain_config n = Some cfg \<and> chain_id cfg = network_chain_id n
     \<and> cfg_native_symbol cfg = native_symbol n \<and> native_decimals cfg = 18"
  by (cases n) (simp_all add: get_chain_config_def ALL_CHAINS_def chain_consts)

text \<open>C33 (functional): every network has a configuration, so the \<^verbatim>\<open>expect\<close> in \<^verbatim>\<open>get_chain_config\<close> never
  panics; the configuration carries the network's own chain id and native symbol, and the lookup by
  chain id over mainnets and testnets returns that same record.\<close>

theorem chain_config_agrees:
  "\<exists>cfg. get_chain_config n = Some cfg \<and> chain_id cfg = network_chain_id n
     \<and> cfg_native_symbol cfg = native_symbol n \<and> native_decimals cfg = 18
     \<and> get_any_chain_config (network_chain_id n) = Some cfg"
proof -
  obtain cfg where cfg: "cfg \<in> set ALL_CHAINS" "get_chain_config n = Some cfg"
      "chain_id cfg = network_chain_id n" "cfg_native_symbol cfg = native_symbol n"
      "native_decimals cfg = 18"
    using get_chain_config_total by blast
  then have "get_any_chain_config (network_chain_id n) = Some cfg"
    by (simp add: get_any_chain_config_iff)
  with cfg show ?thesis by blast
qed

text \<open>C35 (bounds): the grace period floor is twice the product of confirmations and block time, capped
  at the largest \<^verbatim>\<open>u64\<close>: it never wraps around to a short period.\<close>

theorem min_grace_period_value:
  "unat (min_paid_unwatch_grace_period_secs cfg) =
     min (2 * unat (confirmations_required cfg) * unat (block_time_secs cfg)) (2 ^ 64 - 1)"
proof -
  have c: "unat (ucast (confirmations_required cfg) :: u64) = unat (confirmations_required cfg)"
    by (rule unat_ucast_up) simp
  show ?thesis
    unfolding min_paid_unwatch_grace_period_secs_def unat_sat_mul c by (simp add: min_def)
qed

end
