(* ===== verification/World.thy ===== *)
theory World
  imports Chains Complex_Main
begin

text \<open>
  The data the server keeps: the row types of the PostgreSQL schema, the values the repositories
  return, and the world state a handler runs in.

  Money.  The columns are exact decimals and the handlers compute with an arbitrary-precision
  decimal type, so an amount is a rational number where it is stored or computed with, and a string
  where the code passes strings.  A record type that exists in both forms is parametric in the type
  of its amounts: \<^verbatim>\<open>rat invoice\<close> is a row of the table, \<^verbatim>\<open>string invoice\<close> is \<^verbatim>\<open>InvoiceData\<close>.

  Code outside the repository.  Decimal parsing, printing, division and rounding, the textual form of
  hashes, addresses and identifiers, the SQL numeric casts, the wire names of webhook events and the
  iteration order of a hash map are fields of the record \<^verbatim>\<open>env\<close>, an argument of every definition that uses one of them.

  Failures.  \<^verbatim>\<open>faults\<close> is a schedule: every repository call consumes one entry, and a true entry makes the
  call fail with a database error and no effect.  A theorem over all worlds therefore covers every
  pattern of transient failures.  Error values keep their constructor and not the message text.
\<close>

type_synonym uuid = nat
type_synonym timestamp = int
type_synonym chain_ref = string

datatype InvoiceStatus =
  Pending | Processing | PartiallyPaid | LatePaid | Paid | Expired | Cancelled | Refunded

lemma steps_status [steps_intros]:
  "steps R a \<Longrightarrow> steps R b \<Longrightarrow> steps R c \<Longrightarrow> steps R d \<Longrightarrow> steps R e \<Longrightarrow> steps R f \<Longrightarrow> steps R g \<Longrightarrow> steps R h \<Longrightarrow>
   steps R (case st of Pending \<Rightarrow> a | Processing \<Rightarrow> b | PartiallyPaid \<Rightarrow> c | LatePaid \<Rightarrow> d | Paid \<Rightarrow> e
     | Expired \<Rightarrow> f | Cancelled \<Rightarrow> g | Refunded \<Rightarrow> h)"
  by (cases st) simp_all

datatype AssetType = Native | ERC20

datatype json = JNull | JBool bool | JNum rat | JStr string | JArr "json list" | JObj "(string \<times> json) list"

primrec json_get :: "json \<Rightarrow> string \<Rightarrow> json option" where
  "json_get JNull k = None"
| "json_get (JBool b) k = None"
| "json_get (JNum n) k = None"
| "json_get (JStr s) k = None"
| "json_get (JArr xs) k = None"
| "json_get (JObj kvs) k = map_of kvs k"

fun json_as_str :: "json \<Rightarrow> string option" where
  "json_as_str (JStr s) = Some s"
| "json_as_str _ = None"

section \<open>Rows and values\<close>

record 'n invoice =
  inv_id :: string
  inv_store :: uuid
  inv_currency :: string
  inv_status :: InvoiceStatus
  inv_amount :: 'n
  inv_received :: 'n
  inv_created_at :: timestamp
  inv_expires_at :: timestamp
  inv_metadata :: "json option"
  inv_email :: "string option"
  inv_extra :: "json option"

type_synonym invoice_row = "rat invoice"
type_synonym InvoiceData = "string invoice"

record 'n payment =
  pay_id :: uuid
  pay_invoice :: string
  pay_option :: "uuid option"
  pay_chain :: chain_ref
  pay_asset :: AssetType
  pay_amount :: 'n
  pay_symbol :: string
  pay_token :: "string option"
  pay_tx_hash :: string
  pay_block :: "u64 option"
  pay_detected_at :: timestamp
  pay_confirmed_at :: "timestamp option"
  pay_from :: "string option"
  pay_reorged :: bool
  pay_extra :: "json option"
  pay_credited :: "'n option"
  pay_rate :: "'n option"
  pay_rate_at :: "timestamp option"

type_synonym PaymentData = "string payment"

text \<open>The row has one column the shared \<^verbatim>\<open>PaymentData\<close> type lacks.\<close>

record payment_row = "rat payment" +
  pay_tx_index :: i32

record 'n payment_option =
  opt_id :: uuid
  opt_invoice :: string
  opt_method :: string
  opt_chain :: chain_ref
  opt_symbol :: string
  opt_token :: "string option"
  opt_decimals :: u8
  opt_address :: string
  opt_wallet :: "uuid option"
  opt_derivation :: "int option"
  opt_amount :: 'n
  opt_rate :: "'n option"
  opt_rate_at :: "timestamp option"
  opt_active :: bool
  opt_created_at :: timestamp

type_synonym PaymentOptionData = "string payment_option"

record watched_row =
  wa_invoice :: string
  wa_option :: uuid
  wa_address :: string
  wa_chain :: chain_ref
  wa_token :: "string option"
  wa_active :: bool
  wa_notified :: bool
  wa_created_at :: timestamp
  wa_expires_at :: timestamp

record token_row =
  tok_chain :: chain_ref
  tok_address :: string
  tok_symbol :: "string option"
  tok_token_id :: "string option"

record ChainCursor =
  cur_epoch :: int
  cur_seq :: int
  cur_height :: int

record cursor_row = ChainCursor +
  cur_adapter :: string
  cur_chain :: u64

record WebhookObligation =
  ob_id :: uuid
  ob_payment :: uuid
  ob_invoice :: string
  ob_event :: string
  ob_created_at :: timestamp

record obligation_row = WebhookObligation +
  ob_dispatched_at :: "timestamp option"
  ob_claimed_until :: "timestamp option"

record 'n allowance =
  al_invoice :: string
  al_shortfall :: 'n
  al_tolerance :: 'n
  al_source :: string
  al_recorded_at :: timestamp

record StoreWebhook =
  sw_id :: uuid
  sw_store :: uuid
  sw_url :: string
  sw_secret :: string
  sw_enabled :: bool

section \<open>Outgoing notifications\<close>

datatype WebhookEventType =
  EvPaymentDetected | EvPaymentConfirmed | EvPaymentReorged | EvLatePaid | EvInvoiceExpired
  | EvInvoiceCancelled

text \<open>A payload is built by a constructor of the shared crate from the values the code passes it.\<close>

datatype WebhookPayload =
  Payment_event WebhookEventType InvoiceData PaymentData
  | Invoice_event WebhookEventType InvoiceData
  | Payment_reorged InvoiceData "PaymentData list"

fun payload_event :: "WebhookPayload \<Rightarrow> WebhookEventType" where
  "payload_event (Payment_event e _ _) = e"
| "payload_event (Invoice_event e _) = e"
| "payload_event (Payment_reorged _ _) = EvPaymentReorged"

record WebhookJob =
  job_id :: uuid
  job_store_webhook :: uuid
  job_url :: string
  job_secret :: string
  job_payload :: WebhookPayload
  job_attempts :: u32
  job_max_attempts :: u32
  job_created_at :: timestamp
  job_scheduled_at :: timestamp

datatype StatusUpdate =
  InvoiceStatusUpdate string InvoiceStatus
  | PaymentUpdate uuid string string "string option"

record OwnStorePayment =
  osp_invoice :: string
  osp_currency :: string
  osp_received :: string
  osp_status :: InvoiceStatus
  osp_settled_at :: timestamp
  osp_metadata :: "json option"

record ReceiptData =
  rec_invoice :: string
  rec_amount :: string
  rec_currency :: string
  rec_tx_hash :: string
  rec_explorer_url :: string
  rec_paid_at :: timestamp
  rec_merchant :: string

datatype effect =
  Ws_send uuid StatusUpdate
  | Webhook_queued WebhookJob
  | Receipt_sent string ReceiptData
  | Observer_told nat OwnStorePayment
  | Unwatch_sent u64 address "address option"
  | Watch_sent u64 address uuid "u256 option" "address option"

section \<open>The environment\<close>

record env =
  chain_evm :: "u64 \<Rightarrow> chain_ref"
  chain_evm_id :: "chain_ref \<Rightarrow> u64 option"
  fmt_address :: "address \<Rightarrow> string"
  parse_address :: "string \<Rightarrow> address option"
  fmt_b256 :: "b256 \<Rightarrow> string"
  parse_b256 :: "string \<Rightarrow> b256 option"
  fmt_u256 :: "u256 \<Rightarrow> string"
  parse_u256 :: "string \<Rightarrow> u256 option"
  fmt_uuid :: "uuid \<Rightarrow> string"
  parse_uuid :: "string \<Rightarrow> uuid option"
  dec_parse :: "string \<Rightarrow> rat option"
  dec_show :: "rat \<Rightarrow> string"
  dec_plain :: "rat \<Rightarrow> string"
  dec_div :: "rat \<Rightarrow> rat \<Rightarrow> rat"
  dec_round :: "nat \<Rightarrow> rat \<Rightarrow> rat"
  pg_numeric :: "nat \<Rightarrow> string \<Rightarrow> rat option"
  pg_text :: "nat \<Rightarrow> rat \<Rightarrow> string"
  event_str :: "WebhookEventType \<Rightarrow> string"
  event_parse :: "string \<Rightarrow> WebhookEventType option"
  hash_order :: "string list \<Rightarrow> string list"

section \<open>The world\<close>

record world =
  invoices :: "invoice_row list"
  payments :: "payment_row list"
  payment_options :: "rat payment_option list"
  watched_addresses :: "watched_row list"
  tokens :: "token_row list"
  webhook_outbox :: "obligation_row list"
  chain_cursors_tbl :: "cursor_row list"
  tolerances :: "(uuid \<times> rat) list"
  allowances :: "rat allowance list"
  store_prefs :: "(uuid \<times> json) list"
  store_names :: "(uuid \<times> string) list"
  store_webhooks :: "StoreWebhook list"
  now :: timestamp
  entropy :: "nat \<Rightarrow> uuid"
  drawn :: nat
  faults :: "bool list"
  effects :: "effect list"

datatype RepositoryError = RDatabase | RNotFound | RInvalidData

type_synonym 'a repo = "(RepositoryError, world, 'a) prog"

text \<open>One repository call: it fails when the schedule says so, and otherwise runs.\<close>

definition db_call :: "'a repo \<Rightarrow> 'a repo" where
  "db_call m s =
     (case faults s of
        [] \<Rightarrow> m s
      | f # fs \<Rightarrow> if f then (Inl RDatabase, s\<lparr>faults := fs\<rparr>) else m (s\<lparr>faults := fs\<rparr>))"

definition new_v4 :: "('e, world, uuid) prog" where
  "new_v4 s = (Inr (entropy s (drawn s)), s\<lparr>drawn := Suc (drawn s)\<rparr>)"

definition emit :: "effect \<Rightarrow> ('e, world, unit) prog" where
  "emit e = modP (\<lambda>s. s\<lparr>effects := effects s @ [e]\<rparr>)"

lemma db_call_cases:
  "db_call m s = (r, t) \<longleftrightarrow>
     (\<exists>fs. faults s = True # fs \<and> r = Inl RDatabase \<and> t = s\<lparr>faults := fs\<rparr>)
   \<or> (\<exists>fs. faults s = False # fs \<and> m (s\<lparr>faults := fs\<rparr>) = (r, t))
   \<or> (faults s = [] \<and> m s = (r, t))"
  by (cases "faults s") (auto simp: db_call_def split: if_splits)

lemma db_call_ok: "faults s = [] \<Longrightarrow> db_call m s = m s"
  by (simp add: db_call_def)

lemma wp_db_call:
  assumes "Q (Inl RDatabase) (s\<lparr>faults := tl (faults s)\<rparr>)" and "wp m Q (s\<lparr>faults := tl (faults s)\<rparr>)"
  shows "wp (db_call m) Q s"
proof (cases "faults s")
  case Nil
  then have "s\<lparr>faults := tl (faults s)\<rparr> = s" by (cases s) simp
  with assms(2) have "wp m Q s" by metis
  with Nil show ?thesis by (simp add: wp_def db_call_def)
next
  case (Cons f fs)
  with assms show ?thesis by (simp add: wp_def db_call_def)
qed

lemma wp_read:
  "Q (Inl RDatabase) (s\<lparr>faults := tl (faults s)\<rparr>) \<Longrightarrow>
   Q (g (s\<lparr>faults := tl (faults s)\<rparr>)) (s\<lparr>faults := tl (faults s)\<rparr>) \<Longrightarrow>
   wp (db_call (\<lambda>s. (g s, s))) Q s"
  by (rule wp_db_call) (simp_all add: wp_def)

text \<open>A relation that ignores the fault schedule is kept by a call when its body keeps it.\<close>

lemma steps_db_call:
  assumes m: "steps R m"
    and faults: "\<And>s fs. R s (s\<lparr>faults := fs\<rparr>)"
    and trans: "\<And>s t u. R s t \<Longrightarrow> R t u \<Longrightarrow> R s u"
  shows "steps R (db_call m)"
  unfolding steps_def
proof
  fix s
  show "R s (snd (db_call m s))"
  proof (cases "faults s")
    case Nil with m show ?thesis by (simp add: db_call_def steps_def)
  next
    case (Cons f fs)
    then show ?thesis using m faults[of s fs] trans[OF faults[of s fs]]
      by (auto simp: db_call_def steps_def)
  qed
qed

lemma same_db_call [steps_intros]:
  "(\<And>s fs. f (s\<lparr>faults := fs\<rparr>) = f s) \<Longrightarrow> steps (same f) m \<Longrightarrow> steps (same f) (db_call m)"
  by (rule steps_db_call) (auto simp: same_def)

lemma same_new_v4 [steps_intros]: "(\<And>s d. f (s\<lparr>drawn := d\<rparr>) = f s) \<Longrightarrow> steps (same f) new_v4"
  by (simp add: steps_def same_def new_v4_def)

lemma same_emit [steps_intros]: "(\<And>s es. f (s\<lparr>effects := es\<rparr>) = f s) \<Longrightarrow> steps (same f) (emit e)"
  by (simp add: steps_def same_def emit_def modP_def)

section \<open>The tables\<close>

text \<open>Everything but the fault schedule, the random supply and the log of effects.\<close>

definition tables :: "world \<Rightarrow> world" where
  "tables s = s\<lparr>faults := [], drawn := 0, effects := []\<rparr>"

lemma tables_frame [simp]:
  "tables (s\<lparr>faults := f\<rparr>) = tables s"
  "tables (s\<lparr>drawn := d\<rparr>) = tables s"
  "tables (s\<lparr>effects := e\<rparr>) = tables s"
  by (simp_all add: tables_def)

lemma tables_sel:
  "tables t = tables s \<Longrightarrow> invoices t = invoices s \<and> payments t = payments s
     \<and> payment_options t = payment_options s \<and> watched_addresses t = watched_addresses s
     \<and> webhook_outbox t = webhook_outbox s \<and> chain_cursors_tbl t = chain_cursors_tbl s
     \<and> allowances t = allowances s \<and> tolerances t = tolerances s \<and> now t = now s"
  by (cases s; cases t) (simp add: tables_def)

lemma tables_body: "(\<And>s. tables (snd (m s)) = tables s) \<Longrightarrow> steps (same tables) (db_call m)"
  by (rule same_db_call) (simp_all add: steps_def same_def)

lemma tables_new_v4 [steps_intros]: "steps (same tables) new_v4"
  by (rule same_new_v4) simp

lemma tables_emit [steps_intros]: "steps (same tables) (emit e)"
  by (rule same_emit) simp

text \<open>A view of the tables is unchanged by whatever leaves the tables unchanged.\<close>

definition view :: "(world \<Rightarrow> 'v) \<Rightarrow> bool" where
  "view f \<longleftrightarrow> (\<forall>s. f (tables s) = f s)"

lemma viewI: "(\<And>s. f (s\<lparr>faults := [], drawn := 0, effects := []\<rparr>) = f s) \<Longrightarrow> view f"
  by (simp add: view_def tables_def)

lemma view_frame:
  assumes "view f"
  shows "f (s\<lparr>faults := a\<rparr>) = f s" and "f (s\<lparr>drawn := b\<rparr>) = f s" and "f (s\<lparr>effects := e\<rparr>) = f s"
  using assms by (metis view_def tables_frame)+

lemma view_same: "view f \<Longrightarrow> steps (same tables) m \<Longrightarrow> steps (same f) m"
  by (erule steps_mono) (metis same_def view_def)

lemma view_db_call: "view f \<Longrightarrow> (\<And>s. f (snd (m s)) = f s) \<Longrightarrow> steps (same f) (db_call m)"
  by (rule same_db_call) (simp_all add: steps_def same_def view_frame)

section \<open>Conversions of \<^verbatim>\<open>data-service/src/postgres/conversions.rs\<close>\<close>

primrec status_to_db :: "InvoiceStatus \<Rightarrow> string" where
  "status_to_db Pending = ''pending''"
| "status_to_db Processing = ''processing''"
| "status_to_db PartiallyPaid = ''partially_paid''"
| "status_to_db LatePaid = ''late_paid''"
| "status_to_db Paid = ''paid''"
| "status_to_db Expired = ''expired''"
| "status_to_db Cancelled = ''cancelled''"
| "status_to_db Refunded = ''refunded''"

definition try_db_to_status :: "string \<Rightarrow> RepositoryError + InvoiceStatus" where
  "try_db_to_status s =
     (if s = ''pending'' then Inr Pending
      else if s = ''processing'' then Inr Processing
      else if s = ''partially_paid'' then Inr PartiallyPaid
      else if s = ''late_paid'' then Inr LatePaid
      else if s = ''paid'' then Inr Paid
      else if s = ''expired'' then Inr Expired
      else if s = ''cancelled'' then Inr Cancelled
      else if s = ''refunded'' then Inr Refunded
      else Inl RInvalidData)"

primrec asset_type_to_db :: "AssetType \<Rightarrow> string" where
  "asset_type_to_db Native = ''native''"
| "asset_type_to_db ERC20 = ''erc20''"

definition db_to_asset_type :: "string \<Rightarrow> AssetType" where
  "db_to_asset_type s = (if s = ''erc20'' then ERC20 else Native)"

text \<open>C32 (round trip): every invoice status and every asset type survives being written to its
  column and read back, and a status column never reads back as a status other than the one whose
  text it holds.\<close>

theorem column_round_trips:
  "try_db_to_status (status_to_db st) = Inr st
   \<and> (try_db_to_status txt = Inr st \<longleftrightarrow> txt = status_to_db st)
   \<and> db_to_asset_type (asset_type_to_db a) = a"
  by (cases st; cases a) (auto simp: try_db_to_status_def db_to_asset_type_def)

end
