(* ===== verification/Ledger.thy ===== *)
theory Ledger
  imports World
begin

text \<open>
  The invoice and payment tables: \<^verbatim>\<open>data-service/src/postgres/invoice.rs\<close>,
  \<^verbatim>\<open>data-service/src/postgres/payment.rs\<close> and the trigger \<^verbatim>\<open>update_invoice_on_payment\<close> of the migrations, which
  runs after every insert or update of a payment row.

  The ledger invariant says that the primary and unique keys of the schema hold, that every payment
  belongs to an invoice, and that the amount an invoice has received is exactly the sum of what its
  valid payments credit.  Every operation keeps it, whether it succeeds or fails.
\<close>

section \<open>Invoices\<close>

definition try_row_to_invoice :: "env \<Rightarrow> invoice_row \<Rightarrow> RepositoryError + InvoiceData" where
  "try_row_to_invoice E r =
     (case try_db_to_status (status_to_db (inv_status r)) of
        Inl e \<Rightarrow> Inl e
      | Inr st \<Rightarrow> Inr \<lparr> inv_id = inv_id r, inv_store = inv_store r, inv_currency = inv_currency r,
          inv_status = st, inv_amount = pg_text E 18 (inv_amount r),
          inv_received = pg_text E 18 (inv_received r), inv_created_at = inv_created_at r,
          inv_expires_at = inv_expires_at r, inv_metadata = inv_metadata r, inv_email = inv_email r,
          inv_extra = inv_extra r \<rparr>)"

definition invoice_get :: "env \<Rightarrow> string \<Rightarrow> InvoiceData option repo" where
  "invoice_get E i = db_call (\<lambda>s.
     (case find (\<lambda>r. inv_id r = i) (invoices s) of
        Some r \<Rightarrow> map_sum id Some (try_row_to_invoice E r)
      | None \<Rightarrow> Inr None, s))"

definition open_status :: "InvoiceStatus \<Rightarrow> bool" where
  "open_status st \<longleftrightarrow> st = Pending \<or> st = Processing \<or> st = PartiallyPaid"

definition expired_rows :: "world \<Rightarrow> invoice_row list" where
  "expired_rows s = filter (\<lambda>r. open_status (inv_status r) \<and> inv_expires_at r < now s) (invoices s)"

primrec collect_results :: "('e + 'a) list \<Rightarrow> 'e + 'a list" where
  "collect_results [] = Inr []"
| "collect_results (x # xs) =
     (case x of Inl e \<Rightarrow> Inl e
      | Inr a \<Rightarrow> (case collect_results xs of Inl e \<Rightarrow> Inl e | Inr r \<Rightarrow> Inr (a # r)))"

definition get_expired :: "env \<Rightarrow> InvoiceData list repo" where
  "get_expired E = db_call (\<lambda>s. (collect_results (map (try_row_to_invoice E) (expired_rows s)), s))"

definition stream_expired_pending :: "string list repo" where
  "stream_expired_pending = db_call (\<lambda>s. (Inr (map inv_id (sort_key inv_expires_at (expired_rows s))), s))"

definition invoice_values :: "env \<Rightarrow> InvoiceData \<Rightarrow> invoice_row option" where
  "invoice_values E d =
     (case (pg_numeric E 18 (inv_amount d), pg_numeric E 18 (inv_received d)) of
        (Some a, Some r) \<Rightarrow> Some \<lparr> inv_id = inv_id d, inv_store = inv_store d,
          inv_currency = inv_currency d, inv_status = inv_status d, inv_amount = a, inv_received = r,
          inv_created_at = inv_created_at d, inv_expires_at = inv_expires_at d,
          inv_metadata = inv_metadata d, inv_email = inv_email d, inv_extra = inv_extra d \<rparr>
      | _ \<Rightarrow> None)"

text \<open>Creation: a plain INSERT, refused when the primary key exists.\<close>

definition insert_invoice :: "env \<Rightarrow> InvoiceData \<Rightarrow> unit repo" where
  "insert_invoice E d = db_call (\<lambda>s.
     (case invoice_values E d of
        None \<Rightarrow> (Inl RDatabase, s)
      | Some row \<Rightarrow>
          if inv_id d \<in> set (map inv_id (invoices s)) then (Inl RDatabase, s)
          else (Inr (), s\<lparr>invoices := invoices s @ [row]\<rparr>)))"

definition invoice_upsert :: "env \<Rightarrow> InvoiceData \<Rightarrow> unit repo" where
  "invoice_upsert E d = db_call (\<lambda>s.
     (case invoice_values E d of
        None \<Rightarrow> (Inl RDatabase, s)
      | Some row \<Rightarrow>
          if inv_id d \<in> set (map inv_id (invoices s)) then
            (Inr (), s\<lparr>invoices := update_where (\<lambda>r. inv_id r = inv_id d)
               (\<lambda>r. r\<lparr>inv_status := inv_status row, inv_amount := inv_amount row,
                 inv_received := inv_received row, inv_expires_at := inv_expires_at row,
                 inv_metadata := inv_metadata row, inv_email := inv_email row,
                 inv_extra := inv_extra row\<rparr>) (invoices s)\<rparr>)
          else (Inr (), s\<lparr>invoices := invoices s @ [row]\<rparr>)))"

definition update_status :: "string \<Rightarrow> InvoiceStatus \<Rightarrow> unit repo" where
  "update_status i st = db_call (\<lambda>s.
     let hit = (\<lambda>r. inv_id r = i) in
     (if rows_affected hit (invoices s) = 0 then (Inl RNotFound, s)
      else (Inr (), s\<lparr>invoices := update_where hit (\<lambda>r. r\<lparr>inv_status := st\<rparr>) (invoices s)\<rparr>)))"

definition update_amount_received :: "env \<Rightarrow> string \<Rightarrow> string \<Rightarrow> unit repo" where
  "update_amount_received E i amount = db_call (\<lambda>s.
     let hit = (\<lambda>r. inv_id r = i) in
     (case pg_numeric E 18 amount of
        None \<Rightarrow> (Inl RDatabase, s)
      | Some a \<Rightarrow>
         if rows_affected hit (invoices s) = 0 then (Inl RNotFound, s)
         else (Inr (), s\<lparr>invoices := update_where hit (\<lambda>r. r\<lparr>inv_received := a\<rparr>) (invoices s)\<rparr>)))"

definition expire :: "string \<Rightarrow> bool repo" where
  "expire i = db_call (\<lambda>s.
     let hit = (\<lambda>r. inv_id r = i \<and> open_status (inv_status r)) in
     (Inr (0 < rows_affected hit (invoices s)),
      s\<lparr>invoices := update_where hit (\<lambda>r. r\<lparr>inv_status := Expired\<rparr>) (invoices s)\<rparr>))"

section \<open>Payments\<close>

definition try_row_to_payment :: "env \<Rightarrow> payment_row \<Rightarrow> PaymentData" where
  "try_row_to_payment E r =
     \<lparr> pay_id = pay_id r, pay_invoice = pay_invoice r, pay_option = pay_option r,
       pay_chain = pay_chain r, pay_asset = db_to_asset_type (asset_type_to_db (pay_asset r)),
       pay_amount = pg_text E 0 (pay_amount r), pay_symbol = pay_symbol r, pay_token = pay_token r,
       pay_tx_hash = pay_tx_hash r, pay_block = pay_block r, pay_detected_at = pay_detected_at r,
       pay_confirmed_at = pay_confirmed_at r, pay_from = pay_from r, pay_reorged = pay_reorged r,
       pay_extra = pay_extra r, pay_credited = map_option (pg_text E 18) (pay_credited r),
       pay_rate = map_option (pg_text E 18) (pay_rate r), pay_rate_at = pay_rate_at r \<rparr>"

definition payment_get :: "env \<Rightarrow> uuid \<Rightarrow> PaymentData option repo" where
  "payment_get E i = db_call (\<lambda>s.
     (Inr (map_option (try_row_to_payment E) (find (\<lambda>r. pay_id r = i) (payments s))), s))"

definition get_for_invoice :: "env \<Rightarrow> string \<Rightarrow> PaymentData list repo" where
  "get_for_invoice E i = db_call (\<lambda>s.
     (Inr (map (try_row_to_payment E)
        (sort_key (\<lambda>r. - pay_detected_at r) (filter (\<lambda>r. pay_invoice r = i) (payments s)))), s))"

definition get_awaiting_confirmation :: "env \<Rightarrow> PaymentData list repo" where
  "get_awaiting_confirmation E = db_call (\<lambda>s.
     (Inr (map (try_row_to_payment E)
        (sort_key pay_detected_at
          (filter (\<lambda>r. pay_confirmed_at r = None \<and> \<not> pay_reorged r) (payments s)))), s))"

definition get_valid_for_invoice :: "env \<Rightarrow> string \<Rightarrow> PaymentData list repo" where
  "get_valid_for_invoice E i = db_call (\<lambda>s.
     (Inr (map (try_row_to_payment E)
        (sort_key (\<lambda>r. - pay_detected_at r)
          (filter (\<lambda>r. pay_invoice r = i \<and> \<not> pay_reorged r) (payments s)))), s))"

definition valid_payment_of :: "string \<Rightarrow> payment_row \<Rightarrow> bool" where
  "valid_payment_of i r \<longleftrightarrow> pay_invoice r = i \<and> \<not> pay_reorged r"

definition has_valid_payments :: "string \<Rightarrow> bool repo" where
  "has_valid_payments i = db_call (\<lambda>s. (Inr (list_ex (valid_payment_of i) (payments s)), s))"

subsection \<open>The trigger\<close>

definition credits :: "string \<Rightarrow> payment_row \<Rightarrow> bool" where
  "credits i p \<longleftrightarrow> pay_invoice p = i \<and> \<not> pay_reorged p \<and> pay_credited p \<noteq> None"

text \<open>\<^verbatim>\<open>COALESCE(SUM(credited_amount), 0)\<close> over the payments that count.\<close>

definition credited_sum :: "payment_row list \<Rightarrow> string \<Rightarrow> rat" where
  "credited_sum ps i = sum_list (map (\<lambda>p. the (pay_credited p)) (filter (credits i) ps))"

definition trigger_row :: "payment_row list \<Rightarrow> timestamp \<Rightarrow> payment_row \<Rightarrow> invoice_row \<Rightarrow> invoice_row" where
  "trigger_row ps t new i =
     (if inv_id i = pay_invoice new then
        i\<lparr>inv_received := credited_sum ps (inv_id i),
          inv_status := (if inv_status i = Pending \<and> \<not> pay_reorged new \<and> t \<le> inv_expires_at i
                         then Processing else inv_status i)\<rparr>
      else i)"

definition update_invoice_on_payment :: "payment_row \<Rightarrow> world \<Rightarrow> world" where
  "update_invoice_on_payment new s =
     s\<lparr>invoices := map (trigger_row (payments s) (now s) new) (invoices s)\<rparr>"

text \<open>An UPDATE of payment rows: all rows change, then the trigger runs for each of them.\<close>

definition update_payments :: "(payment_row \<Rightarrow> bool) \<Rightarrow> (payment_row \<Rightarrow> payment_row) \<Rightarrow> world \<Rightarrow> world" where
  "update_payments P f s =
     fold update_invoice_on_payment (map f (filter P (payments s)))
       (s\<lparr>payments := update_where P f (payments s)\<rparr>)"

subsection \<open>Writers\<close>

definition transfer_key :: "payment_row \<Rightarrow> chain_ref \<times> string \<times> i32" where
  "transfer_key p = (pay_chain p, pay_tx_hash p, pay_tx_index p)"

definition coalesce :: "'a option \<Rightarrow> 'a option \<Rightarrow> 'a option" where
  "coalesce a b = (case a of Some x \<Rightarrow> Some x | None \<Rightarrow> b)"

definition cast_opt :: "(string \<Rightarrow> rat option) \<Rightarrow> string option \<Rightarrow> rat option option" where
  "cast_opt f v = (case v of None \<Rightarrow> Some None | Some t \<Rightarrow> map_option Some (f t))"

text \<open>The VALUES clause: the casts, and the default of the column the INSERT does not name.\<close>

definition payment_values :: "env \<Rightarrow> PaymentData \<Rightarrow> i32 \<Rightarrow> payment_row option" where
  "payment_values E d ti =
     (case (pg_numeric E 0 (pay_amount d), cast_opt (pg_numeric E 18) (pay_credited d),
            cast_opt (pg_numeric E 18) (pay_rate d)) of
        (Some a, Some c, Some r) \<Rightarrow> Some
          \<lparr> pay_id = pay_id d, pay_invoice = pay_invoice d, pay_option = pay_option d,
            pay_chain = pay_chain d, pay_asset = pay_asset d, pay_amount = a, pay_symbol = pay_symbol d,
            pay_token = pay_token d, pay_tx_hash = pay_tx_hash d, pay_block = pay_block d,
            pay_detected_at = pay_detected_at d, pay_confirmed_at = pay_confirmed_at d,
            pay_from = pay_from d, pay_reorged = False, pay_extra = pay_extra d, pay_credited = c,
            pay_rate = r, pay_rate_at = pay_rate_at d, pay_tx_index = ti \<rparr>
      | _ \<Rightarrow> None)"

text \<open>\<^verbatim>\<open>ON CONFLICT (chain_id, tx_hash, tx_index) DO UPDATE\<close>.\<close>

definition merge_payment :: "payment_row \<Rightarrow> payment_row \<Rightarrow> payment_row" where
  "merge_payment new old =
     old\<lparr>pay_block := coalesce (pay_block new) (pay_block old),
         pay_confirmed_at := coalesce (pay_confirmed_at new) (pay_confirmed_at old),
         pay_extra := coalesce (pay_extra new) (pay_extra old),
         pay_credited := coalesce (pay_credited new) (pay_credited old),
         pay_rate := coalesce (pay_rate new) (pay_rate old),
         pay_rate_at := coalesce (pay_rate_at new) (pay_rate_at old)\<rparr>"

definition option_exists :: "uuid option \<Rightarrow> world \<Rightarrow> bool" where
  "option_exists oid s = (case oid of None \<Rightarrow> True | Some i \<Rightarrow> i \<in> set (map opt_id (payment_options s)))"

definition upsert_payment_row :: "env \<Rightarrow> PaymentData \<Rightarrow> i32 \<Rightarrow> uuid repo" where
  "upsert_payment_row E d ti s =
     (case payment_values E d ti of
        None \<Rightarrow> (Inl RDatabase, s)
      | Some new \<Rightarrow>
         (case find (\<lambda>p. transfer_key p = transfer_key new) (payments s) of
            Some old \<Rightarrow>
              (Inr (pay_id old),
               update_payments (\<lambda>p. transfer_key p = transfer_key new) (merge_payment new) s)
          | None \<Rightarrow>
              if pay_id new \<in> set (map pay_id (payments s))
                 \<or> pay_invoice new \<notin> set (map inv_id (invoices s))
                 \<or> \<not> option_exists (pay_option new) s
              then (Inl RDatabase, s)
              else (Inr (pay_id new),
                    update_invoice_on_payment new (s\<lparr>payments := payments s @ [new]\<rparr>))))"

definition payment_upsert :: "env \<Rightarrow> PaymentData \<Rightarrow> unit repo" where
  "payment_upsert E d = db_call (thenP (upsert_payment_row E d 0) (okP ()))"

definition mark_confirmed :: "uuid \<Rightarrow> timestamp \<Rightarrow> unit repo" where
  "mark_confirmed i t = db_call (\<lambda>s.
     let hit = (\<lambda>p. pay_id p = i \<and> pay_confirmed_at p = None) in
     (if rows_affected hit (payments s) = 0 then (Inl RNotFound, s)
      else (Inr (), update_payments hit (\<lambda>p. p\<lparr>pay_confirmed_at := Some t\<rparr>) s)))"

definition retract :: "payment_row \<Rightarrow> payment_row" where
  "retract p = p\<lparr>pay_reorged := True, pay_confirmed_at := None\<rparr>"

text \<open>Block numbers are stored and compared as signed 64-bit integers; NULL compares to nothing.\<close>

definition at_or_above :: "u64 \<Rightarrow> payment_row \<Rightarrow> bool" where
  "at_or_above fork p = (case pay_block p of None \<Rightarrow> False | Some b \<Rightarrow> sint fork \<le> sint b)"

definition mark_reorged :: "string \<Rightarrow> chain_ref \<Rightarrow> u64 \<Rightarrow> nat repo" where
  "mark_reorged i c fork = db_call (\<lambda>s.
     let hit = (\<lambda>p. pay_invoice p = i \<and> pay_chain p = c \<and> at_or_above fork p \<and> \<not> pay_reorged p) in
     (Inr (rows_affected hit (payments s)), update_payments hit retract s))"

definition get_payment_by_tx_hash :: "env \<Rightarrow> chain_ref \<Rightarrow> string \<Rightarrow> PaymentData option repo" where
  "get_payment_by_tx_hash E c h = db_call (\<lambda>s.
     (Inr (map_option (try_row_to_payment E)
        (find (\<lambda>p. pay_chain p = c \<and> pay_tx_hash p = h) (payments s))), s))"

definition reorg_candidate :: "chain_ref \<Rightarrow> u64 \<Rightarrow> payment_row \<Rightarrow> bool" where
  "reorg_candidate c fork p \<longleftrightarrow> pay_chain p = c \<and> at_or_above fork p \<and> \<not> pay_reorged p"

definition reorg_candidates :: "env \<Rightarrow> chain_ref \<Rightarrow> u64 \<Rightarrow> PaymentData list repo" where
  "reorg_candidates E c fork = db_call (\<lambda>s.
     (Inr (map (try_row_to_payment E) (filter (reorg_candidate c fork) (payments s))), s))"

definition mark_payment_reorged :: "uuid \<Rightarrow> unit repo" where
  "mark_payment_reorged i = db_call (\<lambda>s.
     (Inr (), update_payments (\<lambda>p. pay_id p = i \<and> \<not> pay_reorged p) retract s))"

definition upsert_with_tx_index :: "env \<Rightarrow> PaymentData \<Rightarrow> i32 \<Rightarrow> unit repo" where
  "upsert_with_tx_index E d ti = db_call (thenP (upsert_payment_row E d ti) (okP ()))"

text \<open>The insert into \<^verbatim>\<open>webhook_outbox\<close> with \<^verbatim>\<open>ON CONFLICT (payment_id, event_type) DO NOTHING\<close>.\<close>

definition insert_obligation :: "uuid \<Rightarrow> uuid \<Rightarrow> string \<Rightarrow> string \<Rightarrow> unit repo" where
  "insert_obligation oid pid i ev s =
     (if list_ex (\<lambda>ob. ob_payment ob = pid \<and> ob_event ob = ev) (webhook_outbox s) then (Inr (), s)
      else if oid \<in> set (map ob_id (webhook_outbox s)) then (Inl RDatabase, s)
      else (Inr (), s\<lparr>webhook_outbox := webhook_outbox s @
              [\<lparr> ob_id = oid, ob_payment = pid, ob_invoice = i, ob_event = ev, ob_created_at = now s,
                 ob_dispatched_at = None, ob_claimed_until = None \<rparr>]\<rparr>))"

text \<open>
  One database transaction: an error in any statement, or the schedule's failure at the commit,
  leaves the tables as they were at the start.
\<close>

definition transaction :: "'a repo \<Rightarrow> 'a repo" where
  "transaction m s =
     (case thenP (db_call (okP ())) (bindP m (\<lambda>x. thenP (db_call (okP ())) (okP x))) s of
        (Inr x, t) \<Rightarrow> (Inr x, t)
      | (Inl e, t) \<Rightarrow> (Inl e, s\<lparr>faults := faults t, drawn := drawn t\<rparr>))"

definition upsert_with_tx_index_and_obligation ::
    "env \<Rightarrow> PaymentData \<Rightarrow> i32 \<Rightarrow> string \<Rightarrow> unit repo" where
  "upsert_with_tx_index_and_obligation E d ti ev = transaction (
     bindP (db_call (upsert_payment_row E d ti)) (\<lambda>pid.
     bindP new_v4 (\<lambda>oid.
     db_call (insert_obligation oid pid (pay_invoice d) ev))))"

definition get_by_tx_index :: "env \<Rightarrow> string \<Rightarrow> string \<Rightarrow> i32 \<Rightarrow> PaymentData option repo" where
  "get_by_tx_index E i h ti = db_call (\<lambda>s.
     (Inr (map_option (try_row_to_payment E)
        (find (\<lambda>p. pay_invoice p = i \<and> pay_tx_hash p = h \<and> pay_tx_index p = ti \<and> \<not> pay_reorged p)
          (payments s))), s))"

section \<open>The trigger, row by row\<close>

lemma trigger_row_sel [simp]:
  "inv_id (trigger_row ps t q i) = inv_id i"
  "inv_amount (trigger_row ps t q i) = inv_amount i"
  "inv_store (trigger_row ps t q i) = inv_store i"
  "inv_expires_at (trigger_row ps t q i) = inv_expires_at i"
  by (simp_all add: trigger_row_def)

lemma fold_trigger_row_sel [simp]:
  "inv_id (fold (trigger_row ps t) qs i) = inv_id i"
  "inv_amount (fold (trigger_row ps t) qs i) = inv_amount i"
  "inv_store (fold (trigger_row ps t) qs i) = inv_store i"
  "inv_expires_at (fold (trigger_row ps t) qs i) = inv_expires_at i"
  by (induction qs arbitrary: i) auto

lemma fold_trigger_row_received:
  "inv_received (fold (trigger_row ps t) qs i) =
     (if \<exists>q \<in> set qs. pay_invoice q = inv_id i then credited_sum ps (inv_id i) else inv_received i)"
proof (induction qs arbitrary: i)
  case (Cons q qs)
  have "inv_received (trigger_row ps t q i) =
      (if pay_invoice q = inv_id i then credited_sum ps (inv_id i) else inv_received i)"
    by (simp add: trigger_row_def)
  then show ?case by (simp add: Cons.IH)
qed simp

lemma fold_trigger_row_status:
  "inv_status (fold (trigger_row ps t) qs i) =
     (if inv_status i = Pending \<and> t \<le> inv_expires_at i
          \<and> (\<exists>q \<in> set qs. pay_invoice q = inv_id i \<and> \<not> pay_reorged q)
      then Processing else inv_status i)"
proof (induction qs arbitrary: i)
  case (Cons q qs)
  let ?hit = "inv_status i = Pending \<and> t \<le> inv_expires_at i \<and> pay_invoice q = inv_id i \<and> \<not> pay_reorged q"
  have step: "inv_status (trigger_row ps t q i) = (if ?hit then Processing else inv_status i)"
    unfolding trigger_row_def by (cases "inv_id i = pay_invoice q") simp_all
  show ?case
  proof (cases ?hit)
    case True
    with step have "inv_status (trigger_row ps t q i) = Processing" by argo
    then show ?thesis using True Cons.IH[of "trigger_row ps t q i"] by simp
  next
    case False
    with step have "inv_status (trigger_row ps t q i) = inv_status i" by argo
    then show ?thesis using False Cons.IH[of "trigger_row ps t q i"] by auto
  qed
qed simp

lemma fold_update_invoice:
  "fold update_invoice_on_payment qs s =
     s\<lparr>invoices := map (fold (trigger_row (payments s) (now s)) qs) (invoices s)\<rparr>"
  by (induction qs arbitrary: s) (simp_all add: update_invoice_on_payment_def comp_def)

lemma update_payments_eq:
  "update_payments P f s =
     s\<lparr>payments := update_where P f (payments s),
       invoices := map (fold (trigger_row (update_where P f (payments s)) (now s))
                          (map f (filter P (payments s)))) (invoices s)\<rparr>"
  by (simp add: update_payments_def fold_update_invoice)

lemma credited_sum_append: "credited_sum (ps @ qs) i = credited_sum ps i + credited_sum qs i"
  by (simp add: credited_sum_def)

lemma credited_sum_update_other:
  "\<forall>p \<in> set ps. P p \<longrightarrow> pay_invoice p \<noteq> i \<Longrightarrow> (\<And>p. pay_invoice (f p) = pay_invoice p) \<Longrightarrow>
   credited_sum (update_where P f ps) i = credited_sum ps i"
  by (induction ps) (auto simp: credited_sum_def credits_def)

section \<open>The ledger invariant\<close>

definition received_ok :: "world \<Rightarrow> bool" where
  "received_ok s \<longleftrightarrow> (\<forall>i \<in> set (invoices s). inv_received i = credited_sum (payments s) (inv_id i))"

definition ledger_inv :: "world \<Rightarrow> bool" where
  "ledger_inv s \<longleftrightarrow>
     distinct (map inv_id (invoices s)) \<and> distinct (map pay_id (payments s))
     \<and> distinct (map transfer_key (payments s))
     \<and> pay_invoice ` set (payments s) \<subseteq> inv_id ` set (invoices s)
     \<and> received_ok s"

lemma ledger_inv_fields:
  "invoices t = invoices s \<Longrightarrow> payments t = payments s \<Longrightarrow> ledger_inv t = ledger_inv s"
  by (simp add: ledger_inv_def received_ok_def)

text \<open>What an UPDATE of payments must keep for the invariant: the row's identity and its invoice.\<close>

definition keeps_identity :: "(payment_row \<Rightarrow> payment_row) \<Rightarrow> bool" where
  "keeps_identity f \<longleftrightarrow>
     (\<forall>p. pay_id (f p) = pay_id p \<and> pay_invoice (f p) = pay_invoice p \<and> transfer_key (f p) = transfer_key p)"

lemma keeps_identity_merge: "keeps_identity (merge_payment new)"
  by (simp add: keeps_identity_def merge_payment_def transfer_key_def)

lemma keeps_identity_retract: "keeps_identity retract"
  by (simp add: keeps_identity_def retract_def transfer_key_def)

lemma keeps_identity_confirm: "keeps_identity (\<lambda>p. p\<lparr>pay_confirmed_at := c\<rparr>)"
  by (simp add: keeps_identity_def transfer_key_def)

lemma received_ok_update_payments:
  assumes ok: "received_ok s" and f: "keeps_identity f"
  shows "received_ok (update_payments P f s)"
  unfolding received_ok_def update_payments_eq
proof clarsimp
  fix i assume i: "i \<in> set (invoices s)"
  let ?ps = "update_where P f (payments s)"
  show "inv_received (fold (trigger_row ?ps (now s)) (map f (filter P (payments s))) i)
          = credited_sum ?ps (inv_id i)"
  proof (cases "\<exists>p \<in> set (payments s). P p \<and> pay_invoice p = inv_id i")
    case True
    then show ?thesis using f by (auto simp: fold_trigger_row_received keeps_identity_def)
  next
    case False
    then have "credited_sum ?ps (inv_id i) = credited_sum (payments s) (inv_id i)"
      using f by (intro credited_sum_update_other) (auto simp: keeps_identity_def)
    then show ?thesis
      using False ok i f by (auto simp: fold_trigger_row_received received_ok_def keeps_identity_def)
  qed
qed

lemma ledger_inv_update_payments:
  assumes inv: "ledger_inv s" and f: "keeps_identity f"
  shows "ledger_inv (update_payments P f s)"
proof -
  have keys: "map pay_id (update_where P f (payments s)) = map pay_id (payments s)"
      "map transfer_key (update_where P f (payments s)) = map transfer_key (payments s)"
      "map pay_invoice (update_where P f (payments s)) = map pay_invoice (payments s)"
    using f by (auto intro!: map_update_where_key simp: keeps_identity_def)
  have "pay_invoice ` set (update_where P f (payments s)) = pay_invoice ` set (payments s)"
    using keys(3) by (metis set_map)
  moreover have "received_ok (update_payments P f s)"
    using inv f by (simp add: ledger_inv_def received_ok_update_payments)
  ultimately show ?thesis
    using inv keys by (simp add: ledger_inv_def update_payments_eq image_image comp_def)
qed

lemma ledger_inv_insert_payment:
  assumes inv: "ledger_inv s" and fresh: "pay_id new \<notin> pay_id ` set (payments s)"
    "transfer_key new \<notin> transfer_key ` set (payments s)" and fk: "pay_invoice new \<in> inv_id ` set (invoices s)"
  shows "ledger_inv (update_invoice_on_payment new (s\<lparr>payments := payments s @ [new]\<rparr>))"
proof -
  have "received_ok (update_invoice_on_payment new (s\<lparr>payments := payments s @ [new]\<rparr>))"
    using inv
    by (auto simp: received_ok_def ledger_inv_def update_invoice_on_payment_def trigger_row_def
        credited_sum_append credited_sum_def[of "[new]"] credits_def)
  then show ?thesis
    using inv fresh fk
    by (simp add: ledger_inv_def update_invoice_on_payment_def image_image comp_def)
qed

text \<open>The part of the world the invariant speaks about.\<close>

definition ledger_view :: "world \<Rightarrow> invoice_row list \<times> payment_row list" where
  "ledger_view s = (invoices s, payments s)"

lemma ledger_view_frame [simp]:
  "ledger_view (s\<lparr>payment_options := a\<rparr>) = ledger_view s"
  "ledger_view (s\<lparr>watched_addresses := b\<rparr>) = ledger_view s"
  "ledger_view (s\<lparr>webhook_outbox := c\<rparr>) = ledger_view s"
  "ledger_view (s\<lparr>chain_cursors_tbl := d\<rparr>) = ledger_view s"
  "ledger_view (s\<lparr>tolerances := e\<rparr>) = ledger_view s"
  "ledger_view (s\<lparr>allowances := g\<rparr>) = ledger_view s"
  "ledger_view (s\<lparr>faults := h\<rparr>) = ledger_view s"
  "ledger_view (s\<lparr>drawn := k\<rparr>) = ledger_view s"
  "ledger_view (s\<lparr>effects := l\<rparr>) = ledger_view s"
  "ledger_view (s\<lparr>now := m\<rparr>) = ledger_view s"
  by (simp_all add: ledger_view_def)

lemma kept_of_same_view: "steps (same ledger_view) m \<Longrightarrow> steps (kept ledger_inv) m"
  by (erule steps_mono) (metis same_def kept_def ledger_view_def ledger_inv_fields prod.inject)

interpretation ledger: step_rel "kept ledger_inv"
  by (rule step_rel_kept)

lemma kept_ledger_fields:
  "(\<And>s. invoices (f s) = invoices s \<and> payments (f s) = payments s) \<Longrightarrow> kept ledger_inv s (f s)"
  unfolding kept_def using ledger_inv_fields by blast

lemma ledger_db_call [steps_intros]: "steps (kept ledger_inv) m \<Longrightarrow> steps (kept ledger_inv) (db_call m)"
  by (rule steps_db_call) (auto intro: kept_ledger_fields ledger.R_trans)

lemma ledger_new_v4 [steps_intros]: "steps (kept ledger_inv) new_v4"
  by (simp add: steps_def new_v4_def kept_ledger_fields)

lemma ledger_emit [steps_intros]: "steps (kept ledger_inv) (emit e)"
  by (simp add: steps_def emit_def modP_def kept_ledger_fields)

lemma ledger_upsert_payment_row [steps_intros]: "steps (kept ledger_inv) (upsert_payment_row E d ti)"
  unfolding steps_def kept_def upsert_payment_row_def
  by (auto simp: find_None_iff image_iff split: option.split
      intro!: ledger_inv_update_payments keeps_identity_merge ledger_inv_insert_payment)

lemma ledger_insert_obligation [steps_intros]: "steps (kept ledger_inv) (insert_obligation oid pid i ev)"
  unfolding steps_def kept_def insert_obligation_def by (auto simp: ledger_inv_def received_ok_def)

lemma steps_transaction:
  assumes body: "steps R (thenP (db_call (okP ())) (bindP m (\<lambda>x. thenP (db_call (okP ())) (okP x))))"
    and rollback: "\<And>s f d. R s (s\<lparr>faults := f, drawn := d\<rparr>)"
  shows "steps R (transaction m)"
  unfolding steps_def
proof
  fix s
  obtain r t where e: "thenP (db_call (okP ())) (bindP m (\<lambda>x. thenP (db_call (okP ())) (okP x))) s = (r, t)"
    by fastforce
  from stepsD[OF body e] show "R s (snd (transaction m s))"
    by (cases r) (simp_all add: transaction_def e rollback)
qed

lemma same_transaction [steps_intros]:
  assumes "view f" and "steps (same f) m" shows "steps (same f) (transaction m)"
proof (rule steps_transaction)
  have db: "steps (same f) (db_call (okP ()))"
    using assms(1) by (rule view_db_call) (simp add: okP_def)
  show "steps (same f) (thenP (db_call (okP ())) (bindP m (\<lambda>x. thenP (db_call (okP ())) (okP x))))"
    by (intro same.steps_bind same.steps_ok assms(2) db)
qed (simp add: same_def view_frame[OF assms(1)])

lemma ledger_transaction [steps_intros]:
  assumes "steps (kept ledger_inv) m" shows "steps (kept ledger_inv) (transaction m)"
proof (rule steps_transaction)
  show "steps (kept ledger_inv) (thenP (db_call (okP ())) (bindP m (\<lambda>x. thenP (db_call (okP ())) (okP x))))"
    by (intro steps_intros assms)
qed (rule kept_ledger_fields, simp)

lemma ledger_read: "(\<And>s. snd (m s) = s) \<Longrightarrow> steps (kept ledger_inv) m"
  by (simp add: steps_def kept_def)

lemma ledger_readers [steps_intros]:
  "steps (kept ledger_inv) (invoice_get E i)"
  "steps (kept ledger_inv) (get_expired E)"
  "steps (kept ledger_inv) stream_expired_pending"
  "steps (kept ledger_inv) (payment_get E pid)"
  "steps (kept ledger_inv) (get_for_invoice E i)"
  "steps (kept ledger_inv) (get_awaiting_confirmation E)"
  "steps (kept ledger_inv) (get_valid_for_invoice E i)"
  "steps (kept ledger_inv) (has_valid_payments i)"
  "steps (kept ledger_inv) (get_payment_by_tx_hash E c h)"
  "steps (kept ledger_inv) (reorg_candidates E c fork)"
  "steps (kept ledger_inv) (get_by_tx_index E i h ti)"
  unfolding invoice_get_def get_expired_def stream_expired_pending_def payment_get_def
    get_for_invoice_def get_awaiting_confirmation_def get_valid_for_invoice_def has_valid_payments_def
    get_payment_by_tx_hash_def reorg_candidates_def get_by_tx_index_def
  by (intro ledger_db_call ledger_read, simp)+

lemma ledger_inv_status_change:
  "ledger_inv s \<Longrightarrow> ledger_inv (s\<lparr>invoices := update_where P (\<lambda>r. r\<lparr>inv_status := g r\<rparr>) (invoices s)\<rparr>)"
proof -
  assume inv: "ledger_inv s"
  have ids: "map inv_id (update_where P (\<lambda>r. r\<lparr>inv_status := g r\<rparr>) (invoices s)) = map inv_id (invoices s)"
    by (rule map_update_where_key) simp
  then have "inv_id ` set (update_where P (\<lambda>r. r\<lparr>inv_status := g r\<rparr>) (invoices s)) = inv_id ` set (invoices s)"
    by (metis set_map)
  with ids inv show ?thesis by (auto simp: ledger_inv_def received_ok_def set_update_where)
qed

lemma ledger_update_status [steps_intros]: "steps (kept ledger_inv) (update_status i st)"
  unfolding update_status_def Let_def
  by (rule ledger_db_call) (auto simp: steps_def kept_def intro!: ledger_inv_status_change)

lemma ledger_expire [steps_intros]: "steps (kept ledger_inv) (expire i)"
  unfolding expire_def Let_def
  by (rule ledger_db_call) (auto simp: steps_def kept_def intro!: ledger_inv_status_change)

lemma ledger_mark_confirmed [steps_intros]: "steps (kept ledger_inv) (mark_confirmed i t)"
  unfolding mark_confirmed_def Let_def
  by (rule ledger_db_call)
    (auto simp: steps_def kept_def intro!: ledger_inv_update_payments keeps_identity_confirm)

lemma ledger_mark_reorged [steps_intros]: "steps (kept ledger_inv) (mark_reorged i c fork)"
  unfolding mark_reorged_def Let_def
  by (rule ledger_db_call)
    (auto simp: steps_def kept_def intro!: ledger_inv_update_payments keeps_identity_retract)

lemma ledger_mark_payment_reorged [steps_intros]: "steps (kept ledger_inv) (mark_payment_reorged i)"
  unfolding mark_payment_reorged_def
  by (rule ledger_db_call)
    (auto simp: steps_def kept_def intro!: ledger_inv_update_payments keeps_identity_retract)

lemma ledger_upserts [steps_intros]:
  "steps (kept ledger_inv) (payment_upsert E d)"
  "steps (kept ledger_inv) (upsert_with_tx_index E d ti)"
  "steps (kept ledger_inv) (upsert_with_tx_index_and_obligation E d ti ev)"
  unfolding payment_upsert_def upsert_with_tx_index_def upsert_with_tx_index_and_obligation_def
  by (intro steps_intros)+

text \<open>A new invoice has received nothing; its identifier is new, so no payment can refer to it.\<close>

lemma ledger_insert_invoice:
  assumes "pg_numeric E 18 (inv_received d) = Some 0"
  shows "steps (kept ledger_inv) (insert_invoice E d)"
proof -
  have "ledger_inv (s\<lparr>invoices := invoices s @ [row]\<rparr>)"
    if inv: "ledger_inv s" and row: "invoice_values E d = Some row" and new: "inv_id d \<notin> inv_id ` set (invoices s)"
    for s row
  proof -
    from row assms have r: "inv_id row = inv_id d" "inv_received row = 0"
      by (auto simp: invoice_values_def split: option.splits)
    from inv new have "\<forall>p \<in> set (payments s). pay_invoice p \<noteq> inv_id d"
      unfolding ledger_inv_def by (metis image_eqI subsetD)
    then have "credited_sum (payments s) (inv_id d) = 0"
      by (simp add: credited_sum_def credits_def cong: filter_cong)
    with inv r new show ?thesis by (auto simp: ledger_inv_def received_ok_def)
  qed
  then show ?thesis
    unfolding insert_invoice_def
    by (intro ledger_db_call) (auto simp: steps_def kept_def split: option.split)
qed

end
