(* ===== verification/Stores.thy ===== *)
theory Stores
  imports Ledger "HOL-Library.Option_ord" "HOL-Library.List_Lexorder" "HOL-Library.Char_ord"
begin

text \<open>
  The remaining tables the payment path reads and writes: payment options, watched addresses, tokens,
  resume cursors, settlement tolerances and allowances, and the webhook outbox
  (\<^verbatim>\<open>data-service/src/postgres/\<close> \<^verbatim>\<open>payment_option.rs\<close>, \<^verbatim>\<open>watched_address.rs\<close>, \<^verbatim>\<open>token.rs\<close>, \<^verbatim>\<open>chain_cursor.rs\<close>,
  \<^verbatim>\<open>settlement_tolerance.rs\<close>, \<^verbatim>\<open>webhook_outbox.rs\<close>, \<^verbatim>\<open>invoice_creation.rs\<close>), and the creation of an invoice with its
  options and watches in one transaction.  None of these operations touches a payment row, so all
  of them keep the ledger invariant.
\<close>

section \<open>Payment options\<close>

definition row_to_payment_option :: "env \<Rightarrow> rat payment_option \<Rightarrow> PaymentOptionData" where
  "row_to_payment_option E r =
     \<lparr> opt_id = opt_id r, opt_invoice = opt_invoice r, opt_method = opt_method r,
       opt_chain = opt_chain r, opt_symbol = opt_symbol r, opt_token = opt_token r,
       opt_decimals = opt_decimals r, opt_address = opt_address r, opt_wallet = opt_wallet r,
       opt_derivation = opt_derivation r, opt_amount = pg_text E 0 (opt_amount r),
       opt_rate = map_option (pg_text E 18) (opt_rate r), opt_rate_at = opt_rate_at r,
       opt_active = opt_active r, opt_created_at = opt_created_at r \<rparr>"

definition option_get :: "env \<Rightarrow> uuid \<Rightarrow> PaymentOptionData option repo" where
  "option_get E i = db_call (\<lambda>s.
     (Inr (map_option (row_to_payment_option E) (find (\<lambda>r. opt_id r = i) (payment_options s))), s))"

definition option_get_for_invoice :: "env \<Rightarrow> string \<Rightarrow> PaymentOptionData list repo" where
  "option_get_for_invoice E i = db_call (\<lambda>s.
     (Inr (map (row_to_payment_option E)
        (sort_key opt_created_at (filter (\<lambda>r. opt_invoice r = i) (payment_options s)))), s))"

definition get_by_payment_method :: "env \<Rightarrow> string \<Rightarrow> string \<Rightarrow> PaymentOptionData option repo" where
  "get_by_payment_method E i m = db_call (\<lambda>s.
     (Inr (map_option (row_to_payment_option E)
        (find (\<lambda>r. opt_invoice r = i \<and> opt_method r = m) (payment_options s))), s))"

definition get_active_for_invoice :: "env \<Rightarrow> string \<Rightarrow> PaymentOptionData list repo" where
  "get_active_for_invoice E i = db_call (\<lambda>s.
     (Inr (map (row_to_payment_option E)
        (sort_key opt_created_at
          (filter (\<lambda>r. opt_invoice r = i \<and> opt_active r) (payment_options s)))), s))"

definition option_get_by_address ::
    "env \<Rightarrow> string \<Rightarrow> chain_ref \<Rightarrow> string option \<Rightarrow> PaymentOptionData option repo" where
  "option_get_by_address E a c tok = db_call (\<lambda>s.
     (Inr (map_option (row_to_payment_option E)
        (find (\<lambda>r. opt_address r = a \<and> opt_chain r = c \<and> opt_token r = tok) (payment_options s))), s))"

definition option_values :: "env \<Rightarrow> PaymentOptionData \<Rightarrow> rat payment_option option" where
  "option_values E d =
     (case (pg_numeric E 0 (opt_amount d), cast_opt (pg_numeric E 18) (opt_rate d)) of
        (Some a, Some r) \<Rightarrow> Some
          \<lparr> opt_id = opt_id d, opt_invoice = opt_invoice d, opt_method = opt_method d,
            opt_chain = opt_chain d, opt_symbol = opt_symbol d, opt_token = opt_token d,
            opt_decimals = opt_decimals d, opt_address = opt_address d, opt_wallet = opt_wallet d,
            opt_derivation = opt_derivation d, opt_amount = a, opt_rate = r,
            opt_rate_at = opt_rate_at d, opt_active = opt_active d, opt_created_at = opt_created_at d \<rparr>
      | _ \<Rightarrow> None)"

definition insert_payment_option :: "env \<Rightarrow> PaymentOptionData \<Rightarrow> unit repo" where
  "insert_payment_option E d = db_call (\<lambda>s.
     (case option_values E d of
        None \<Rightarrow> (Inl RDatabase, s)
      | Some row \<Rightarrow>
          if list_ex (\<lambda>r. opt_id r = opt_id d \<or> (opt_invoice r = opt_invoice d \<and> opt_method r = opt_method d))
               (payment_options s)
             \<or> opt_invoice d \<notin> set (map inv_id (invoices s))
          then (Inl RDatabase, s)
          else (Inr (), s\<lparr>payment_options := payment_options s @ [row]\<rparr>)))"

definition option_create :: "env \<Rightarrow> PaymentOptionData \<Rightarrow> unit repo" where
  "option_create E d = insert_payment_option E d"

definition option_update :: "env \<Rightarrow> PaymentOptionData \<Rightarrow> unit repo" where
  "option_update E d = db_call (\<lambda>s.
     (case option_values E d of
        None \<Rightarrow> (Inl RDatabase, s)
      | Some row \<Rightarrow> (Inr (), s\<lparr>payment_options := update_where (\<lambda>r. opt_id r = opt_id d)
          (\<lambda>r. r\<lparr>opt_amount := opt_amount row, opt_rate := opt_rate row, opt_rate_at := opt_rate_at row,
             opt_active := opt_active row\<rparr>) (payment_options s)\<rparr>)))"

definition option_deactivate :: "uuid \<Rightarrow> bool repo" where
  "option_deactivate i = db_call (\<lambda>s.
     let hit = (\<lambda>r. opt_id r = i \<and> opt_active r) in
     (Inr (0 < rows_affected hit (payment_options s)),
      s\<lparr>payment_options := update_where hit (\<lambda>r. r\<lparr>opt_active := False\<rparr>) (payment_options s)\<rparr>))"

definition deactivate_for_invoice :: "string \<Rightarrow> nat repo" where
  "deactivate_for_invoice i = db_call (\<lambda>s.
     let hit = (\<lambda>r. opt_invoice r = i \<and> opt_active r) in
     (Inr (rows_affected hit (payment_options s)),
      s\<lparr>payment_options := update_where hit (\<lambda>r. r\<lparr>opt_active := False\<rparr>) (payment_options s)\<rparr>))"

section \<open>Watched addresses\<close>

text \<open>\<^verbatim>\<open>LOWER(address) = LOWER($1) AND chain_id = $2 AND LOWER(token_address) = LOWER($3)\<close>, or
  \<^verbatim>\<open>token_address IS NULL\<close> for a native asset.\<close>

definition watch_matches :: "string \<Rightarrow> chain_ref \<Rightarrow> string option \<Rightarrow> watched_row \<Rightarrow> bool" where
  "watch_matches a c tok w \<longleftrightarrow>
     to_lowercase (wa_address w) = to_lowercase a \<and> wa_chain w = c
     \<and> map_option to_lowercase (wa_token w) = map_option to_lowercase tok"

definition get_invoice_id :: "string \<Rightarrow> chain_ref \<Rightarrow> string option \<Rightarrow> string option repo" where
  "get_invoice_id a c tok = db_call (\<lambda>s.
     (Inr (map_option (\<lambda>(w, po). opt_invoice po)
        (find (\<lambda>(w, po). wa_option w = opt_id po \<and> watch_matches a c tok w \<and> wa_active w)
          (List.product (watched_addresses s) (payment_options s)))), s))"

definition get_payment_option_id :: "string \<Rightarrow> chain_ref \<Rightarrow> string option \<Rightarrow> uuid option repo" where
  "get_payment_option_id a c tok = db_call (\<lambda>s.
     (Inr (map_option wa_option
        (find (\<lambda>w. watch_matches a c tok w \<and> wa_active w) (watched_addresses s))), s))"

definition get_active :: "(string \<times> uuid \<times> chain_ref \<times> string option) list repo" where
  "get_active = db_call (\<lambda>s.
     (Inr (map (\<lambda>w. (wa_address w, wa_option w, wa_chain w, wa_token w))
        (filter (\<lambda>w. wa_active w \<and> now s < wa_expires_at w) (watched_addresses s))), s))"

record PendingWatchInfo =
  pw_address :: string
  pw_option :: uuid
  pw_invoice :: string
  pw_chain :: chain_ref
  pw_expected :: string
  pw_token :: "string option"

definition pending_watch :: "timestamp \<Rightarrow> watched_row \<Rightarrow> bool" where
  "pending_watch t w \<longleftrightarrow> wa_active w \<and> \<not> wa_notified w \<and> t < wa_expires_at w"

definition get_pending :: "env \<Rightarrow> PendingWatchInfo list repo" where
  "get_pending E = db_call (\<lambda>s.
     (Inr (map (\<lambda>(w, po). \<lparr> pw_address = wa_address w, pw_option = wa_option w,
                pw_invoice = opt_invoice po, pw_chain = wa_chain w,
                pw_expected = pg_text E 0 (opt_amount po), pw_token = wa_token w \<rparr>)
        (take 100 (sort_key (\<lambda>(w, po). wa_created_at w)
          (filter (\<lambda>(w, po). wa_option w = opt_id po \<and> pending_watch (now s) w)
            (List.product (watched_addresses s) (payment_options s)))))), s))"

record CleanupAddressInfo =
  ca_address :: string
  ca_option :: uuid
  ca_invoice :: string
  ca_chain :: chain_ref
  ca_token :: "string option"

text \<open>The join of watches, options and invoices the three cleanup queries share.\<close>

definition watch_join :: "world \<Rightarrow> (watched_row \<times> rat payment_option \<times> invoice_row) list" where
  "watch_join s =
     filter (\<lambda>(w, po, i). wa_option w = opt_id po \<and> opt_invoice po = inv_id i)
       (List.product (watched_addresses s) (List.product (payment_options s) (invoices s)))"

definition cleanup_info :: "watched_row \<times> rat payment_option \<times> invoice_row \<Rightarrow> CleanupAddressInfo" where
  "cleanup_info = (\<lambda>(w, po, i).
     \<lparr> ca_address = wa_address w, ca_option = wa_option w, ca_invoice = opt_invoice po,
       ca_chain = wa_chain w, ca_token = wa_token w \<rparr>)"

definition get_expired_for_cleanup :: "int \<Rightarrow> CleanupAddressInfo list repo" where
  "get_expired_for_cleanup grace = db_call (\<lambda>s.
     (Inr (map cleanup_info (take 100 (sort_key (\<lambda>(w, po, i). inv_expires_at i)
        (filter (\<lambda>(w, po, i). wa_active w \<and> inv_status i = Expired \<and> inv_expires_at i < now s - grace)
          (watch_join s))))), s))"

definition get_paid_for_cleanup :: "CleanupAddressInfo list repo" where
  "get_paid_for_cleanup = db_call (\<lambda>s.
     (Inr (map cleanup_info (take 100 (sort_key (\<lambda>(w, po, i). inv_created_at i)
        (filter (\<lambda>(w, po, i). wa_active w \<and> inv_status i = Paid) (watch_join s))))), s))"

definition get_cancelled_for_cleanup :: "CleanupAddressInfo list repo" where
  "get_cancelled_for_cleanup = db_call (\<lambda>s.
     (Inr (map cleanup_info (take 100 (sort_key (\<lambda>(w, po, i). inv_created_at i)
        (filter (\<lambda>(w, po, i). wa_active w \<and> inv_status i = Cancelled) (watch_join s))))), s))"

definition rearm_watch :: "uuid \<Rightarrow> timestamp \<Rightarrow> watched_row \<Rightarrow> watched_row" where
  "rearm_watch oid ex w = w\<lparr>wa_option := oid, wa_active := True, wa_expires_at := ex, wa_notified := False\<rparr>"

definition new_watch ::
    "string \<Rightarrow> uuid \<Rightarrow> chain_ref \<Rightarrow> string \<Rightarrow> string option \<Rightarrow> timestamp \<Rightarrow> timestamp \<Rightarrow> watched_row" where
  "new_watch i oid c a tok ex t =
     \<lparr> wa_invoice = i, wa_option = oid, wa_address = a, wa_chain = c, wa_token = tok, wa_active = True,
       wa_notified = False, wa_created_at = t, wa_expires_at = ex \<rparr>"

definition upsert_watched_address ::
    "string \<Rightarrow> timestamp \<Rightarrow> string \<Rightarrow> uuid \<Rightarrow> chain_ref \<Rightarrow> string option \<Rightarrow> unit repo" where
  "upsert_watched_address i ex a oid c tok = db_call (\<lambda>s.
     let hit = (case tok of
                  Some t \<Rightarrow> (\<lambda>w. wa_address w = a \<and> wa_chain w = c \<and> wa_token w = Some t)
                | None \<Rightarrow> watch_matches a c None);
         fk = (oid \<in> set (map opt_id (payment_options s))) in
     if list_ex hit (watched_addresses s) then
       (if fk then (Inr (), s\<lparr>watched_addresses := update_where hit (rearm_watch oid ex) (watched_addresses s)\<rparr>)
        else (Inl RDatabase, s))
     else if fk \<and> i \<in> set (map inv_id (invoices s)) then
       (Inr (), s\<lparr>watched_addresses := watched_addresses s @ [new_watch i oid c a tok ex (now s)]\<rparr>)
     else (Inl RDatabase, s))"

text \<open>\<^verbatim>\<open>WatchedAddressWriter::upsert\<close>: the two lookups, then the shared statement.\<close>

definition watch_upsert :: "string \<Rightarrow> uuid \<Rightarrow> chain_ref \<Rightarrow> string option \<Rightarrow> unit repo" where
  "watch_upsert a oid c tok =
     bindP (db_call (getP (\<lambda>s. map_option (\<lambda>(po, i). inv_expires_at i)
        (find (\<lambda>(po, i). opt_invoice po = inv_id i \<and> opt_id po = oid)
           (List.product (payment_options s) (invoices s)))))) (\<lambda>found.
     bindP (getP now) (\<lambda>t.
     bindP (db_call (getP (\<lambda>s. map_option opt_invoice (find (\<lambda>po. opt_id po = oid) (payment_options s))))) (\<lambda>inv.
     upsert_watched_address (case inv of Some i \<Rightarrow> i | None \<Rightarrow> '''')
       (case found of Some ex \<Rightarrow> ex | None \<Rightarrow> t + 24 * 3600) a oid c tok)))"

definition mark_notified :: "string \<Rightarrow> chain_ref \<Rightarrow> string option \<Rightarrow> unit repo" where
  "mark_notified a c tok = db_call (\<lambda>s.
     (Inr (), s\<lparr>watched_addresses := update_where (watch_matches a c tok)
        (\<lambda>w. w\<lparr>wa_notified := True\<rparr>) (watched_addresses s)\<rparr>))"

definition deactivate :: "string \<Rightarrow> chain_ref \<Rightarrow> string option \<Rightarrow> bool repo" where
  "deactivate a c tok = db_call (\<lambda>s.
     let hit = (\<lambda>w. watch_matches a c tok w \<and> wa_active w) in
     (Inr (0 < rows_affected hit (watched_addresses s)),
      s\<lparr>watched_addresses := update_where hit (\<lambda>w. w\<lparr>wa_active := False\<rparr>) (watched_addresses s)\<rparr>))"

definition deactivate_for_payment_option :: "uuid \<Rightarrow> nat repo" where
  "deactivate_for_payment_option oid = db_call (\<lambda>s.
     let hit = (\<lambda>w. wa_option w = oid \<and> wa_active w) in
     (Inr (rows_affected hit (watched_addresses s)),
      s\<lparr>watched_addresses := update_where hit (\<lambda>w. w\<lparr>wa_active := False\<rparr>) (watched_addresses s)\<rparr>))"

section \<open>Tokens\<close>

definition token_get_by_address :: "chain_ref \<Rightarrow> string \<Rightarrow> token_row option repo" where
  "token_get_by_address c a = db_call (\<lambda>s.
     (Inr (case sort_key tok_token_id
             (filter (\<lambda>r. tok_chain r = c \<and> to_lowercase (tok_address r) = to_lowercase a) (tokens s)) of
             [] \<Rightarrow> None | r # _ \<Rightarrow> Some r), s))"

section \<open>Resume cursors\<close>

definition cursor_of :: "cursor_row \<Rightarrow> ChainCursor" where
  "cursor_of r = \<lparr> cur_epoch = cur_epoch r, cur_seq = cur_seq r, cur_height = cur_height r \<rparr>"

definition chain_cursors :: "string \<Rightarrow> (u64 \<times> ChainCursor) list repo" where
  "chain_cursors adapter = db_call (\<lambda>s.
     (Inr (map (\<lambda>r. (cur_chain r, cursor_of r))
        (filter (\<lambda>r. cur_adapter r = adapter) (chain_cursors_tbl s))), s))"

definition cursor_row_of :: "string \<Rightarrow> u64 \<Rightarrow> ChainCursor \<Rightarrow> cursor_row" where
  "cursor_row_of adapter c k =
     \<lparr> cur_epoch = cur_epoch k, cur_seq = cur_seq k, cur_height = cur_height k,
       cur_adapter = adapter, cur_chain = c \<rparr>"

definition commit_chain_cursor :: "string \<Rightarrow> u64 \<Rightarrow> ChainCursor \<Rightarrow> unit repo" where
  "commit_chain_cursor adapter c k = db_call (\<lambda>s.
     let key = (\<lambda>r. cur_adapter r = adapter \<and> cur_chain r = c) in
     if list_ex key (chain_cursors_tbl s) then
       (Inr (), s\<lparr>chain_cursors_tbl :=
          update_where (\<lambda>r. key r \<and> (cur_epoch r \<noteq> cur_epoch k \<or> cur_seq r < cur_seq k))
            (\<lambda>_. cursor_row_of adapter c k) (chain_cursors_tbl s)\<rparr>)
     else (Inr (), s\<lparr>chain_cursors_tbl := chain_cursors_tbl s @ [cursor_row_of adapter c k]\<rparr>))"

definition delete_chain_cursor :: "string \<Rightarrow> u64 \<Rightarrow> unit repo" where
  "delete_chain_cursor adapter c = db_call (\<lambda>s.
     (Inr (), s\<lparr>chain_cursors_tbl :=
        filter (\<lambda>r. \<not> (cur_adapter r = adapter \<and> cur_chain r = c)) (chain_cursors_tbl s)\<rparr>))"

definition reset_chain_watch_notifications :: "env \<Rightarrow> u64 \<Rightarrow> nat repo" where
  "reset_chain_watch_notifications E c = db_call (\<lambda>s.
     let hit = (\<lambda>w. wa_chain w = chain_evm E c \<and> wa_active w) in
     (Inr (rows_affected hit (watched_addresses s)),
      s\<lparr>watched_addresses := update_where hit (\<lambda>w. w\<lparr>wa_notified := False\<rparr>) (watched_addresses s)\<rparr>))"

section \<open>Settlement tolerance and allowances\<close>

definition get_settlement_tolerance :: "env \<Rightarrow> uuid \<Rightarrow> string option repo" where
  "get_settlement_tolerance E st = db_call (\<lambda>s.
     (Inr (map_option (pg_text E 18) (map_of (tolerances s) st)), s))"

definition get_settlement_allowance :: "env \<Rightarrow> string \<Rightarrow> string allowance option repo" where
  "get_settlement_allowance E i = db_call (\<lambda>s.
     (Inr (map_option (\<lambda>r. \<lparr> al_invoice = al_invoice r, al_shortfall = pg_text E 18 (al_shortfall r),
              al_tolerance = pg_text E 18 (al_tolerance r), al_source = al_source r,
              al_recorded_at = al_recorded_at r \<rparr>)
        (find (\<lambda>r. al_invoice r = i) (allowances s))), s))"

definition set_settlement_tolerance :: "env \<Rightarrow> uuid \<Rightarrow> string \<Rightarrow> unit repo" where
  "set_settlement_tolerance E st txt = db_call (\<lambda>s.
     (case pg_numeric E 18 txt of
        None \<Rightarrow> (Inl RDatabase, s)
      | Some v \<Rightarrow>
          if 0 \<le> v \<and> v \<le> 1 / 10
          then (Inr (), s\<lparr>tolerances := (st, v) # filter (\<lambda>(k, _). k \<noteq> st) (tolerances s)\<rparr>)
          else (Inl RDatabase, s)))"

definition clear_settlement_tolerance :: "uuid \<Rightarrow> unit repo" where
  "clear_settlement_tolerance st = db_call (\<lambda>s.
     (Inr (), s\<lparr>tolerances := filter (\<lambda>(k, _). k \<noteq> st) (tolerances s)\<rparr>))"

definition record_settlement_allowance ::
    "env \<Rightarrow> string \<Rightarrow> string \<Rightarrow> string \<Rightarrow> string \<Rightarrow> unit repo" where
  "record_settlement_allowance E i shortfall tolerance src = db_call (\<lambda>s.
     (case (pg_numeric E 18 shortfall, pg_numeric E 18 tolerance) of
        (Some sf, Some tp) \<Rightarrow>
          if i \<in> set (map inv_id (invoices s)) \<and> src \<in> {''store'', ''default''} then
            (Inr (), s\<lparr>allowances :=
               \<lparr> al_invoice = i, al_shortfall = sf, al_tolerance = tp, al_source = src,
                 al_recorded_at = now s \<rparr> # filter (\<lambda>r. al_invoice r \<noteq> i) (allowances s)\<rparr>)
          else (Inl RDatabase, s)
      | _ \<Rightarrow> (Inl RDatabase, s)))"

section \<open>The webhook outbox\<close>

definition claimable :: "timestamp \<Rightarrow> obligation_row \<Rightarrow> bool" where
  "claimable t r \<longleftrightarrow> ob_dispatched_at r = None
     \<and> (case ob_claimed_until r of None \<Rightarrow> True | Some u \<Rightarrow> u < t)"

definition obligation_of :: "obligation_row \<Rightarrow> WebhookObligation" where
  "obligation_of r = \<lparr> ob_id = ob_id r, ob_payment = ob_payment r, ob_invoice = ob_invoice r,
     ob_event = ob_event r, ob_created_at = ob_created_at r \<rparr>"

text \<open>A negative \<^verbatim>\<open>LIMIT\<close> is an error of the database; the rows picked are the oldest.\<close>

definition claim_undispatched_obligations :: "int \<Rightarrow> int \<Rightarrow> WebhookObligation list repo" where
  "claim_undispatched_obligations limit visibility = db_call (\<lambda>s.
     let picked = take (nat limit) (sort_key ob_created_at (filter (claimable (now s)) (webhook_outbox s)));
         ids = map ob_id picked in
     if limit < 0 then (Inl RDatabase, s)
     else (Inr (map obligation_of picked),
      s\<lparr>webhook_outbox := update_where (\<lambda>r. ob_id r \<in> set ids)
          (\<lambda>r. r\<lparr>ob_claimed_until := Some (now s + visibility)\<rparr>) (webhook_outbox s)\<rparr>))"

definition mark_obligation_dispatched :: "uuid \<Rightarrow> unit repo" where
  "mark_obligation_dispatched i = db_call (\<lambda>s.
     (Inr (), s\<lparr>webhook_outbox := update_where (\<lambda>r. ob_id r = i)
        (\<lambda>r. r\<lparr>ob_dispatched_at := Some (now s)\<rparr>) (webhook_outbox s)\<rparr>))"

section \<open>Creating an invoice\<close>

definition create_invoice_with_options :: "env \<Rightarrow> InvoiceData \<Rightarrow> PaymentOptionData list \<Rightarrow> unit repo" where
  "create_invoice_with_options E d options = transaction (
     thenP (insert_invoice E d)
       (iterP (\<lambda>po. thenP (insert_payment_option E po)
          (upsert_watched_address (inv_id d) (inv_expires_at d) (opt_address po) (opt_id po)
             (opt_chain po) (opt_token po))) options))"

section \<open>Frame: the ledger is not touched\<close>

lemma same_view_body: "(\<And>s. ledger_view (snd (m s)) = ledger_view s) \<Longrightarrow> steps (same ledger_view) (db_call m)"
  by (rule same_db_call) (simp_all add: steps_def same_def)

lemma stores_view [steps_intros]:
  "steps (same ledger_view) (option_get E oid)"
  "steps (same ledger_view) (option_get_for_invoice E i)"
  "steps (same ledger_view) (get_by_payment_method E i m)"
  "steps (same ledger_view) (get_active_for_invoice E i)"
  "steps (same ledger_view) (option_get_by_address E a c tok)"
  "steps (same ledger_view) (get_invoice_id a c tok)"
  "steps (same ledger_view) (get_payment_option_id a c tok)"
  "steps (same ledger_view) get_active"
  "steps (same ledger_view) (get_pending E)"
  "steps (same ledger_view) (get_expired_for_cleanup g)"
  "steps (same ledger_view) get_paid_for_cleanup"
  "steps (same ledger_view) get_cancelled_for_cleanup"
  "steps (same ledger_view) (token_get_by_address c a)"
  "steps (same ledger_view) (chain_cursors ad)"
  "steps (same ledger_view) (get_settlement_tolerance E st)"
  "steps (same ledger_view) (get_settlement_allowance E i)"
  unfolding option_get_def option_get_for_invoice_def get_by_payment_method_def
    get_active_for_invoice_def option_get_by_address_def get_invoice_id_def get_payment_option_id_def
    get_active_def get_pending_def get_expired_for_cleanup_def get_paid_for_cleanup_def
    get_cancelled_for_cleanup_def token_get_by_address_def chain_cursors_def
    get_settlement_tolerance_def get_settlement_allowance_def
  by (rule same_view_body, simp)+

lemma stores_view_writers [steps_intros]:
  "steps (same ledger_view) (insert_payment_option E d)"
  "steps (same ledger_view) (option_update E d)"
  "steps (same ledger_view) (option_deactivate oid)"
  "steps (same ledger_view) (deactivate_for_invoice i)"
  "steps (same ledger_view) (upsert_watched_address i ex a oid c tok)"
  "steps (same ledger_view) (mark_notified a c tok)"
  "steps (same ledger_view) (deactivate a c tok)"
  "steps (same ledger_view) (deactivate_for_payment_option oid)"
  "steps (same ledger_view) (commit_chain_cursor ad ch k)"
  "steps (same ledger_view) (delete_chain_cursor ad ch)"
  "steps (same ledger_view) (reset_chain_watch_notifications E ch)"
  "steps (same ledger_view) (set_settlement_tolerance E st txt)"
  "steps (same ledger_view) (clear_settlement_tolerance st)"
  "steps (same ledger_view) (record_settlement_allowance E i sf tp src)"
  "steps (same ledger_view) (claim_undispatched_obligations n v)"
  "steps (same ledger_view) (mark_obligation_dispatched oid)"
  unfolding insert_payment_option_def option_update_def option_deactivate_def deactivate_for_invoice_def
    upsert_watched_address_def mark_notified_def deactivate_def deactivate_for_payment_option_def
    commit_chain_cursor_def delete_chain_cursor_def reset_chain_watch_notifications_def
    set_settlement_tolerance_def clear_settlement_tolerance_def record_settlement_allowance_def
    claim_undispatched_obligations_def mark_obligation_dispatched_def Let_def
  by (rule same_view_body, simp split: option.split)+

lemmas stores_ledger [steps_intros] =
  stores_view[THEN kept_of_same_view] stores_view_writers[THEN kept_of_same_view]

lemma ledger_create_invoice:
  "pg_numeric E 18 (inv_received d) = Some 0 \<Longrightarrow>
   steps (kept ledger_inv) (create_invoice_with_options E d options)"
  unfolding create_invoice_with_options_def by (intro steps_intros ledger_insert_invoice)

end
