(* ===== verification/Notify.thy ===== *)
theory Notify
  imports Stores
begin

text \<open>
  Notifications: store-scoped webhook dispatch (\<^verbatim>\<open>server/src/services/webhook/dispatch.rs\<close>), live status
  updates (\<^verbatim>\<open>server/src/api/ws.rs\<close>) and the own-store payment observers
  (\<^verbatim>\<open>server/src/services/plugins/payment_observer.rs\<close>).  A notification is recorded as an effect of the
  world; none of them changes a table, which is what makes them safe to lose.
\<close>

datatype QueueOutcome = Queued | Skipped | Failed

definition get_store_settings :: "uuid \<Rightarrow> json option repo" where
  "get_store_settings st = db_call (\<lambda>s. (Inr (map_of (store_prefs s) st), s))"

definition get_enabled_webhook :: "uuid \<Rightarrow> StoreWebhook option repo" where
  "get_enabled_webhook st = db_call (\<lambda>s.
     (Inr (find (\<lambda>w. sw_store w = st \<and> sw_enabled w) (store_webhooks s)), s))"

definition get_store_name :: "uuid \<Rightarrow> string option repo" where
  "get_store_name st = db_call (\<lambda>s. (Inr (map_of (store_names s) st), s))"

definition suppressed_by_prefs :: "uuid \<Rightarrow> string \<Rightarrow> ('e, world, bool) prog" where
  "suppressed_by_prefs st key =
     bindP (tryP (get_store_settings st)) (\<lambda>r.
       okP (case r of
              Inr (Some prefs) \<Rightarrow>
                (case json_get prefs key of
                   Some p \<Rightarrow> json_get p ''webhook'' = Some (JBool False) | None \<Rightarrow> False)
            | _ \<Rightarrow> False))"

definition job_new :: "StoreWebhook \<Rightarrow> WebhookPayload \<Rightarrow> ('e, world, WebhookJob) prog" where
  "job_new cfg payload =
     bindP (getP now) (\<lambda>t. bindP new_v4 (\<lambda>i.
       okP \<lparr> job_id = i, job_store_webhook = sw_id cfg, job_url = sw_url cfg, job_secret = sw_secret cfg,
             job_payload = payload, job_attempts = 0, job_max_attempts = 7, job_created_at = t,
             job_scheduled_at = t \<rparr>))"

text \<open>\<^verbatim>\<open>WebhookSink::queue\<close>: the queue accepts the job or reports a failure.\<close>

definition sink_queue :: "WebhookJob \<Rightarrow> unit repo" where
  "sink_queue job = db_call (emit (Webhook_queued job))"

definition queue_for_store :: "env \<Rightarrow> uuid \<Rightarrow> WebhookPayload \<Rightarrow> ('e, world, QueueOutcome) prog" where
  "queue_for_store E st payload =
     bindP (suppressed_by_prefs st (event_str E (payload_event payload))) (\<lambda>off.
     if off then okP Skipped
     else bindP (tryP (get_enabled_webhook st)) (\<lambda>r.
       case r of
         Inl _ \<Rightarrow> okP Failed
       | Inr None \<Rightarrow> okP Skipped
       | Inr (Some cfg) \<Rightarrow>
           bindP (job_new cfg payload) (\<lambda>job.
           bindP (tryP (sink_queue job)) (\<lambda>q.
             okP (case q of Inl _ \<Rightarrow> Failed | Inr _ \<Rightarrow> Queued)))))"

section \<open>Live updates\<close>

definition ws_send :: "uuid \<Rightarrow> StatusUpdate \<Rightarrow> ('e, world, unit) prog" where
  "ws_send st u = emit (Ws_send st u)"

definition send_for_invoice :: "env \<Rightarrow> string \<Rightarrow> StatusUpdate \<Rightarrow> ('e, world, unit) prog" where
  "send_for_invoice E i u =
     bindP (tryP (invoice_get E i)) (\<lambda>r.
       case r of Inr (Some d) \<Rightarrow> ws_send (inv_store d) u | _ \<Rightarrow> okP ())"

section \<open>Own-store observers\<close>

definition is_own_store :: "uuid option \<Rightarrow> uuid \<Rightarrow> bool" where
  "is_own_store own st = (case own of None \<Rightarrow> False | Some o' \<Rightarrow> o' = st)"

definition from_invoice :: "InvoiceData \<Rightarrow> timestamp \<Rightarrow> OwnStorePayment" where
  "from_invoice d t =
     \<lparr> osp_invoice = inv_id d, osp_currency = inv_currency d, osp_received = inv_received d,
       osp_status = inv_status d, osp_settled_at = t, osp_metadata = inv_metadata d \<rparr>"

text \<open>The observers are numbered; each is told in order.\<close>

definition notify_own_store_payment ::
    "nat \<Rightarrow> uuid option \<Rightarrow> InvoiceData \<Rightarrow> timestamp \<Rightarrow> ('e, world, unit) prog" where
  "notify_own_store_payment observers own d t =
     (if observers = 0 \<or> \<not> is_own_store own (inv_store d) then okP ()
      else iterP (\<lambda>k. emit (Observer_told k (from_invoice d t))) [0..<observers])"

section \<open>Notifications change no table\<close>

lemma tables_readers [steps_intros]:
  "steps (same tables) (invoice_get E i)"
  "steps (same tables) (get_store_settings st)"
  "steps (same tables) (get_enabled_webhook st)"
  "steps (same tables) (get_store_name st)"
  unfolding invoice_get_def get_store_settings_def get_enabled_webhook_def get_store_name_def
  by (rule tables_body, simp)+

lemma tables_sink [steps_intros]: "steps (same tables) (sink_queue job)"
  unfolding sink_queue_def by (intro steps_intros) simp

lemma tables_notify [steps_intros]:
  "steps (same tables) (suppressed_by_prefs st key)"
  "steps (same tables) (job_new cfg payload)"
  "steps (same tables) (ws_send st u)"
  "steps (same tables) (send_for_invoice E i u)"
  "steps (same tables) (notify_own_store_payment k own d t)"
  unfolding suppressed_by_prefs_def job_new_def ws_send_def send_for_invoice_def
    notify_own_store_payment_def
  by (intro steps_intros)+

lemma tables_queue_for_store [steps_intros]: "steps (same tables) (queue_for_store E st payload)"
  unfolding queue_for_store_def by (intro steps_intros)

lemma kept_of_same_tables: "steps (same tables) m \<Longrightarrow> steps (kept ledger_inv) m"
  by (rule kept_of_same_view, erule steps_mono) (auto simp: same_def ledger_view_def dest: tables_sel)

end
