(* ===== verification/Lifecycle.thy ===== *)
theory Lifecycle
  imports Notify
begin

text \<open>
  The life of an invoice outside the payment path: the cleanup service
  (\<^verbatim>\<open>server/src/services/invoice_cleanup.rs\<close>), which expires invoices and stops watching addresses nobody
  needs any more, and cancellation by an administrator (\<^verbatim>\<open>server/src/api/invoices/cancel.rs\<close>).
\<close>

section \<open>Configuration\<close>

record CleanupConfig =
  fallback_interval_secs :: u64
  unwatch_grace_period_secs :: u64
  paid_unwatch_grace_period_secs :: u64

definition cleanup_config_default :: CleanupConfig where
  "cleanup_config_default =
     \<lparr> fallback_interval_secs = 60, unwatch_grace_period_secs = 60, paid_unwatch_grace_period_secs = 3600 \<rparr>"

definition env_u64 :: "(string \<Rightarrow> string option) \<Rightarrow> string \<Rightarrow> u64 \<Rightarrow> u64" where
  "env_u64 var key d = (case var key of None \<Rightarrow> d
     | Some v \<Rightarrow> (case parse_u64 v of Some n \<Rightarrow> n | None \<Rightarrow> d))"

definition cleanup_config_from_env :: "(string \<Rightarrow> string option) \<Rightarrow> CleanupConfig" where
  "cleanup_config_from_env var =
     \<lparr> fallback_interval_secs = env_u64 var ''CLEANUP_FALLBACK_INTERVAL_SECS'' 60,
       unwatch_grace_period_secs = env_u64 var ''CLEANUP_UNWATCH_GRACE_PERIOD_SECS'' 60,
       paid_unwatch_grace_period_secs = env_u64 var ''CLEANUP_PAID_UNWATCH_GRACE_PERIOD_SECS'' 3600 \<rparr>"

text \<open>The service: its configuration and which optional collaborators it was built with.\<close>

record InvoiceCleanupService =
  cs_config :: CleanupConfig
  cs_webhook :: bool
  cs_ws :: bool

datatype CleanupError = CNotAnEvmChain | CRepository RepositoryError | CMonitor | CInvalidAddress

section \<open>Expiry\<close>

definition queue_expiration_webhook :: "env \<Rightarrow> InvoiceCleanupService \<Rightarrow> string \<Rightarrow> ('e, world, unit) prog" where
  "queue_expiration_webhook E C i =
     (if \<not> cs_webhook C then okP ()
      else bindP (tryP (invoice_get E i)) (\<lambda>r.
        case r of
          Inr (Some d) \<Rightarrow>
            bindP (queue_for_store E (inv_store d) (Invoice_event EvInvoiceExpired d)) (\<lambda>_. okP ())
        | _ \<Rightarrow> okP ()))"

definition expire_one :: "env \<Rightarrow> InvoiceCleanupService \<Rightarrow> string \<Rightarrow> ('e, world, nat) prog" where
  "expire_one E C i =
     bindP (tryP (expire i)) (\<lambda>r.
       case r of
         Inr True \<Rightarrow>
           thenP (if cs_ws C then send_for_invoice E i (InvoiceStatusUpdate i Expired) else okP ())
             (thenP (queue_expiration_webhook E C i) (okP 1))
       | Inr False \<Rightarrow> okP 0
       | Inl _ \<Rightarrow> okP 0)"

definition check_expired :: "env \<Rightarrow> InvoiceCleanupService \<Rightarrow> (CleanupError, world, nat) prog" where
  "check_expired E C =
     bindP (tryP stream_expired_pending) (\<lambda>r.
       case r of Inr ids \<Rightarrow> sumP (expire_one E C) ids | Inl _ \<Rightarrow> okP 0)"

definition check_chain :: "env \<Rightarrow> InvoiceCleanupService \<Rightarrow> u64 \<Rightarrow> (CleanupError, world, nat) prog" where
  "check_chain E C chain = check_expired E C"

section \<open>Unwatching\<close>

text \<open>\<^verbatim>\<open>EVMMonitor::unwatch_address_by_chain_id\<close>: a message to the monitor, which may fail to be sent.\<close>

definition unwatch_address_by_chain_id :: "u64 \<Rightarrow> address \<Rightarrow> address option \<Rightarrow> unit repo" where
  "unwatch_address_by_chain_id c a tok = db_call (emit (Unwatch_sent c a tok))"

definition unwatch_and_deactivate ::
    "env \<Rightarrow> string \<Rightarrow> chain_ref \<Rightarrow> string option \<Rightarrow> (CleanupError, world, unit) prog" where
  "unwatch_and_deactivate E a c tok =
     (case parse_address E a of
        None \<Rightarrow> errP CInvalidAddress
      | Some addr \<Rightarrow>
         (case chain_evm_id E c of
            None \<Rightarrow> errP CNotAnEvmChain
          | Some eip155 \<Rightarrow>
             thenP (mapErrP (\<lambda>_. CMonitor)
                      (unwatch_address_by_chain_id eip155 addr (Option.bind tok (parse_address E))))
               (thenP (mapErrP CRepository (deactivate a c tok)) (okP ()))))"

definition unwatch_one :: "env \<Rightarrow> CleanupAddressInfo \<Rightarrow> (CleanupError, world, nat) prog" where
  "unwatch_one E info =
     bindP (tryP (unwatch_and_deactivate E (ca_address info) (ca_chain info) (ca_token info))) (\<lambda>r.
       okP (case r of Inl _ \<Rightarrow> 0 | Inr _ \<Rightarrow> 1))"

definition cleanup_expired_addresses :: "env \<Rightarrow> InvoiceCleanupService \<Rightarrow> (CleanupError, world, nat) prog" where
  "cleanup_expired_addresses E C =
     bindP (mapErrP CRepository
              (get_expired_for_cleanup (sint (unwatch_grace_period_secs (cs_config C)))))
       (sumP (unwatch_one E))"

definition effective_paid_unwatch_grace_period_secs ::
    "env \<Rightarrow> InvoiceCleanupService \<Rightarrow> chain_ref \<Rightarrow> u64" where
  "effective_paid_unwatch_grace_period_secs E C c =
     max (paid_unwatch_grace_period_secs (cs_config C))
       (case Option.bind (chain_evm_id E c) get_any_chain_config of
          Some cfg \<Rightarrow> min_paid_unwatch_grace_period_secs cfg | None \<Rightarrow> 0)"

definition confirmed_within_grace :: "env \<Rightarrow> InvoiceCleanupService \<Rightarrow> timestamp \<Rightarrow> PaymentData \<Rightarrow> bool" where
  "confirmed_within_grace E C t p =
     (case pay_confirmed_at p of
        None \<Rightarrow> False
      | Some c \<Rightarrow> t - c < sint (effective_paid_unwatch_grace_period_secs E C (pay_chain p)))"

definition within_paid_grace_period ::
    "env \<Rightarrow> InvoiceCleanupService \<Rightarrow> string \<Rightarrow> (CleanupError, world, bool) prog" where
  "within_paid_grace_period E C i =
     bindP (mapErrP CRepository (get_for_invoice E i)) (\<lambda>ps.
     bindP (getP now) (\<lambda>t. okP (list_ex (confirmed_within_grace E C t) ps)))"

definition cleanup_paid_one ::
    "env \<Rightarrow> InvoiceCleanupService \<Rightarrow> CleanupAddressInfo \<Rightarrow> (CleanupError, world, nat) prog" where
  "cleanup_paid_one E C info =
     bindP (tryP (within_paid_grace_period E C (ca_invoice info))) (\<lambda>r.
       case r of Inr False \<Rightarrow> unwatch_one E info | Inr True \<Rightarrow> okP 0 | Inl _ \<Rightarrow> okP 0)"

definition cleanup_paid_addresses :: "env \<Rightarrow> InvoiceCleanupService \<Rightarrow> (CleanupError, world, nat) prog" where
  "cleanup_paid_addresses E C =
     bindP (mapErrP CRepository get_paid_for_cleanup) (sumP (cleanup_paid_one E C))"

definition cleanup_cancelled_addresses :: "env \<Rightarrow> (CleanupError, world, nat) prog" where
  "cleanup_cancelled_addresses E =
     bindP (mapErrP CRepository get_cancelled_for_cleanup) (sumP (unwatch_one E))"

record CleanupStats =
  st_expired :: nat
  st_paid :: nat
  st_cancelled :: nat

definition cleanup_total :: "CleanupStats \<Rightarrow> nat" where
  "cleanup_total st = st_expired st + st_paid st + st_cancelled st"

definition cleanup_addresses :: "env \<Rightarrow> InvoiceCleanupService \<Rightarrow> (CleanupError, world, CleanupStats) prog" where
  "cleanup_addresses E C =
     bindP (cleanup_expired_addresses E C) (\<lambda>a.
     bindP (cleanup_paid_addresses E C) (\<lambda>b.
     bindP (cleanup_cancelled_addresses E) (\<lambda>c.
     okP \<lparr> st_expired = a, st_paid = b, st_cancelled = c \<rparr>)))"

text \<open>One turn of the timer loop: both passes run, and neither failure stops the loop.\<close>

definition cleanup_tick :: "env \<Rightarrow> InvoiceCleanupService \<Rightarrow> (CleanupError, world, unit) prog" where
  "cleanup_tick E C =
     thenP (tryP (check_expired E C) :: (CleanupError, world, _) prog)
       (thenP (tryP (cleanup_addresses E C) :: (CleanupError, world, _) prog) (okP ()))"

section \<open>Cancellation\<close>

datatype StatusCode = INTERNAL_SERVER_ERROR | NOT_FOUND | BAD_REQUEST | CONFLICT | NOT_IMPLEMENTED

definition cancel_invoice :: "env \<Rightarrow> bool \<Rightarrow> string \<Rightarrow> (StatusCode, world, InvoiceData \<times> PaymentOptionData list) prog" where
  "cancel_invoice E sink i =
     bindP (mapErrP (\<lambda>_. INTERNAL_SERVER_ERROR) (invoice_get E i)) (\<lambda>found.
     case found of
       None \<Rightarrow> errP NOT_FOUND
     | Some d \<Rightarrow>
        if \<not> open_status (inv_status d) then errP BAD_REQUEST
        else
          thenP (mapErrP (\<lambda>_. INTERNAL_SERVER_ERROR) (update_status i Cancelled))
          (thenP (tryP (deactivate_for_invoice i))
          (let cancelled = d\<lparr>inv_status := Cancelled\<rparr> in
           thenP (if sink then
                    bindP (queue_for_store E (inv_store d) (Invoice_event EvInvoiceCancelled cancelled))
                      (\<lambda>_. okP ())
                  else okP ())
           (bindP (tryP (option_get_for_invoice E i)) (\<lambda>r.
             okP (cancelled, case r of Inr os \<Rightarrow> os | Inl _ \<Rightarrow> []))))))"

end
