(* ===== verification/Settlement.thy ===== *)
theory Settlement
  imports World
begin

text \<open>
  Settlement tolerance: \<^verbatim>\<open>server/src/services/settlement.rs\<close> and the constants of
  \<^verbatim>\<open>data-service/src/settlement_tolerance.rs\<close>.  How far short of the invoice amount a payment may fall and
  still settle it.  Decimal parsing and division belong to the decimal library; what is used of them
  appears as a hypothesis at the values concerned.
\<close>

definition DEFAULT_TOLERANCE_PERCENT :: string where
  "DEFAULT_TOLERANCE_PERCENT = ''0.0001''"

definition MAX_TOLERANCE_PERCENT :: string where
  "MAX_TOLERANCE_PERCENT = ''0.1''"

definition parse_tolerance_percent :: "env \<Rightarrow> string \<Rightarrow> string + rat" where
  "parse_tolerance_percent E raw =
     (case dec_parse E (trim raw) of
        None \<Rightarrow> Inl ''Tolerance is not a number''
      | Some v \<Rightarrow>
          if v < 0 then Inl ''Tolerance cannot be negative''
          else (case dec_parse E MAX_TOLERANCE_PERCENT of
                  None \<Rightarrow> Inl ''Invalid ceiling''
                | Some m \<Rightarrow> if m < v then Inl ''Tolerance exceeds the maximum allowed'' else Inr v))"

text \<open>The error of the second branch is the parser's own text, which is not modelled.\<close>

definition effective_tolerance :: "env \<Rightarrow> string option \<Rightarrow> string + rat \<times> string" where
  "effective_tolerance E setting =
     (case setting of
        Some raw \<Rightarrow>
          (case parse_tolerance_percent E raw of
             Inr v \<Rightarrow> Inr (v, ''store'')
           | Inl e \<Rightarrow> Inl (''Stored tolerance '' @ [CHR 0x27] @ raw @ [CHR 0x27] @ '' is invalid: '' @ e))
      | None \<Rightarrow>
          (case dec_parse E DEFAULT_TOLERANCE_PERCENT of
             Some v \<Rightarrow> Inr (v, ''default'') | None \<Rightarrow> Inl ''''))"

definition is_fully_paid :: "env \<Rightarrow> rat \<Rightarrow> rat \<Rightarrow> rat \<Rightarrow> bool" where
  "is_fully_paid E received expected tolerance =
     (let allowance = dec_div E (expected * tolerance) 100 in expected \<le> received + allowance)"

section \<open>Properties\<close>

lemma parse_tolerance_iff:
  assumes "dec_parse E MAX_TOLERANCE_PERCENT = Some m"
  shows "parse_tolerance_percent E raw = Inr v \<longleftrightarrow> dec_parse E (trim raw) = Some v \<and> 0 \<le> v \<and> v \<le> m"
  using assms by (auto simp: parse_tolerance_percent_def split: option.splits if_splits)

lemma effective_tolerance_bound:
  assumes max: "dec_parse E MAX_TOLERANCE_PERCENT = Some (1/10)"
    and dflt: "dec_parse E DEFAULT_TOLERANCE_PERCENT = Some (1/10000)"
    and eff: "effective_tolerance E setting = Inr (t, src)"
  shows "0 \<le> t \<and> t \<le> 1/10 \<and> (src = ''default'' \<longleftrightarrow> setting = None)"
  using eff dflt parse_tolerance_iff[OF max]
  by (auto simp: effective_tolerance_def split: option.splits sum.splits)

text \<open>C27 (safety): whatever the store has configured, an invoice that counts as fully paid is short by
  at most a thousandth of its amount, and an exact payment always counts as fully paid.  The
  hypotheses are the numeric values of the two constants and that dividing by one hundred is exact.\<close>

theorem settled_shortfall_bound:
  assumes max: "dec_parse E MAX_TOLERANCE_PERCENT = Some (1/10)"
    and dflt: "dec_parse E DEFAULT_TOLERANCE_PERCENT = Some (1/10000)"
    and div: "dec_div E (expected * t) 100 = expected * t / 100"
    and eff: "effective_tolerance E setting = Inr (t, src)"
    and pos: "0 \<le> expected"
  shows "(is_fully_paid E received expected t \<longrightarrow> expected - received \<le> expected / 1000)
    \<and> (expected \<le> received \<longrightarrow> is_fully_paid E received expected t)"
proof -
  from effective_tolerance_bound[OF max dflt eff] have t: "0 \<le> t" "t \<le> 1/10" by auto
  then have "expected * t / 100 \<le> expected / 1000" "0 \<le> expected * t / 100"
    using pos mult_left_mono[OF t(2) pos] by auto
  then show ?thesis by (auto simp: is_fully_paid_def div)
qed

definition demo_decimals :: env where
  "demo_decimals =
     \<lparr> chain_evm = (\<lambda>c. ''eip155:'' @ show_u64 c), chain_evm_id = (\<lambda>_. None),
       fmt_address = (\<lambda>_. ''0x''), parse_address = (\<lambda>_. None), fmt_b256 = (\<lambda>_. ''0x''),
       parse_b256 = (\<lambda>_. None), fmt_u256 = (\<lambda>w. show_nat (unat w)), parse_u256 = (\<lambda>_. None), fmt_uuid = show_nat,
       parse_uuid = (\<lambda>_. None),
       dec_parse = (\<lambda>t. if t = ''0.0001'' then Some (1/10000) else if t = ''0.1'' then Some (1/10)
          else if t = ''0.05'' then Some (1/20) else map_option of_nat (unsigned_digits t)),
       dec_show = (\<lambda>_. ''''), dec_plain = (\<lambda>q. show_nat (nat (floor q))), dec_div = (/),
       dec_round = (\<lambda>_ q. q), pg_numeric = (\<lambda>_ t. map_option of_nat (unsigned_digits t)),
       pg_text = (\<lambda>_ q. show_nat (nat (floor q))), event_str = (\<lambda>_. ''event''),
       event_parse = (\<lambda>_. None), hash_order = id \<rparr>"

theorem settled_shortfall_bound_witness:
  "is_fully_paid demo_decimals 99950 100000 (1/20) \<and> (100000::rat) - 99950 \<le> 100000 / 1000"
  using settled_shortfall_bound[of demo_decimals 100000 "1/20" "Some '' 0.05''" "''store''" 99950]
  by (simp add: demo_decimals_def effective_tolerance_def parse_tolerance_percent_def trim_def
      is_whitespace_def MAX_TOLERANCE_PERCENT_def DEFAULT_TOLERANCE_PERCENT_def is_fully_paid_def)



end
