(* ===== verification/Monitor_Events.thy ===== *)
theory Monitor_Events
  imports World "HOL-Library.Sublist"
begin

text \<open>
  The messages between the monitor and the server: \<^verbatim>\<open>evm/src/monitor/events.rs\<close>, and the envelopes of the
  durable outbox of \<^verbatim>\<open>evm/src/monitor/bridge/mod.rs\<close>.
\<close>

section \<open>Commands\<close>

record WatchAddressCommand =
  wc_chain :: u64
  wc_address :: address
  wc_invoice :: uuid
  wc_expected :: "u256 option"
  wc_token :: "address option"

record UnwatchAddressCommand =
  uc_chain :: u64
  uc_address :: address
  uc_token :: "address option"

datatype MonitorCommand =
  WatchAddress WatchAddressCommand | UnwatchAddress UnwatchAddressCommand | GetStatus "u64 option"

section \<open>Events\<close>

record PaymentDetected =
  pd_chain :: u64
  pd_invoice :: uuid
  pd_address :: address
  pd_amount :: u256
  pd_tx_hash :: b256
  pd_block :: u64
  pd_block_hash :: b256
  pd_log_index :: "u32 option"
  pd_native :: bool
  pd_token :: "address option"
  pd_from :: address
  pd_confirmations :: u64
  pd_required :: u64
  pd_detected_at :: timestamp

record PaymentConfirmed =
  pc_tx_index :: i32
  pc_chain :: u64
  pc_invoice :: uuid
  pc_address :: address
  pc_amount :: u256
  pc_tx_hash :: b256
  pc_block :: u64
  pc_confirmations :: u64
  pc_confirmed_at :: timestamp

record ReorgDetected =
  rd_chain :: u64
  rd_fork_block :: u64
  rd_old_hash :: b256
  rd_new_hash :: b256
  rd_depth :: u64
  rd_affected :: "uuid list"
  rd_survived :: "b256 list"
  rd_verifiable :: bool
  rd_detected_at :: timestamp

record AddressWatched =
  aw_chain :: u64
  aw_address :: address
  aw_invoice :: uuid
  aw_watched_at :: timestamp

record AddressUnwatched =
  au_chain :: u64
  au_address :: address
  au_invoice :: "uuid option"

record WatchedAddressInfo =
  wi_address :: address
  wi_invoice :: uuid
  wi_token :: "address option"

record StatusReport =
  sr_chain :: u64
  sr_watched_count :: nat
  sr_current_block :: u64
  sr_addresses :: "WatchedAddressInfo list"
  sr_reported_at :: timestamp

datatype MonitorEvent =
  EPaymentDetected PaymentDetected
  | EPaymentConfirmed PaymentConfirmed
  | EReorgDetected ReorgDetected
  | EMonitorStarted u64
  | EMonitorStopped u64
  | EMonitorError u64 string
  | EAddressWatched AddressWatched
  | EAddressUnwatched AddressUnwatched
  | EStatusReport StatusReport

primrec event_chain_id :: "MonitorEvent \<Rightarrow> u64" where
  "event_chain_id (EPaymentDetected e) = pd_chain e"
| "event_chain_id (EPaymentConfirmed e) = pc_chain e"
| "event_chain_id (EReorgDetected e) = rd_chain e"
| "event_chain_id (EMonitorStarted c) = c"
| "event_chain_id (EMonitorStopped c) = c"
| "event_chain_id (EMonitorError c _) = c"
| "event_chain_id (EAddressWatched e) = aw_chain e"
| "event_chain_id (EAddressUnwatched e) = au_chain e"
| "event_chain_id (EStatusReport e) = sr_chain e"

primrec event_block_height :: "MonitorEvent \<Rightarrow> u64" where
  "event_block_height (EPaymentDetected e) = pd_block e"
| "event_block_height (EPaymentConfirmed e) = pc_block e"
| "event_block_height (EReorgDetected e) = rd_fork_block e"
| "event_block_height (EMonitorStarted _) = 0"
| "event_block_height (EMonitorStopped _) = 0"
| "event_block_height (EMonitorError _ _) = 0"
| "event_block_height (EAddressWatched _) = 0"
| "event_block_height (EAddressUnwatched _) = 0"
| "event_block_height (EStatusReport e) = sr_current_block e"

definition is_confirmed :: "PaymentDetected \<Rightarrow> bool" where
  "is_confirmed e \<longleftrightarrow> pd_required e \<le> pd_confirmations e"

text \<open>\<^verbatim>\<open>i as i32\<close> reinterprets the 32 bits.\<close>

definition tx_index :: "PaymentDetected \<Rightarrow> i32 option" where
  "tx_index e = (if pd_native e then Some (- 1) else pd_log_index e)"

definition is_significant :: "ReorgDetected \<Rightarrow> u64 \<Rightarrow> bool" where
  "is_significant e threshold \<longleftrightarrow> threshold \<le> rd_depth e"

section \<open>Envelopes\<close>

record EventCursor =
  ec_epoch :: int
  ec_seq :: int
  ec_height :: int

record EventEnvelope =
  en_cursor :: EventCursor
  en_chain :: u64
  en_event :: MonitorEvent

text \<open>The errors of the bridge the consumer tells apart.\<close>

datatype EvmError = EventStreamOutOfRange | OtherEvmError

abbreviation seq_of :: "EventEnvelope \<Rightarrow> int" where
  "seq_of en \<equiv> ec_seq (en_cursor en)"

text \<open>The native sentinel is a log index no realistic block reaches: only index 4294967295 equals it.\<close>

lemma tx_index_native_collision:
  "tx_index e = Some (- 1) \<longleftrightarrow> pd_native e \<or> pd_log_index e = Some (- 1)"
  by (simp add: tx_index_def)

section \<open>The event bridge's contract\<close>

text \<open>
  What the consumer relies on from \<^verbatim>\<open>EventBridge\<close> (\<^verbatim>\<open>evm/src/monitor/bridge/mod.rs\<close>): the published log is
  ordered by sequence number, and a stream opened after a cursor delivers an initial segment of what
  was published after it.  A stream opened without a cursor starts at the oldest retained entry, which
  is the beginning of the log when nothing was trimmed.
\<close>

locale event_bridge =
  fixes valid :: "'b \<Rightarrow> bool"
    and keeps_all :: "'b \<Rightarrow> bool"
    and published :: "'b \<Rightarrow> EventEnvelope list"
    and stream_from :: "'b \<Rightarrow> EventCursor option \<Rightarrow> EvmError + EventEnvelope list"
  assumes published_sorted: "valid b \<Longrightarrow> sorted_wrt (\<lambda>x y. seq_of x < seq_of y) (published b)"
    and resumes_after:
      "valid b \<Longrightarrow> stream_from b (Some c) = Inr es
         \<Longrightarrow> prefix es (filter (\<lambda>en. ec_seq c < seq_of en) (published b))"
    and starts_at_oldest:
      "valid b \<Longrightarrow> keeps_all b \<Longrightarrow> stream_from b None = Inr es \<Longrightarrow> prefix es (published b)"

end
