(* ===== verification/Payment_Handlers.thy ===== *)
theory Payment_Handlers
  imports Lifecycle Settlement Monitor_Events
begin

text \<open>
  The three event handlers that move money in the ledger:
  \<^verbatim>\<open>server/src/services/event_consumer/\<close> \<^verbatim>\<open>payment_handler.rs\<close>, \<^verbatim>\<open>confirmation_handler.rs\<close>, \<^verbatim>\<open>reorg_handler.rs\<close>,
  \<^verbatim>\<open>webhook_dispatch.rs\<close>, and the amount conversions of \<^verbatim>\<open>mod.rs\<close>.  A long handler is a composition of one
  definition per stage, in the order the code has them.
\<close>

section \<open>The consumer\<close>

record EventConsumer =
  ev_cleanup :: "InvoiceCleanupService option"
  ev_webhook :: bool
  ev_ws :: bool
  ev_observers :: nat
  ev_own_store :: "uuid option"
  ev_accept_lineage_break :: bool
  ev_skip_events :: "(u64 \<times> int \<times> int) list"

datatype EventConsumerError = EDatabase RepositoryError | EInvalidData

type_synonym 'a handler = "(EventConsumerError, world, 'a) prog"

definition repo :: "'a repo \<Rightarrow> 'a handler" where
  "repo m = mapErrP EDatabase m"

section \<open>Amounts\<close>

definition compute_decimal_divisor :: "u8 \<Rightarrow> rat" where
  "compute_decimal_divisor decimals = 10 ^ unat decimals"

definition format_amount :: "env \<Rightarrow> rat \<Rightarrow> string" where
  "format_amount E v = dec_plain E (dec_round E 18 v)"

text \<open>\<^verbatim>\<open>Err\<close> is \<^term>\<open>None\<close>; its text is only logged.\<close>

definition convert_payment_to_invoice_currency :: "env \<Rightarrow> string \<Rightarrow> string \<Rightarrow> u8 \<Rightarrow> string option" where
  "convert_payment_to_invoice_currency E raw_amount rate_str decimals =
     (case dec_parse E raw_amount of
        None \<Rightarrow> None
      | Some raw \<Rightarrow>
         (case dec_parse E rate_str of
            None \<Rightarrow> None
          | Some rate \<Rightarrow>
             if rate = 0 then None
             else Some (format_amount E
                    (dec_div E (dec_div E raw (compute_decimal_divisor decimals)) rate))))"

definition convert_smallest_to_human :: "env \<Rightarrow> string \<Rightarrow> u8 \<Rightarrow> string option" where
  "convert_smallest_to_human E raw_amount decimals =
     (case dec_parse E raw_amount of
        None \<Rightarrow> None
      | Some raw \<Rightarrow> Some (format_amount E (dec_div E raw (compute_decimal_divisor decimals))))"

section \<open>A payment is detected\<close>

definition asset_symbol_for :: "string option \<Rightarrow> string" where
  "asset_symbol_for symbol =
     (case symbol of Some t \<Rightarrow> if trim t \<noteq> [] then t else ''ERC20'' | None \<Rightarrow> ''ERC20'')"

definition resolve_asset :: "env \<Rightarrow> PaymentDetected \<Rightarrow> (AssetType \<times> string \<times> string option) handler" where
  "resolve_asset E ev =
     (if pd_native ev then
        okP (Native,
             (case get_any_chain_config (pd_chain ev) of
                Some c \<Rightarrow> cfg_native_symbol c | None \<Rightarrow> ''ETH''), None)
      else
        (case pd_token ev of
           None \<Rightarrow> errP EInvalidData
         | Some addr \<Rightarrow>
             bindP (repo (token_get_by_address (chain_evm E (pd_chain ev)) (fmt_address E addr))) (\<lambda>found.
               okP (ERC20, asset_symbol_for (Option.bind found tok_symbol), Some (fmt_address E addr)))))"

definition late_option_matches :: "string \<Rightarrow> chain_ref \<Rightarrow> string option \<Rightarrow> PaymentOptionData \<Rightarrow> bool" where
  "late_option_matches a c tok po \<longleftrightarrow>
     eq_ignore_ascii_case (opt_address po) a \<and> opt_chain po = c
     \<and> map_option to_lowercase (opt_token po) = map_option to_lowercase tok"

definition resolve_option :: "env \<Rightarrow> PaymentDetected \<Rightarrow> string option \<Rightarrow> uuid option handler" where
  "resolve_option E ev tok =
     (let a = fmt_address E (pd_address ev); c = chain_evm E (pd_chain ev) in
      bindP (repo (get_payment_option_id a c tok)) (\<lambda>found.
      case found of
        Some i \<Rightarrow> okP (Some i)
      | None \<Rightarrow>
          bindP (repo (option_get_for_invoice E (fmt_uuid E (pd_invoice ev)))) (\<lambda>pos.
            okP (map_option opt_id (find (late_option_matches a c tok) pos)))))"

definition credit_of ::
    "env \<Rightarrow> PaymentDetected \<Rightarrow> PaymentOptionData \<Rightarrow> timestamp
       \<Rightarrow> string option \<times> string option \<times> timestamp option" where
  "credit_of E ev po t =
     (case opt_rate po of
        Some rate_str \<Rightarrow>
          (case convert_payment_to_invoice_currency E (fmt_u256 E (pd_amount ev)) rate_str (opt_decimals po) of
             Some converted \<Rightarrow> (Some converted, Some rate_str, Some t)
           | None \<Rightarrow> (None, None, None))
      | None \<Rightarrow>
          (case convert_smallest_to_human E (fmt_u256 E (pd_amount ev)) (opt_decimals po) of
             Some human \<Rightarrow> (Some human, None, None)
           | None \<Rightarrow> (None, None, None)))"

definition resolve_credit ::
    "env \<Rightarrow> PaymentDetected \<Rightarrow> uuid option \<Rightarrow> (string option \<times> string option \<times> timestamp option) handler" where
  "resolve_credit E ev oid =
     (case oid of
        None \<Rightarrow> okP (None, None, None)
      | Some i \<Rightarrow>
          bindP (repo (option_get E i)) (\<lambda>found.
            case found of
              None \<Rightarrow> okP (None, None, None)
            | Some po \<Rightarrow> bindP (getP now) (\<lambda>t. okP (credit_of E ev po t))))"

definition detected_payment ::
    "env \<Rightarrow> PaymentDetected \<Rightarrow> AssetType \<times> string \<times> string option \<Rightarrow> uuid option
       \<Rightarrow> string option \<times> string option \<times> timestamp option \<Rightarrow> uuid \<Rightarrow> PaymentData" where
  "detected_payment E ev asset oid credit i =
     (case asset of (kind, symbol, tok) \<Rightarrow> case credit of (credited, rate, rate_at) \<Rightarrow>
       \<lparr> pay_id = i, pay_invoice = fmt_uuid E (pd_invoice ev), pay_option = oid,
         pay_chain = chain_evm E (pd_chain ev), pay_asset = kind, pay_amount = fmt_u256 E (pd_amount ev),
         pay_symbol = symbol, pay_token = tok, pay_tx_hash = fmt_b256 E (pd_tx_hash ev),
         pay_block = Some (pd_block ev), pay_detected_at = pd_detected_at ev, pay_confirmed_at = None,
         pay_from = Some (fmt_address E (pd_from ev)), pay_reorged = False, pay_extra = None,
         pay_credited = credited, pay_rate = rate, pay_rate_at = rate_at \<rparr>)"

definition handle_payment_detected :: "env \<Rightarrow> EventConsumer \<Rightarrow> PaymentDetected \<Rightarrow> unit handler" where
  "handle_payment_detected E C ev =
     bindP (resolve_asset E ev) (\<lambda>asset.
     bindP (resolve_option E ev (snd (snd asset))) (\<lambda>oid.
     bindP (resolve_credit E ev oid) (\<lambda>credit.
     bindP new_v4 (\<lambda>i.
     let payment = detected_payment E ev asset oid credit i in
     case tx_index ev of
       None \<Rightarrow> errP EInvalidData
     | Some ti \<Rightarrow>
         thenP (repo (upsert_with_tx_index_and_obligation E payment ti (event_str E EvPaymentDetected)))
           (if ev_ws C
            then send_for_invoice E (pay_invoice payment)
                   (PaymentUpdate (pay_id payment) (pay_invoice payment) ''detected'' (pay_credited payment))
            else okP ())))))"

section \<open>A payment is confirmed\<close>

definition queue_payload :: "env \<Rightarrow> EventConsumer \<Rightarrow> uuid \<Rightarrow> WebhookPayload \<Rightarrow> QueueOutcome handler" where
  "queue_payload E C st payload =
     (if ev_webhook C then queue_for_store E st payload else okP Skipped)"

definition queue_webhook ::
    "env \<Rightarrow> EventConsumer \<Rightarrow> WebhookEventType \<Rightarrow> InvoiceData \<Rightarrow> PaymentData option \<Rightarrow> QueueOutcome handler" where
  "queue_webhook E C ev d p =
     queue_payload E C (inv_store d)
       (case p of None \<Rightarrow> Invoice_event ev d | Some q \<Rightarrow> Payment_event ev d q)"

definition record_allowance_if_short ::
    "env \<Rightarrow> string \<Rightarrow> rat \<Rightarrow> rat \<Rightarrow> rat \<Rightarrow> string \<Rightarrow> unit handler" where
  "record_allowance_if_short E i received expected tolerance src =
     (if expected \<le> received then okP ()
      else repo (record_settlement_allowance E i (dec_show E (expected - received))
                   (dec_show E tolerance) src))"

definition extract_customer_email :: "InvoiceData \<Rightarrow> string option" where
  "extract_customer_email d =
     (case inv_email d of
        Some e \<Rightarrow> Some e
      | None \<Rightarrow>
         (case inv_metadata d of
            None \<Rightarrow> None
          | Some m \<Rightarrow>
             Option.bind (case json_get m ''customer_email'' of
                            Some v \<Rightarrow> Some v | None \<Rightarrow> json_get m ''buyer_email'') json_as_str))"

definition receipts_disabled_for_store :: "uuid \<Rightarrow> bool handler" where
  "receipts_disabled_for_store st =
     bindP (tryP (get_store_settings st)) (\<lambda>r.
       okP (case r of
              Inr (Some prefs) \<Rightarrow> json_get prefs ''customer_receipts_enabled'' = Some (JBool False)
            | _ \<Rightarrow> False))"

definition send_customer_receipt :: "env \<Rightarrow> InvoiceData \<Rightarrow> PaymentData \<Rightarrow> u64 \<Rightarrow> unit handler" where
  "send_customer_receipt E d p chain =
     (case extract_customer_email d of
        None \<Rightarrow> okP ()
      | Some email \<Rightarrow>
          bindP (receipts_disabled_for_store (inv_store d)) (\<lambda>off.
          if off then okP ()
          else
            bindP (tryP (get_store_name (inv_store d))) (\<lambda>r.
            bindP (getP now) (\<lambda>t.
              emit (Receipt_sent email
                \<lparr> rec_invoice = inv_id d, rec_amount = inv_amount d, rec_currency = inv_currency d,
                  rec_tx_hash = pay_tx_hash p,
                  rec_explorer_url = (case get_any_chain_config chain of
                     Some cfg \<Rightarrow> tx_explorer_url cfg (pay_tx_hash p) | None \<Rightarrow> pay_tx_hash p),
                  rec_paid_at = (case pay_confirmed_at p of Some c \<Rightarrow> c | None \<Rightarrow> t),
                  rec_merchant = (case r of Inr (Some n) \<Rightarrow> n | _ \<Rightarrow> ''Merchant'') \<rparr>)))))"

definition notify_own_store_settled :: "env \<Rightarrow> EventConsumer \<Rightarrow> string \<Rightarrow> timestamp \<Rightarrow> unit handler" where
  "notify_own_store_settled E C i t =
     (if ev_observers C = 0 then okP ()
      else bindP (tryP (invoice_get E i)) (\<lambda>r.
        case r of
          Inr (Some d) \<Rightarrow> notify_own_store_payment (ev_observers C) (ev_own_store C) d t
        | _ \<Rightarrow> okP ()))"

text \<open>What follows the status write, in both settling branches: the live update, the webhook (when
  the invoice can be read back), and for a payment in time the customer's receipt.\<close>

definition announce_settled ::
    "env \<Rightarrow> EventConsumer \<Rightarrow> PaymentConfirmed \<Rightarrow> InvoiceData \<Rightarrow> PaymentData \<Rightarrow> InvoiceStatus \<Rightarrow> WebhookEventType
       \<Rightarrow> unit handler" where
  "announce_settled E C ev d p st wev =
     thenP (if ev_ws C
            then ws_send (inv_store d) (InvoiceStatusUpdate (fmt_uuid E (pc_invoice ev)) st) else okP ())
     (bindP (tryP (invoice_get E (fmt_uuid E (pc_invoice ev)))) (\<lambda>r.
      thenP (case r of
               Inr (Some d') \<Rightarrow> bindP (queue_webhook E C wev d' (Some p)) (\<lambda>_. okP ())
             | _ \<Rightarrow> okP ())
      (thenP (if st = Paid then send_customer_receipt E d p (pc_chain ev) else okP ())
      (notify_own_store_settled E C (fmt_uuid E (pc_invoice ev)) (pc_confirmed_at ev)))))"

definition settle ::
    "env \<Rightarrow> EventConsumer \<Rightarrow> PaymentConfirmed \<Rightarrow> InvoiceData \<Rightarrow> PaymentData \<Rightarrow> rat \<Rightarrow> rat \<Rightarrow> rat \<Rightarrow> string
       \<Rightarrow> InvoiceStatus \<Rightarrow> WebhookEventType \<Rightarrow> unit handler" where
  "settle E C ev d p received expected tolerance src st wev =
     (let i = fmt_uuid E (pc_invoice ev) in
      thenP (record_allowance_if_short E i received expected tolerance src)
      (thenP (repo (update_status i st))
      (announce_settled E C ev d p st wev)))"

text \<open>The amounts and the tolerance the decision is made on.\<close>

definition settlement_inputs :: "env \<Rightarrow> InvoiceData \<Rightarrow> (rat \<times> rat \<times> rat \<times> string) handler" where
  "settlement_inputs E d =
     (case dec_parse E (inv_received d) of
        None \<Rightarrow> errP EInvalidData
      | Some received \<Rightarrow>
         (case dec_parse E (inv_amount d) of
            None \<Rightarrow> errP EInvalidData
          | Some expected \<Rightarrow>
              bindP (repo (get_settlement_tolerance E (inv_store d))) (\<lambda>setting.
                case effective_tolerance E setting of
                  Inl _ \<Rightarrow> errP EInvalidData
                | Inr (tolerance, src) \<Rightarrow> okP (received, expected, tolerance, src))))"

definition decide_settlement ::
    "env \<Rightarrow> EventConsumer \<Rightarrow> PaymentConfirmed \<Rightarrow> InvoiceData \<Rightarrow> PaymentData \<Rightarrow> rat \<times> rat \<times> rat \<times> string
       \<Rightarrow> unit handler" where
  "decide_settlement E C ev d p inputs =
     (case inputs of (received, expected, tolerance, src) \<Rightarrow>
      let paid = is_fully_paid E received expected tolerance in
      case inv_status d of
        Processing \<Rightarrow>
          if paid then settle E C ev d p received expected tolerance src Paid EvPaymentConfirmed else okP ()
      | PartiallyPaid \<Rightarrow>
          if paid then settle E C ev d p received expected tolerance src Paid EvPaymentConfirmed else okP ()
      | Expired \<Rightarrow>
          if paid then settle E C ev d p received expected tolerance src LatePaid EvLatePaid else okP ()
      | _ \<Rightarrow> okP ())"

definition handle_payment_confirmed :: "env \<Rightarrow> EventConsumer \<Rightarrow> PaymentConfirmed \<Rightarrow> unit handler" where
  "handle_payment_confirmed E C ev =
     (let i = fmt_uuid E (pc_invoice ev); h = fmt_b256 E (pc_tx_hash ev) in
      bindP (repo (get_by_tx_index E i h (pc_tx_index ev))) (\<lambda>found.
      case found of
        None \<Rightarrow> okP ()
      | Some p \<Rightarrow>
          thenP (repo (mark_confirmed (pay_id p) (pc_confirmed_at ev)))
          (bindP (repo (invoice_get E i)) (\<lambda>inv'.
           case inv' of
             None \<Rightarrow> errP EInvalidData
           | Some d \<Rightarrow> bindP (settlement_inputs E d) (decide_settlement E C ev d p)))))"

section \<open>The chain reorganises\<close>

definition tx_hash_eq :: "env \<Rightarrow> b256 \<Rightarrow> string \<Rightarrow> bool" where
  "tx_hash_eq E h stored = (parse_b256 E stored = Some h)"

definition survived :: "env \<Rightarrow> ReorgDetected \<Rightarrow> PaymentData \<Rightarrow> bool" where
  "survived E ev p = list_ex (\<lambda>h. tx_hash_eq E h (pay_tx_hash p)) (rd_survived ev)"

definition closed_status :: "InvoiceStatus \<Rightarrow> bool" where
  "closed_status st \<longleftrightarrow> st = Refunded \<or> st = Cancelled \<or> st = Expired \<or> st = LatePaid"

definition apply_reorg_status :: "env \<Rightarrow> string \<Rightarrow> InvoiceStatus \<Rightarrow> InvoiceStatus handler" where
  "apply_reorg_status E i computed =
     bindP (repo (invoice_get E i)) (\<lambda>found.
     case found of
       None \<Rightarrow> errP EInvalidData
     | Some current \<Rightarrow>
         if closed_status (inv_status current) then okP (inv_status current)
         else thenP (repo (update_status i computed)) (okP computed))"

definition notify_reorg :: "env \<Rightarrow> EventConsumer \<Rightarrow> string \<Rightarrow> PaymentData list \<Rightarrow> unit handler" where
  "notify_reorg E C i retracted =
     (if retracted = [] \<or> \<not> ev_webhook C then okP ()
      else bindP (tryP (invoice_get E i)) (\<lambda>r.
        case r of
          Inr (Some d) \<Rightarrow> bindP (queue_payload E C (inv_store d) (Payment_reorged d retracted)) (\<lambda>_. okP ())
        | _ \<Rightarrow> okP ()))"

definition retracted_copy :: "PaymentData \<Rightarrow> PaymentData" where
  "retracted_copy p = p\<lparr>pay_reorged := True, pay_confirmed_at := None\<rparr>"

definition retract_invoice :: "env \<Rightarrow> EventConsumer \<Rightarrow> PaymentData list \<Rightarrow> string \<Rightarrow> unit handler" where
  "retract_invoice E C doomed i =
     (let to_retract = filter (\<lambda>p. pay_invoice p = i) doomed in
      thenP (iterP (\<lambda>p. repo (mark_payment_reorged (pay_id p))) to_retract)
      (bindP (repo (has_valid_payments i)) (\<lambda>has_valid.
       bindP (apply_reorg_status E i (if has_valid then Processing else Pending)) (\<lambda>st.
       thenP (if ev_ws C then send_for_invoice E i (InvoiceStatusUpdate i st) else okP ())
         (notify_reorg E C i (map retracted_copy to_retract))))))"

definition handle_reorg_detected :: "env \<Rightarrow> EventConsumer \<Rightarrow> ReorgDetected \<Rightarrow> unit handler" where
  "handle_reorg_detected E C ev =
     (if \<not> rd_verifiable ev then okP ()
      else
        bindP (repo (reorg_candidates E (chain_evm E (rd_chain ev)) (rd_fork_block ev))) (\<lambda>candidates.
        let doomed = filter (\<lambda>p. \<not> survived E ev p) candidates in
        iterP (retract_invoice E C doomed) (hash_order E (remdups (map pay_invoice doomed)))))"

end
