(* ===== verification/Event_Consumer.thy ===== *)
theory Event_Consumer
  imports Payment_Handlers "HOL-Library.AList"
begin

text \<open>
  The event consumer's loop: \<^verbatim>\<open>server/src/services/event_consumer/mod.rs\<close>.  Envelopes are applied in the
  order of the outbox; after each one the resume cursor of its chain is committed; the first failure
  stops the consumer.  In production both hooks are absent, so \<^verbatim>\<open>halt\<close> and \<^verbatim>\<open>fatal\<close> end the process: they
  are the error values of these programs, and a restart runs \<^verbatim>\<open>run\<close> again on the world left behind.
\<close>

definition ADAPTER_ID :: string where
  "ADAPTER_ID = ''evmmonitor''"

datatype consumer_stop = Halted u64 int | Fatal string

type_synonym cursor_map = "(u64 \<times> ChainCursor) list"

section \<open>One event\<close>

definition trigger_expiration_check :: "env \<Rightarrow> EventConsumer \<Rightarrow> u64 \<Rightarrow> unit handler" where
  "trigger_expiration_check E C c =
     (case ev_cleanup C of
        None \<Rightarrow> okP ()
      | Some svc \<Rightarrow> bindP (tryP (check_chain E svc c)) (\<lambda>_. okP ()))"

primrec handle_event :: "env \<Rightarrow> EventConsumer \<Rightarrow> MonitorEvent \<Rightarrow> unit handler" where
  "handle_event E C (EPaymentDetected p) = handle_payment_detected E C p"
| "handle_event E C (EPaymentConfirmed p) = handle_payment_confirmed E C p"
| "handle_event E C (EReorgDetected r) = handle_reorg_detected E C r"
| "handle_event E C (EMonitorStarted c) = okP ()"
| "handle_event E C (EMonitorStopped c) = okP ()"
| "handle_event E C (EMonitorError c e) = okP ()"
| "handle_event E C (EAddressWatched i) = okP ()"
| "handle_event E C (EAddressUnwatched i) = okP ()"
| "handle_event E C (EStatusReport r) = trigger_expiration_check E C (sr_chain r)"

definition apply_or_halt :: "env \<Rightarrow> EventConsumer \<Rightarrow> EventEnvelope \<Rightarrow> (consumer_stop, world, unit) prog" where
  "apply_or_halt E C en =
     bindP (tryP (handle_event E C (en_event en))) (\<lambda>r.
       case r of
         Inr _ \<Rightarrow> okP ()
       | Inl _ \<Rightarrow> errP (Halted (en_chain en) (ec_seq (en_cursor en))))"

definition skipped :: "EventConsumer \<Rightarrow> EventEnvelope \<Rightarrow> bool" where
  "skipped C en \<longleftrightarrow>
     (en_chain en, ec_epoch (en_cursor en), ec_seq (en_cursor en)) \<in> set (ev_skip_events C)"

definition committed_cursor :: "int \<Rightarrow> EventEnvelope \<Rightarrow> ChainCursor" where
  "committed_cursor bridge_epoch en =
     \<lparr> cur_epoch = bridge_epoch, cur_seq = ec_seq (en_cursor en), cur_height = ec_height (en_cursor en) \<rparr>"

definition apply_envelope ::
    "env \<Rightarrow> EventConsumer \<Rightarrow> int \<Rightarrow> EventEnvelope \<Rightarrow> cursor_map \<Rightarrow> (consumer_stop, world, cursor_map) prog" where
  "apply_envelope E C bridge_epoch en cursors =
     thenP (if skipped C en then okP () else apply_or_halt E C en)
     (bindP (tryP (commit_chain_cursor ADAPTER_ID (en_chain en) (committed_cursor bridge_epoch en))) (\<lambda>r.
       case r of
         Inl _ \<Rightarrow> errP (Halted (en_chain en) (ec_seq (en_cursor en)))
       | Inr _ \<Rightarrow> okP (AList.update (en_chain en) (committed_cursor bridge_epoch en) cursors)))"

text \<open>\<^verbatim>\<open>while let Some(envelope) = event_stream.next().await\<close>\<close>

primrec apply_all ::
    "env \<Rightarrow> EventConsumer \<Rightarrow> int \<Rightarrow> EventEnvelope list \<Rightarrow> cursor_map \<Rightarrow> (consumer_stop, world, cursor_map) prog" where
  "apply_all E C ep [] cursors = okP cursors"
| "apply_all E C ep (en # es) cursors = bindP (apply_envelope E C ep en cursors) (apply_all E C ep es)"

section \<open>Resuming\<close>

primrec break_each :: "env \<Rightarrow> u64 list \<Rightarrow> cursor_map \<Rightarrow> (consumer_stop, world, bool \<times> cursor_map) prog" where
  "break_each E [] cursors = okP (True, cursors)"
| "break_each E (c # cs) cursors =
     bindP (tryP (reset_chain_watch_notifications E c)) (\<lambda>r.
     case r of
       Inl _ \<Rightarrow> bindP (break_each E cs cursors) (\<lambda>(_, k). okP (False, k))
     | Inr _ \<Rightarrow>
         bindP (tryP (delete_chain_cursor ADAPTER_ID c)) (\<lambda>q.
         case q of
           Inl _ \<Rightarrow> bindP (break_each E cs cursors) (\<lambda>(_, k). okP (False, k))
         | Inr _ \<Rightarrow> break_each E cs (filter (\<lambda>(k, _). k \<noteq> c) cursors)))"

definition break_lineage :: "env \<Rightarrow> cursor_map \<Rightarrow> u64 list \<Rightarrow> (consumer_stop, world, cursor_map) prog" where
  "break_lineage E cursors chain_ids =
     bindP (break_each E chain_ids cursors) (\<lambda>(all_rearmed, k).
       if all_rearmed then okP k
       else errP (Fatal ''failed to re-arm watch_retry or drop the stale cursor after an event outbox lineage break''))"

definition max_seq :: "cursor_map \<Rightarrow> int option" where
  "max_seq cursors =
     (case map (\<lambda>(_, k). cur_seq k) cursors of [] \<Rightarrow> None | q # qs \<Rightarrow> Some (fold max qs q))"

definition resume_cursor :: "int \<Rightarrow> cursor_map \<Rightarrow> EventCursor option" where
  "resume_cursor bridge_epoch cursors =
     map_option (\<lambda>q. \<lparr> ec_epoch = bridge_epoch, ec_seq = q, ec_height = 0 \<rparr>) (max_seq cursors)"

definition reconcile_cursors ::
    "env \<Rightarrow> EventConsumer \<Rightarrow> cursor_map \<Rightarrow> int
       \<Rightarrow> (consumer_stop, world, EventCursor option \<times> cursor_map) prog" where
  "reconcile_cursors E C cursors bridge_epoch =
     (if cursors = [] then okP (None, cursors)
      else
        (let mismatched = map fst (filter (\<lambda>(_, k). cur_epoch k \<noteq> bridge_epoch) cursors) in
         if mismatched \<noteq> [] \<and> \<not> ev_accept_lineage_break C
         then errP (Fatal ''event outbox lineage break not accepted'')
         else
           bindP (if mismatched \<noteq> [] then break_lineage E cursors mismatched else okP cursors) (\<lambda>k.
             okP (resume_cursor bridge_epoch k, k))))"

section \<open>The whole task\<close>

text \<open>
  \<^verbatim>\<open>run\<close>, given what the bridge answers: its epoch, and for a resume position the entries the stream
  delivers before it ends.  It never returns normally.
\<close>

definition run ::
    "env \<Rightarrow> EventConsumer \<Rightarrow> EvmError + int \<Rightarrow> (EventCursor option \<Rightarrow> EvmError + EventEnvelope list)
       \<Rightarrow> (consumer_stop, world, unit) prog" where
  "run E C current_epoch subscribe_from =
     bindP (tryP (chain_cursors ADAPTER_ID)) (\<lambda>r.
     case r of
       Inl _ \<Rightarrow> errP (Fatal ''failed to load chain cursors'')
     | Inr cursors \<Rightarrow>
        (case current_epoch of
           Inl _ \<Rightarrow> errP (Fatal ''failed to read the epoch of the event outbox'')
         | Inr bridge_epoch \<Rightarrow>
             bindP (reconcile_cursors E C cursors bridge_epoch) (\<lambda>(resume_from, k).
             case subscribe_from resume_from of
               Inl EventStreamOutOfRange \<Rightarrow> errP (Fatal ''event resume position is out of range'')
             | Inl OtherEvmError \<Rightarrow> errP (Fatal ''failed to subscribe to events'')
             | Inr es \<Rightarrow>
                 bindP (apply_all E C bridge_epoch es k) (\<lambda>_.
                   errP (Fatal ''event stream ended unexpectedly'')))))"

section \<open>The operator's skip list\<close>

definition parse_skip_part :: "string \<Rightarrow> string + u64 \<times> int \<times> int" where
  "parse_skip_part part =
     (case split_on CHR '':'' part of
        [c, e, q] \<Rightarrow>
          (case parse_u64 (trim c) of
             None \<Rightarrow> Inl (''bad chain_id in '' @ part)
           | Some c' \<Rightarrow>
              (case parse_i64 (trim e) of
                 None \<Rightarrow> Inl (''bad epoch in '' @ part)
               | Some e' \<Rightarrow>
                  (case parse_i64 (trim q) of
                     None \<Rightarrow> Inl (''bad seq in '' @ part)
                   | Some q' \<Rightarrow> Inr (c', e', q'))))
      | _ \<Rightarrow> Inl (''expected chain_id:epoch:seq, got '' @ part))"

definition parse_skip_events :: "string \<Rightarrow> string + (u64 \<times> int \<times> int) list" where
  "parse_skip_events raw =
     collect_results (map parse_skip_part (filter (\<lambda>p. p \<noteq> []) (map trim (split_on CHR '','' raw))))"

section \<open>The ledger invariant through the whole consumer\<close>

lemma kept_repo [steps_intros]: "steps (kept ledger_inv) m \<Longrightarrow> steps (kept ledger_inv) (repo m)"
  unfolding repo_def by (rule ledger.steps_mapErr)

lemmas notify_ledger [steps_intros] =
  tables_readers(2-4)[THEN kept_of_same_tables] tables_notify[THEN kept_of_same_tables]
  tables_queue_for_store[THEN kept_of_same_tables] tables_sink[THEN kept_of_same_tables]

lemma ledger_detected [steps_intros]: "steps (kept ledger_inv) (handle_payment_detected E C ev)"
  unfolding handle_payment_detected_def resolve_asset_def resolve_option_def resolve_credit_def Let_def
  by (intro steps_intros)

lemma ledger_announce [steps_intros]: "steps (kept ledger_inv) (announce_settled E C ev d p st wev)"
  unfolding announce_settled_def queue_webhook_def queue_payload_def send_customer_receipt_def
    receipts_disabled_for_store_def notify_own_store_settled_def
  by (intro steps_intros)

lemma ledger_settlement [steps_intros]:
  "steps (kept ledger_inv) (settlement_inputs E d)"
  "steps (kept ledger_inv) (decide_settlement E C ev d p inputs)"
  unfolding settlement_inputs_def decide_settlement_def settle_def record_allowance_if_short_def Let_def
  by (intro steps_intros)+

lemma ledger_confirmed [steps_intros]: "steps (kept ledger_inv) (handle_payment_confirmed E C ev)"
  unfolding handle_payment_confirmed_def Let_def by (intro steps_intros)

lemma ledger_reorg [steps_intros]: "steps (kept ledger_inv) (handle_reorg_detected E C ev)"
  unfolding handle_reorg_detected_def retract_invoice_def apply_reorg_status_def notify_reorg_def
    queue_payload_def Let_def
  by (intro steps_intros)

lemma ledger_check_expired [steps_intros]: "steps (kept ledger_inv) (check_expired E svc)"
  unfolding check_expired_def expire_one_def queue_expiration_webhook_def by (intro steps_intros)

lemma ledger_handle_event [steps_intros]: "steps (kept ledger_inv) (handle_event E C e)"
  by (cases e) (simp_all, (intro steps_intros)+,
      unfold trigger_expiration_check_def check_chain_def, (intro steps_intros)+)

lemma ledger_apply_envelope [steps_intros]: "steps (kept ledger_inv) (apply_envelope E C ep en k)"
  unfolding apply_envelope_def apply_or_halt_def by (intro steps_intros)

lemma ledger_apply_all [steps_intros]: "steps (kept ledger_inv) (apply_all E C ep es k)"
  by (induction es arbitrary: k) (auto intro!: steps_intros)

lemma ledger_break_each [steps_intros]: "steps (kept ledger_inv) (break_each E cs k)"
proof (induction cs arbitrary: k)
  case (Cons c cs)
  show ?case unfolding break_each.simps by (intro steps_intros Cons)
qed (simp add: ledger.steps_ok)

lemma ledger_reconcile [steps_intros]: "steps (kept ledger_inv) (reconcile_cursors E C k ep)"
  unfolding reconcile_cursors_def break_lineage_def Let_def by (intro steps_intros)

lemma ledger_run: "steps (kept ledger_inv) (run E C ep sub)"
  unfolding run_def
  by (intro steps_intros) (auto split: EvmError.split intro!: steps_intros)

end
