(* ===== verification/Memory_Bridge.thy ===== *)
theory Memory_Bridge
  imports Monitor_Events
begin

text \<open>
  The durable event outbox: \<^verbatim>\<open>evm/src/monitor/bridge/memory.rs\<close>.  Its contract is an append-only log: an
  event gets the next sequence number, and a subscriber that resumes after a cursor receives the log
  from there, in order and without a gap, or sees its stream end.  Retention may drop old entries; a
  reader that needs one of them is refused, or its stream ends, never silently moved forward.
\<close>

section \<open>The outbox\<close>

record Outbox =
  ox_epoch :: int
  ox_entries :: "EventEnvelope list"
  ox_next_seq :: int
  ox_max_retained :: "nat option"

definition outbox_new :: "int \<Rightarrow> nat option \<Rightarrow> Outbox" where
  "outbox_new random_epoch max_retained =
     \<lparr> ox_epoch = random_epoch, ox_entries = [], ox_next_seq = 0, ox_max_retained = max_retained \<rparr>"

text \<open>\<^verbatim>\<open>while outbox.entries.len() > max { pop_front }\<close>\<close>

fun pop_front_while :: "nat \<Rightarrow> 'a list \<Rightarrow> 'a list" where
  "pop_front_while m [] = []"
| "pop_front_while m (x # xs) = (if m < length (x # xs) then pop_front_while m xs else x # xs)"

definition envelope :: "Outbox \<Rightarrow> MonitorEvent \<Rightarrow> EventEnvelope" where
  "envelope ox ev =
     \<lparr> en_cursor = \<lparr> ec_epoch = ox_epoch ox, ec_seq = ox_next_seq ox,
                     ec_height = sint (event_block_height ev) \<rparr>,
       en_chain = event_chain_id ev, en_event = ev \<rparr>"

definition publish :: "Outbox \<Rightarrow> MonitorEvent \<Rightarrow> Outbox" where
  "publish ox ev =
     (let es = ox_entries ox @ [envelope ox ev] in
      ox\<lparr>ox_next_seq := ox_next_seq ox + 1,
         ox_entries := (case ox_max_retained ox of None \<Rightarrow> es | Some m \<Rightarrow> pop_front_while m es)\<rparr>)"

definition bump_epoch :: "Outbox \<Rightarrow> int \<times> Outbox" where
  "bump_epoch ox = (ox_epoch ox + 1, ox\<lparr>ox_epoch := ox_epoch ox + 1\<rparr>)"

definition current_epoch :: "Outbox \<Rightarrow> int" where
  "current_epoch ox = ox_epoch ox"

section \<open>Subscribing\<close>

record Subscriber =
  su_next :: int
  su_expected :: "int option"

definition oldest_retained :: "Outbox \<Rightarrow> int" where
  "oldest_retained ox = ox_next_seq ox - int (length (ox_entries ox))"

definition subscribe_from :: "Outbox \<Rightarrow> EventCursor option \<Rightarrow> EvmError + Subscriber" where
  "subscribe_from ox from' =
     (case from' of
        None \<Rightarrow> Inr \<lparr> su_next = 0, su_expected = None \<rparr>
      | Some c \<Rightarrow>
          if ec_seq c < oldest_retained ox - 1 \<or> ox_next_seq ox \<le> ec_seq c
          then Inl EventStreamOutOfRange
          else Inr \<lparr> su_next = ec_seq c + 1, su_expected = Some (ec_seq c + 1) \<rparr>)"

text \<open>One turn of the stream's loop: \<^term>\<open>None\<close> when the stream ends, an empty batch when it waits.\<close>

definition poll :: "Outbox \<Rightarrow> Subscriber \<Rightarrow> (EventEnvelope list \<times> Subscriber) option" where
  "poll ox su =
     (if (case su_expected su of Some e \<Rightarrow> e < oldest_retained ox | None \<Rightarrow> False) then None
      else
        (let batch = drop (nat (max 0 (su_next su - oldest_retained ox))) (ox_entries ox) in
         Some (batch,
           if batch = [] then su
           else \<lparr> su_next = seq_of (last batch) + 1, su_expected = Some (seq_of (last batch) + 1) \<rparr>)))"

section \<open>Sessions\<close>

text \<open>
  A session interleaves publications with turns of one subscriber's stream.  \<^verbatim>\<open>ss_log\<close> is the history of
  everything published, \<^verbatim>\<open>ss_got\<close> what the subscriber has been given; they are what the contract is about.
\<close>

datatype bridge_op = Publish MonitorEvent | Poll | Bump_epoch

record session =
  ss_outbox :: Outbox
  ss_stream :: "Subscriber option"
  ss_log :: "EventEnvelope list"
  ss_got :: "EventEnvelope list"

primrec session_step :: "bridge_op \<Rightarrow> session \<Rightarrow> session" where
  "session_step (Publish ev) ss =
     ss\<lparr>ss_outbox := publish (ss_outbox ss) ev, ss_log := ss_log ss @ [envelope (ss_outbox ss) ev]\<rparr>"
| "session_step Poll ss =
     (case ss_stream ss of
        None \<Rightarrow> ss
      | Some su \<Rightarrow>
         (case poll (ss_outbox ss) su of
            None \<Rightarrow> ss\<lparr>ss_stream := None\<rparr>
          | Some (batch, su') \<Rightarrow> ss\<lparr>ss_stream := Some su', ss_got := ss_got ss @ batch\<rparr>))"
| "session_step Bump_epoch ss = ss\<lparr>ss_outbox := snd (bump_epoch (ss_outbox ss))\<rparr>"

definition session_run :: "bridge_op list \<Rightarrow> session \<Rightarrow> session" where
  "session_run ops ss = fold session_step ops ss"

definition session_open :: "Outbox \<Rightarrow> EventEnvelope list \<Rightarrow> Subscriber \<Rightarrow> session" where
  "session_open ox hist su = \<lparr> ss_outbox = ox, ss_stream = Some su, ss_log = hist, ss_got = [] \<rparr>"

section \<open>The outbox refines an append-only log\<close>

definition outbox_inv :: "Outbox \<Rightarrow> EventEnvelope list \<Rightarrow> bool" where
  "outbox_inv ox hist \<longleftrightarrow>
     ox_next_seq ox = int (length hist)
     \<and> suffix (ox_entries ox) hist
     \<and> (\<forall>i < length hist. seq_of (hist ! i) = int i)"

lemma pop_front_while_drop: "pop_front_while m xs = drop (length xs - m) xs"
  by (induction m xs rule: pop_front_while.induct) (auto simp: Suc_diff_le)

lemma outbox_inv_new: "outbox_inv (outbox_new ep m) []"
  by (simp add: outbox_inv_def outbox_new_def)

lemma outbox_inv_bump: "outbox_inv ox hist \<Longrightarrow> outbox_inv (snd (bump_epoch ox)) hist"
  by (simp add: outbox_inv_def bump_epoch_def)

lemma suffix_as_drop: "suffix xs ys \<Longrightarrow> xs = drop (length ys - length xs) ys"
  by (auto simp: suffix_def)

lemma outbox_inv_publish:
  assumes inv: "outbox_inv ox hist"
  shows "outbox_inv (publish ox ev) (hist @ [envelope ox ev])"
proof -
  let ?es = "ox_entries ox @ [envelope ox ev]"
  have es: "suffix ?es (hist @ [envelope ox ev])"
    using inv by (simp add: outbox_inv_def)
  have "suffix (pop_front_while m ?es) ?es" for m
    unfolding pop_front_while_drop by (rule suffix_drop)
  then have "suffix (ox_entries (publish ox ev)) (hist @ [envelope ox ev])"
    using es by (auto simp: publish_def Let_def split: option.split intro: suffix_order.trans)
  moreover have "ox_next_seq (publish ox ev) = int (length (hist @ [envelope ox ev]))"
    using inv by (simp add: outbox_inv_def publish_def Let_def)
  moreover have "\<forall>i < length (hist @ [envelope ox ev]). seq_of ((hist @ [envelope ox ev]) ! i) = int i"
    using inv by (auto simp: outbox_inv_def nth_append less_Suc_eq envelope_def)
  ultimately show ?thesis unfolding outbox_inv_def by blast
qed

lemma oldest_retained_nonneg: "outbox_inv ox hist \<Longrightarrow> 0 \<le> oldest_retained ox"
  using suffix_length_le by (fastforce simp: outbox_inv_def oldest_retained_def)

lemma entries_from:
  assumes inv: "outbox_inv ox hist" and n: "oldest_retained ox \<le> int n" "int n \<le> ox_next_seq ox"
  shows "drop (nat (max 0 (int n - oldest_retained ox))) (ox_entries ox) = drop n hist"
proof -
  let ?k = "length hist - length (ox_entries ox)"
  have old: "oldest_retained ox = int ?k"
    using inv suffix_length_le[of "ox_entries ox" hist] by (simp add: oldest_retained_def outbox_inv_def)
  with n have "?k \<le> n" by simp
  then have d: "nat (max 0 (int n - oldest_retained ox)) = n - ?k" using old by simp
  have "drop (n - ?k) (ox_entries ox) = drop (n - ?k) (drop ?k hist)"
    using inv suffix_as_drop[of "ox_entries ox" hist] by (simp add: outbox_inv_def)
  also have "\<dots> = drop n hist" using \<open>?k \<le> n\<close> by simp
  finally show ?thesis by (simp only: d)
qed

section \<open>What a subscriber receives\<close>

definition retains_all :: "Outbox \<Rightarrow> bool" where
  "retains_all ox \<longleftrightarrow> ox_max_retained ox = None \<and> oldest_retained ox = 0"

lemma retains_all_ops:
  "retains_all ox \<Longrightarrow> retains_all (publish ox ev)"
  "retains_all ox \<Longrightarrow> retains_all (snd (bump_epoch ox))"
  by (simp_all add: retains_all_def publish_def bump_epoch_def oldest_retained_def Let_def)

definition session_inv :: "nat \<Rightarrow> session \<Rightarrow> bool" where
  "session_inv n ss \<longleftrightarrow>
     outbox_inv (ss_outbox ss) (ss_log ss) \<and> n \<le> length (ss_log ss)
     \<and> prefix (ss_got ss) (drop n (ss_log ss))
     \<and> (\<forall>su. ss_stream ss = Some su \<longrightarrow>
          su_next su = int (n + length (ss_got ss))
          \<and> (su_expected su = Some (int (n + length (ss_got ss)))
              \<or> su_expected su = None \<and> retains_all (ss_outbox ss)))"

lemma prefix_rest: "prefix xs ys \<Longrightarrow> xs @ drop (length xs) ys = ys"
  by (auto simp: prefix_def)

lemma log_after:
  assumes "outbox_inv ox hist" "- 1 \<le> c"
  shows "filter (\<lambda>en. c < seq_of en) hist = drop (nat (c + 1)) hist"
proof -
  have seqs: "\<forall>i < length hist. seq_of (hist ! i) = int i"
    using assms(1) by (simp add: outbox_inv_def)
  have "\<forall>en \<in> set (take (nat (c + 1)) hist). \<not> c < seq_of en"
    using seqs by (auto simp: in_set_conv_nth)
  moreover have "\<forall>en \<in> set (drop (nat (c + 1)) hist). c < seq_of en"
    using seqs assms(2) by (auto simp: in_set_conv_nth)
  moreover have "filter (\<lambda>en. c < seq_of en) hist =
      filter (\<lambda>en. c < seq_of en) (take (nat (c + 1)) hist) @ filter (\<lambda>en. c < seq_of en) (drop (nat (c + 1)) hist)"
    by (metis append_take_drop_id filter_append)
  ultimately show ?thesis by simp
qed

lemma poll_step:
  assumes inv: "session_inv n ss" and su: "ss_stream ss = Some su"
  shows "session_inv n (session_step Poll ss)
      \<and> (poll (ss_outbox ss) su \<noteq> None \<longrightarrow> ss_got (session_step Poll ss) = drop n (ss_log ss))"
proof (cases "poll (ss_outbox ss) su")
  case None
  then show ?thesis using inv su by (simp add: session_inv_def)
next
  case (Some r)
  let ?m = "n + length (ss_got ss)" and ?hist = "ss_log ss" and ?ox = "ss_outbox ss"
  from inv su have ox: "outbox_inv ?ox ?hist" and n: "n \<le> length ?hist"
    and pre: "prefix (ss_got ss) (drop n ?hist)" and nxt: "su_next su = int ?m"
    and st: "su_expected su = Some (int ?m) \<or> su_expected su = None \<and> retains_all ?ox"
    by (auto simp: session_inv_def)
  from pre n have m: "?m \<le> length ?hist" using prefix_length_le by fastforce
  have all: "ss_got ss @ drop ?m ?hist = drop n ?hist"
    using prefix_rest[OF pre] by (simp add: add.commute)
  have old: "oldest_retained ?ox \<le> int ?m"
    using Some st by (auto simp: poll_def retains_all_def split: if_splits)
  have batch: "drop (nat (max 0 (su_next su - oldest_retained ?ox))) (ox_entries ?ox) = drop ?m ?hist"
    unfolding nxt using entries_from[OF ox, of ?m] old m ox by (simp add: outbox_inv_def)
  have end': "seq_of (last (drop ?m ?hist)) + 1 = int (length ?hist)" if "drop ?m ?hist \<noteq> []"
    using that ox by (simp add: outbox_inv_def last_conv_nth)
  have p: "r = (drop ?m ?hist,
      if drop ?m ?hist = [] then su
      else \<lparr> su_next = int (length ?hist), su_expected = Some (int (length ?hist)) \<rparr>)"
    using Some end' unfolding poll_def Let_def batch by (auto split: if_splits)
  show ?thesis
    using su Some p inv ox n nxt st all by (auto simp: session_inv_def)
qed

lemma session_inv_step: "session_inv n ss \<Longrightarrow> session_inv n (session_step op ss)"
proof (cases op)
  case (Publish ev)
  assume "session_inv n ss"
  with Publish show ?thesis
    using outbox_inv_publish retains_all_ops by (auto simp: session_inv_def intro: prefix_order.trans)
next
  case Poll
  assume "session_inv n ss"
  with Poll show ?thesis using poll_step by (cases "ss_stream ss") auto
next
  case Bump_epoch
  assume "session_inv n ss"
  with Bump_epoch show ?thesis using outbox_inv_bump retains_all_ops by (auto simp: session_inv_def)
qed

lemma session_inv_run: "session_inv n ss \<Longrightarrow> session_inv n (session_run ops ss)"
  unfolding session_run_def by (induction ops arbitrary: ss) (auto intro: session_inv_step)

definition resume_index :: "EventCursor option \<Rightarrow> nat" where
  "resume_index from' = (case from' of None \<Rightarrow> 0 | Some c \<Rightarrow> nat (ec_seq c + 1))"

lemma session_inv_open:
  assumes "outbox_inv ox hist" "subscribe_from ox from' = Inr su" "from' = None \<Longrightarrow> retains_all ox"
  shows "session_inv (resume_index from') (session_open ox hist su)"
  using assms oldest_retained_nonneg[OF assms(1)]
  by (auto simp: session_inv_def session_open_def subscribe_from_def outbox_inv_def resume_index_def
      split: if_splits option.splits)

lemma subscribed_above: "outbox_inv ox hist \<Longrightarrow> subscribe_from ox (Some c) = Inr su \<Longrightarrow> - 1 \<le> ec_seq c"
  using oldest_retained_nonneg by (fastforce simp: subscribe_from_def split: if_splits)

lemma outbox_inv_sorted: "outbox_inv ox hist \<Longrightarrow> sorted_wrt (\<lambda>x y. seq_of x < seq_of y) hist"
  by (auto simp: sorted_wrt_iff_nth_less outbox_inv_def)

lemma session_contract:
  "session_inv (resume_index (Some c)) ss \<Longrightarrow> - 1 \<le> ec_seq c \<Longrightarrow>
     prefix (ss_got ss) (filter (\<lambda>en. ec_seq c < seq_of en) (ss_log ss))"
  "session_inv (resume_index None) ss \<Longrightarrow> prefix (ss_got ss) (ss_log ss)"
  by (auto simp: session_inv_def resume_index_def log_after)

lemma session_open_stays:
  assumes "session_inv n ss" "retains_all (ss_outbox ss)" "ss_stream ss \<noteq> None"
  shows "retains_all (ss_outbox (session_run ops ss)) \<and> ss_stream (session_run ops ss) \<noteq> None"
  using assms
proof (induction ops arbitrary: ss)
  case (Cons op ops)
  have "retains_all (ss_outbox (session_step op ss)) \<and> ss_stream (session_step op ss) \<noteq> None"
    using Cons.prems retains_all_ops
    by (cases op) (auto simp: session_inv_def poll_def retains_all_def Let_def split: option.split)
  then show ?case
    using Cons.IH[OF session_inv_step[OF Cons.prems(1)], of op] by (simp add: session_run_def)
qed (simp add: session_run_def)

lemma poll_catches_up:
  assumes "session_inv n ss" "retains_all (ss_outbox ss)" "ss_stream ss \<noteq> None"
  shows "ss_got (session_step Poll ss) = drop n (ss_log (session_step Poll ss))"
proof -
  obtain su where su: "ss_stream ss = Some su" using assms(3) by blast
  then obtain r where "poll (ss_outbox ss) su = Some r"
    using assms by (fastforce simp: session_inv_def poll_def retains_all_def Let_def)
  with su poll_step[OF assms(1) su] show ?thesis by (cases r) simp
qed

text \<open>
  C22 (functional): A subscriber that resumes after a cursor is given, whatever is published, polled
  or re-epoched meanwhile, an initial segment of exactly the entries published after that cursor: in
  publication order, none skipped, none twice.
\<close>

theorem bridge_delivers_in_order:
  assumes "outbox_inv ox hist" "subscribe_from ox (Some c) = Inr su"
  shows "prefix (ss_got (session_run ops (session_open ox hist su)))
           (filter (\<lambda>en. ec_seq c < seq_of en) (ss_log (session_run ops (session_open ox hist su))))"
  using session_contract(1)[OF session_inv_run[OF session_inv_open[OF assms]] subscribed_above[OF assms]]
  by simp

definition demo_outbox :: "nat option \<Rightarrow> nat \<Rightarrow> Outbox" where
  "demo_outbox m k = ((\<lambda>ox. publish ox (EMonitorStarted 1)) ^^ k) (outbox_new 7 m)"

definition demo_log :: "nat \<Rightarrow> EventEnvelope list" where
  "demo_log k = ox_entries (demo_outbox None k)"

theorem bridge_delivers_in_order_witness:
  "prefix (ss_got (session_run [Publish (EMonitorStopped 1), Poll]
        (session_open (demo_outbox (Some 2) 3) (demo_log 3) \<lparr> su_next = 1, su_expected = Some 1 \<rparr>)))
      (filter (\<lambda>en. ec_seq \<lparr> ec_epoch = 7, ec_seq = 0, ec_height = 0 \<rparr> < seq_of en)
        (ss_log (session_run [Publish (EMonitorStopped 1), Poll]
          (session_open (demo_outbox (Some 2) 3) (demo_log 3) \<lparr> su_next = 1, su_expected = Some 1 \<rparr>))))"
proof (rule bridge_delivers_in_order)
  show "outbox_inv (demo_outbox (Some 2) 3) (demo_log 3)"
    by code_simp
  show "subscribe_from (demo_outbox (Some 2) 3) (Some \<lparr> ec_epoch = 7, ec_seq = 0, ec_height = 0 \<rparr>)
      = Inr \<lparr> su_next = 1, su_expected = Some 1 \<rparr>"
    by code_simp
qed

text \<open>
  C23 (liveness): With nothing trimmed, one more turn of a subscriber's stream brings it everything
  published after its cursor so far: the subscriber never stays behind the outbox.
\<close>

theorem bridge_catches_up:
  assumes "outbox_inv ox hist" "subscribe_from ox (Some c) = Inr su" "retains_all ox"
  shows "ss_got (session_run (ops @ [Poll]) (session_open ox hist su)) =
           filter (\<lambda>en. ec_seq c < seq_of en) (ss_log (session_run (ops @ [Poll]) (session_open ox hist su)))"
proof -
  let ?ss = "session_run ops (session_open ox hist su)"
  have start: "session_inv (resume_index (Some c)) (session_open ox hist su)"
    using session_inv_open[OF assms(1,2)] by simp
  have mid: "session_inv (resume_index (Some c)) ?ss" by (rule session_inv_run[OF start])
  have "retains_all (ss_outbox ?ss) \<and> ss_stream ?ss \<noteq> None"
    using session_open_stays[OF start] assms(3) by (simp add: session_open_def)
  then have "ss_got (session_step Poll ?ss) = drop (resume_index (Some c)) (ss_log (session_step Poll ?ss))"
    using poll_catches_up[OF mid] by blast
  moreover have "outbox_inv (ss_outbox (session_step Poll ?ss)) (ss_log (session_step Poll ?ss))"
    using session_inv_step[OF mid] unfolding session_inv_def by blast
  ultimately show ?thesis
    using log_after subscribed_above[OF assms(1,2)] by (simp add: session_run_def resume_index_def)
qed

theorem bridge_catches_up_witness:
  "ss_got (session_run ([Publish (EMonitorStopped 1), Poll, Publish (EMonitorStarted 1)] @ [Poll])
       (session_open (demo_outbox None 3) (demo_log 3) \<lparr> su_next = 1, su_expected = Some 1 \<rparr>)) =
     filter (\<lambda>en. ec_seq \<lparr> ec_epoch = 7, ec_seq = 0, ec_height = 0 \<rparr> < seq_of en)
       (ss_log (session_run ([Publish (EMonitorStopped 1), Poll, Publish (EMonitorStarted 1)] @ [Poll])
         (session_open (demo_outbox None 3) (demo_log 3) \<lparr> su_next = 1, su_expected = Some 1 \<rparr>)))"
  by (rule bridge_catches_up; code_simp)

text \<open>
  C26 (error): Resuming is refused exactly when it could not be done without a gap: when an entry after
  the cursor is no longer retained, or when the outbox never issued the cursor.
\<close>

theorem subscribe_refused_iff:
  assumes inv: "outbox_inv ox hist" and c: "0 \<le> ec_seq c"
  shows "subscribe_from ox (Some c) = Inl EventStreamOutOfRange \<longleftrightarrow>
           int (length hist) \<le> ec_seq c
           \<or> \<not> set (filter (\<lambda>en. ec_seq c < seq_of en) hist) \<subseteq> set (ox_entries ox)"
proof -
  let ?k = "length hist - length (ox_entries ox)" and ?n = "nat (ec_seq c + 1)"
  have old: "oldest_retained ox = int ?k" and nxt: "ox_next_seq ox = int (length hist)"
    and es: "ox_entries ox = drop ?k hist"
    using inv suffix_length_le[of "ox_entries ox" hist] suffix_as_drop[of "ox_entries ox" hist]
    by (simp_all add: oldest_retained_def outbox_inv_def)
  have after: "filter (\<lambda>en. ec_seq c < seq_of en) hist = drop ?n hist"
    by (rule log_after[OF inv]) (use c in simp)
  have seqs: "\<forall>i < length hist. seq_of (hist ! i) = int i" using inv by (simp add: outbox_inv_def)
  have "set (drop ?n hist) \<subseteq> set (drop ?k hist) \<longleftrightarrow> ?k \<le> ?n" if "?n \<le> length hist"
  proof
    assume "?k \<le> ?n" then show "set (drop ?n hist) \<subseteq> set (drop ?k hist)" by (rule set_drop_subset_set_drop)
  next
    assume sub: "set (drop ?n hist) \<subseteq> set (drop ?k hist)"
    show "?k \<le> ?n"
    proof (rule ccontr)
      assume lt: "\<not> ?k \<le> ?n"
      then have n: "?n < length hist" by simp
      then have "hist ! ?n \<in> set (drop ?n hist)" by (metis Cons_nth_drop_Suc list.set_intros(1))
      then have "hist ! ?n \<in> set (drop ?k hist)" using sub by blast
      moreover have "\<forall>x \<in> set (drop ?k hist). int ?k \<le> seq_of x"
        using seqs by (auto simp: in_set_conv_nth)
      ultimately have "int ?k \<le> int ?n" using seqs n by metis
      with lt show False by simp
    qed
  qed
  then have sub: "set (drop ?n hist) \<subseteq> set (ox_entries ox) \<longleftrightarrow> ?k \<le> ?n" if "?n \<le> length hist"
    using that es by simp
  have refused: "subscribe_from ox (Some c) = Inl EventStreamOutOfRange \<longleftrightarrow>
      int (length hist) \<le> ec_seq c \<or> \<not> ?k \<le> ?n"
    using c by (auto simp: subscribe_from_def old nxt)
  show ?thesis
  proof (cases "int (length hist) \<le> ec_seq c")
    case False
    then have "?n \<le> length hist" using c by linarith
    then show ?thesis unfolding refused after sub[OF \<open>?n \<le> length hist\<close>] by blast
  qed (simp add: refused)
qed

theorem subscribe_refused_iff_witness:
  "subscribe_from (demo_outbox (Some 2) 5) (Some \<lparr> ec_epoch = 7, ec_seq = 1, ec_height = 0 \<rparr>)
       = Inl EventStreamOutOfRange \<longleftrightarrow>
     int (length (demo_log 5)) \<le> ec_seq \<lparr> ec_epoch = 7, ec_seq = 1, ec_height = 0 \<rparr>
     \<or> \<not> set (filter (\<lambda>en. ec_seq \<lparr> ec_epoch = 7, ec_seq = 1, ec_height = 0 \<rparr> < seq_of en) (demo_log 5))
         \<subseteq> set (ox_entries (demo_outbox (Some 2) 5))"
  by (rule subscribe_refused_iff; code_simp)

section \<open>The outbox as an event bridge\<close>

text \<open>
  An opened bridge: the outbox, the history behind it, and the publications and turns that follow the
  consumer's subscription.
\<close>

type_synonym opened = "Outbox \<times> EventEnvelope list \<times> bridge_op list"

definition opened_valid :: "opened \<Rightarrow> bool" where
  "opened_valid = (\<lambda>(ox, hist, ops). outbox_inv ox hist)"

definition opened_full :: "opened \<Rightarrow> bool" where
  "opened_full = (\<lambda>(ox, hist, ops). retains_all ox)"

definition opened_log :: "opened \<Rightarrow> EventEnvelope list" where
  "opened_log = (\<lambda>(ox, hist, ops).
     ss_log (session_run ops \<lparr> ss_outbox = ox, ss_stream = None, ss_log = hist, ss_got = [] \<rparr>))"

definition opened_stream :: "opened \<Rightarrow> EventCursor option \<Rightarrow> EvmError + EventEnvelope list" where
  "opened_stream = (\<lambda>(ox, hist, ops) from'.
     map_sum id (\<lambda>su. ss_got (session_run ops (session_open ox hist su))) (subscribe_from ox from'))"

lemma session_step_poll_frame [simp]:
  "ss_outbox (session_step Poll ss) = ss_outbox ss" "ss_log (session_step Poll ss) = ss_log ss"
  by (simp_all split: option.split prod.split)

lemma session_log_same:
  "ss_outbox x = ss_outbox y \<Longrightarrow> ss_log x = ss_log y \<Longrightarrow> ss_log (session_run ops x) = ss_log (session_run ops y)"
proof (induction ops arbitrary: x y)
  case (Cons op ops)
  have "ss_outbox (session_step op x) = ss_outbox (session_step op y)"
    and "ss_log (session_step op x) = ss_log (session_step op y)"
    using Cons.prems by (cases op; simp del: session_step.simps(2))+
  then have "ss_log (session_run ops (session_step op x)) = ss_log (session_run ops (session_step op y))"
    by (rule Cons.IH)
  then show ?case by (simp add: session_run_def)
qed (simp add: session_run_def)

lemma opened_log_run: "opened_log (ox, hist, ops) = ss_log (session_run ops (session_open ox hist su))"
  unfolding opened_log_def prod.case by (rule session_log_same) (simp_all add: session_open_def)

lemma opened_stream_prefix:
  assumes "outbox_inv ox hist" "opened_stream (ox, hist, ops) from' = Inr es" "from' = None \<Longrightarrow> retains_all ox"
  shows "prefix es (case from' of None \<Rightarrow> opened_log (ox, hist, ops)
           | Some c \<Rightarrow> filter (\<lambda>en. ec_seq c < seq_of en) (opened_log (ox, hist, ops)))"
proof -
  obtain su where su: "subscribe_from ox from' = Inr su"
    and es: "es = ss_got (session_run ops (session_open ox hist su))"
    using assms(2) by (cases "subscribe_from ox from'") (auto simp: opened_stream_def)
  have "session_inv (resume_index from') (session_run ops (session_open ox hist su))"
    by (rule session_inv_run[OF session_inv_open[OF assms(1) su assms(3)]])
  then show ?thesis
    using session_contract subscribed_above[OF assms(1)] su
    unfolding es opened_log_run[of ox hist ops su] by (cases from') auto
qed

lemma opened_log_sorted:
  assumes "outbox_inv ox hist"
  shows "sorted_wrt (\<lambda>x y. seq_of x < seq_of y) (opened_log (ox, hist, ops))"
proof -
  let ?su = "\<lparr> su_next = int (length hist), su_expected = Some (int (length hist)) \<rparr>"
  have "session_inv (length hist) (session_open ox hist ?su)"
    using assms by (simp add: session_inv_def session_open_def)
  then show ?thesis
    unfolding opened_log_run[of ox hist ops ?su]
    using session_inv_run outbox_inv_sorted by (fastforce simp: session_inv_def)
qed

interpretation outbox: event_bridge opened_valid opened_full opened_log opened_stream
proof unfold_locales
  fix b es assume "opened_valid b" "opened_full b" "opened_stream b None = Inr es"
  then show "prefix es (opened_log b)"
    using opened_stream_prefix[of _ _ _ None] by (cases b rule: prod_cases3) (auto simp: opened_valid_def opened_full_def)
next
  fix b c es assume "opened_valid b" "opened_stream b (Some c) = Inr es"
  then show "prefix es (filter (\<lambda>en. ec_seq c < seq_of en) (opened_log b))"
    using opened_stream_prefix[of _ _ _ "Some c"] by (cases b rule: prod_cases3) (auto simp: opened_valid_def)
next
  fix b assume "opened_valid b"
  then show "sorted_wrt (\<lambda>x y. seq_of x < seq_of y) (opened_log b)"
    using opened_log_sorted by (cases b rule: prod_cases3) (simp add: opened_valid_def)
qed

end
