(* ===== verification/Example.thy ===== *)
theory Example
  imports Payment_Handlers
begin

text \<open>
  A small concrete server on which the witnesses evaluate: an environment with computable stand-ins for
  the code outside the repository, one store, and one open invoice of 100 units payable to address 42 on
  chain 1.  Amounts are whole numbers here, so that decimals print and parse exactly.
\<close>

definition ex_hex :: "string \<Rightarrow> nat option" where
  "ex_hex t = (if take 2 t = ''0x'' then unsigned_digits (drop 2 t) else None)"

definition ex_env :: env where
  "ex_env =
     \<lparr> chain_evm = (\<lambda>c. ''eip155:'' @ show_u64 c),
       chain_evm_id = (\<lambda>t. if take 7 t = ''eip155:'' then parse_u64 (drop 7 t) else None),
       fmt_address = (\<lambda>w. ''0x'' @ show_nat (unat w)), parse_address = (\<lambda>t. map_option of_nat (ex_hex t)),
       fmt_b256 = (\<lambda>w. ''0x'' @ show_nat (unat w)), parse_b256 = (\<lambda>t. map_option of_nat (ex_hex t)),
       fmt_u256 = (\<lambda>w. show_nat (unat w)),
       parse_u256 = (\<lambda>t. map_option of_nat (unsigned_digits t)), fmt_uuid = show_nat, parse_uuid = unsigned_digits,
       dec_parse = (\<lambda>t. if t = ''0.0001'' then Some (1/10000) else if t = ''0.1'' then Some (1/10)
          else map_option of_nat (unsigned_digits t)),
       dec_show = (\<lambda>q. show_nat (nat (floor q))), dec_plain = (\<lambda>q. show_nat (nat (floor q))), dec_div = (/),
       dec_round = (\<lambda>_ q. q), pg_numeric = (\<lambda>_ t. map_option of_nat (unsigned_digits t)),
       pg_text = (\<lambda>_ q. show_nat (nat (floor q))),
       event_str = (\<lambda>e. case e of EvPaymentDetected \<Rightarrow> ''payment_detected'' | _ \<Rightarrow> ''other''),
       event_parse = (\<lambda>t. if t = ''payment_detected'' then Some EvPaymentDetected else None),
       hash_order = id \<rparr>"

definition ex_invoice :: invoice_row where
  "ex_invoice =
     \<lparr> inv_id = ''1'', inv_store = 5, inv_currency = ''USD'', inv_status = Pending, inv_amount = 100,
       inv_received = 0, inv_created_at = 100, inv_expires_at = 1000, inv_metadata = None,
       inv_email = None, inv_extra = None \<rparr>"

definition ex_option :: "rat payment_option" where
  "ex_option =
     \<lparr> opt_id = 11, opt_invoice = ''1'', opt_method = ''eth'', opt_chain = ''eip155:1'',
       opt_symbol = ''ETH'', opt_token = None, opt_decimals = 0, opt_address = ''0x42'', opt_wallet = None,
       opt_derivation = None, opt_amount = 100, opt_rate = None, opt_rate_at = None, opt_active = True,
       opt_created_at = 100 \<rparr>"

definition ex_watch :: watched_row where
  "ex_watch =
     \<lparr> wa_invoice = ''1'', wa_option = 11, wa_address = ''0x42'', wa_chain = ''eip155:1'',
       wa_token = None, wa_active = True, wa_notified = True, wa_created_at = 100, wa_expires_at = 1000 \<rparr>"

definition ex_world :: world where
  "ex_world =
     \<lparr> invoices = [ex_invoice], payments = [], payment_options = [ex_option],
       watched_addresses = [ex_watch], tokens = [], webhook_outbox = [], chain_cursors_tbl = [],
       tolerances = [], allowances = [], store_prefs = [], store_names = [(5, ''Shop'')],
       store_webhooks = [\<lparr> sw_id = 8, sw_store = 5, sw_url = ''https://shop'', sw_secret = ''s'',
                            sw_enabled = True \<rparr>],
       now = 500, entropy = (\<lambda>n. n + 100), drawn = 0, faults = [], effects = [] \<rparr>"

definition ex_consumer :: EventConsumer where
  "ex_consumer =
     \<lparr> ev_cleanup = None, ev_webhook = True, ev_ws = True, ev_observers = 1, ev_own_store = Some 5,
       ev_accept_lineage_break = False, ev_skip_events = [] \<rparr>"

text \<open>The payment: 100 units, found in block 10, confirmed later.\<close>

definition ex_detected :: PaymentDetected where
  "ex_detected =
     \<lparr> pd_chain = 1, pd_invoice = 1, pd_address = 42, pd_amount = 100, pd_tx_hash = 77, pd_block = 10,
       pd_block_hash = 3, pd_log_index = None, pd_native = True, pd_token = None, pd_from = 9,
       pd_confirmations = 0, pd_required = 12, pd_detected_at = 450 \<rparr>"

definition ex_confirmed :: PaymentConfirmed where
  "ex_confirmed =
     \<lparr> pc_tx_index = -1, pc_chain = 1, pc_invoice = 1, pc_address = 42, pc_amount = 100, pc_tx_hash = 77,
       pc_block = 10, pc_confirmations = 12, pc_confirmed_at = 480 \<rparr>"

text \<open>The server once the payment is detected, and after it is confirmed.\<close>

definition ex_payment :: payment_row where
  "ex_payment =
     \<lparr> pay_id = 100, pay_invoice = ''1'', pay_option = Some 11, pay_chain = ''eip155:1'', pay_asset = Native,
       pay_amount = 100, pay_symbol = ''ETH'', pay_token = None, pay_tx_hash = ''0x77'', pay_block = Some 10,
       pay_detected_at = 450, pay_confirmed_at = None, pay_from = Some ''0x9'', pay_reorged = False,
       pay_extra = None, pay_credited = Some 100, pay_rate = None, pay_rate_at = None, pay_tx_index = - 1 \<rparr>"

definition ex_processing :: world where
  "ex_processing = ex_world\<lparr>
     invoices := [ex_invoice\<lparr>inv_status := Processing, inv_received := 100\<rparr>], payments := [ex_payment],
     webhook_outbox := [\<lparr> ob_id = 101, ob_payment = 100, ob_invoice = ''1'', ob_event = ''payment_detected'',
        ob_created_at = 500, ob_dispatched_at = None, ob_claimed_until = None \<rparr>], drawn := 2\<rparr>"

definition ex_settled :: world where
  "ex_settled = snd (handle_payment_confirmed ex_env ex_consumer ex_confirmed ex_processing)"

end
