(* ===== verification/Resume.thy ===== *)
theory Resume
  imports Event_Consumer Memory_Bridge Example
begin

text \<open>
  Resuming after a stop.  The consumer promises that its stored position never moves past an event it
  has not applied: whatever fails, and wherever, the next run starts again at the first unapplied
  event.  The proof has three parts: no handler touches the cursor table; a commit raises the stored
  position to exactly the envelope just applied; and the loop stops at the first failure.
\<close>

section \<open>Handlers do not touch the cursors\<close>

lemma view_cursors: "view chain_cursors_tbl"
  by (rule viewI) simp

lemma cursors_upsert_row: "chain_cursors_tbl (snd (upsert_payment_row E d ti s)) = chain_cursors_tbl s"
  by (simp add: upsert_payment_row_def update_payments_eq update_invoice_on_payment_def split: option.split)

lemma cursors_obligation: "chain_cursors_tbl (snd (insert_obligation oid pid i ev s)) = chain_cursors_tbl s"
  by (simp add: insert_obligation_def)

lemma cursors_ledger_ops [steps_intros]:
  "steps (same chain_cursors_tbl) (get_by_tx_index E i h ti)"
  "steps (same chain_cursors_tbl) (reorg_candidates E c fork)"
  "steps (same chain_cursors_tbl) (has_valid_payments i)"
  "steps (same chain_cursors_tbl) stream_expired_pending"
  "steps (same chain_cursors_tbl) (update_status i st)"
  "steps (same chain_cursors_tbl) (expire i)"
  "steps (same chain_cursors_tbl) (mark_confirmed pid t)"
  "steps (same chain_cursors_tbl) (mark_payment_reorged pid)"
  unfolding get_by_tx_index_def reorg_candidates_def has_valid_payments_def stream_expired_pending_def
    update_status_def expire_def mark_confirmed_def mark_payment_reorged_def Let_def
  by (rule view_db_call[OF view_cursors], simp add: update_payments_eq)+

lemma cursors_store_ops [steps_intros]:
  "steps (same chain_cursors_tbl) (token_get_by_address c a)"
  "steps (same chain_cursors_tbl) (get_payment_option_id a c tok)"
  "steps (same chain_cursors_tbl) (option_get E oid)"
  "steps (same chain_cursors_tbl) (option_get_for_invoice E i)"
  "steps (same chain_cursors_tbl) (get_settlement_tolerance E st)"
  "steps (same chain_cursors_tbl) (record_settlement_allowance E i sf tp src)"
  unfolding token_get_by_address_def get_payment_option_id_def option_get_def option_get_for_invoice_def
    get_settlement_tolerance_def record_settlement_allowance_def
  by (rule view_db_call[OF view_cursors], simp split: option.split)+

lemma cursors_upsert [steps_intros]:
  "steps (same chain_cursors_tbl) (upsert_with_tx_index_and_obligation E d ti ev)"
  unfolding upsert_with_tx_index_and_obligation_def
  by (intro same_transaction same.steps_bind view_cursors view_db_call same_new_v4
      cursors_upsert_row cursors_obligation) simp

lemmas cursors_notify [steps_intros] =
  tables_readers[THEN view_same[OF view_cursors]] tables_notify[THEN view_same[OF view_cursors]]
  tables_queue_for_store[THEN view_same[OF view_cursors]] tables_emit[THEN view_same[OF view_cursors]]
  tables_new_v4[THEN view_same[OF view_cursors]]

lemma cursors_repo [steps_intros]: "steps (same f) m \<Longrightarrow> steps (same f) (repo m)"
  unfolding repo_def by (rule same.steps_mapErr)

lemma cursors_handlers [steps_intros]:
  "steps (same chain_cursors_tbl) (handle_payment_detected E C ev1)"
  "steps (same chain_cursors_tbl) (handle_payment_confirmed E C ev2)"
  "steps (same chain_cursors_tbl) (handle_reorg_detected E C ev3)"
  "steps (same chain_cursors_tbl) (check_expired E svc)"
  unfolding handle_payment_detected_def resolve_asset_def resolve_option_def resolve_credit_def
    handle_payment_confirmed_def settlement_inputs_def decide_settlement_def settle_def
    record_allowance_if_short_def announce_settled_def queue_webhook_def queue_payload_def
    send_customer_receipt_def receipts_disabled_for_store_def notify_own_store_settled_def
    handle_reorg_detected_def retract_invoice_def apply_reorg_status_def notify_reorg_def
    check_expired_def expire_one_def queue_expiration_webhook_def Let_def
  by (intro steps_intros)+

lemma cursors_handle_event: "steps (same chain_cursors_tbl) (handle_event E C e)"
  by (cases e) (simp_all, (intro steps_intros)+,
      unfold trigger_expiration_check_def check_chain_def, (intro steps_intros)+)

section \<open>The stored position\<close>

definition stored_cursors :: "world \<Rightarrow> cursor_map" where
  "stored_cursors s =
     map (\<lambda>r. (cur_chain r, cursor_of r)) (filter (\<lambda>r. cur_adapter r = ADAPTER_ID) (chain_cursors_tbl s))"

definition stored_seqs :: "world \<Rightarrow> int set" where
  "stored_seqs s = cur_seq ` {r \<in> set (chain_cursors_tbl s). cur_adapter r = ADAPTER_ID}"

text \<open>Where the next run resumes: the highest stored sequence number.\<close>

definition position :: "world \<Rightarrow> int option" where
  "position s = max_seq (stored_cursors s)"

lemma fold_max_Max: "fold max qs q = Max (insert q (set qs))" for q :: int
  using Max.set_eq_fold[of q qs] by simp

lemma max_seq_Max:
  "max_seq k = (if k = [] then None else Some (Max ((\<lambda>(_, c). cur_seq c) ` set k)))"
  by (cases k) (auto simp: max_seq_def fold_max_Max split: prod.split)

lemma stored_cursors_set: "(\<lambda>(_, c). cur_seq c) ` set (stored_cursors s) = stored_seqs s"
  by (auto simp: stored_cursors_def stored_seqs_def cursor_of_def image_iff)

lemma position_eq: "position s = (if stored_seqs s = {} then None else Some (Max (stored_seqs s)))"
  unfolding position_def max_seq_Max stored_cursors_set[symmetric] by auto

lemma stored_seqs_finite: "finite (stored_seqs s)"
  by (simp add: stored_seqs_def)

lemma chain_cursors_result:
  "chain_cursors ADAPTER_ID s = (Inr k, t) \<Longrightarrow> k = stored_cursors s \<and> chain_cursors_tbl t = chain_cursors_tbl s"
  by (auto simp: chain_cursors_def db_call_cases stored_cursors_def)

lemma commit_stored:
  assumes commit: "commit_chain_cursor ADAPTER_ID c k s = (Inr (), t)"
    and below: "\<And>q. q \<in> stored_seqs s \<Longrightarrow> q < cur_seq k"
  shows "cur_seq k \<in> stored_seqs t \<and> (\<forall>q \<in> stored_seqs t. q \<le> cur_seq k)"
proof -
  have low: "r \<in> set (chain_cursors_tbl s) \<Longrightarrow> cur_adapter r = ADAPTER_ID \<Longrightarrow> cur_seq r < cur_seq k" for r
    using below by (auto simp: stored_seqs_def)
  let ?key = "\<lambda>r. cur_adapter r = ADAPTER_ID \<and> cur_chain r = c"
  let ?new = "cursor_row_of ADAPTER_ID c k"
  have t: "chain_cursors_tbl t =
        (if list_ex ?key (chain_cursors_tbl s)
         then update_where (\<lambda>r. ?key r \<and> (cur_epoch r \<noteq> cur_epoch k \<or> cur_seq r < cur_seq k))
              (\<lambda>_. ?new) (chain_cursors_tbl s)
         else chain_cursors_tbl s @ [?new])"
    using commit by (auto simp: commit_chain_cursor_def db_call_cases Let_def split: if_splits)
  have mem: "?new \<in> set (chain_cursors_tbl t)"
  proof (cases "list_ex ?key (chain_cursors_tbl s)")
    case True
    then obtain r where "r \<in> set (chain_cursors_tbl s)" "?key r" by (auto simp: list_ex_iff)
    with True low t show ?thesis by (auto simp: set_update_where image_iff intro!: bexI[of _ r])
  qed (simp add: t)
  have only: "x = ?new \<or> x \<in> set (chain_cursors_tbl s)" if "x \<in> set (chain_cursors_tbl t)" for x
    using that by (auto simp: t set_update_where split: if_splits)
  have new: "cur_adapter ?new = ADAPTER_ID" "cur_seq ?new = cur_seq k"
    by (simp_all add: cursor_row_of_def)
  have "cur_seq k \<in> stored_seqs t"
    unfolding stored_seqs_def using mem new by (metis (mono_tags, lifting) image_eqI mem_Collect_eq)
  moreover have "cur_seq x \<le> cur_seq k"
    if "x \<in> set (chain_cursors_tbl t)" "cur_adapter x = ADAPTER_ID" for x
    using only[OF that(1)] low[of x] that(2) new(2) by auto
  ultimately show ?thesis by (auto simp: stored_seqs_def)
qed

section \<open>What a run delivers\<close>

text \<open>One envelope applied: handled, unless the operator skips it, and then committed.\<close>

definition applied :: "env \<Rightarrow> EventConsumer \<Rightarrow> int \<Rightarrow> EventEnvelope \<Rightarrow> world \<Rightarrow> world \<Rightarrow> bool" where
  "applied E C ep en s t \<longleftrightarrow>
     (\<exists>m. (if skipped C en then m = s else handle_event E C (en_event en) s = (Inr (), m))
        \<and> commit_chain_cursor ADAPTER_ID (en_chain en) (committed_cursor ep en) m = (Inr (), t))"

inductive delivered :: "env \<Rightarrow> EventConsumer \<Rightarrow> int \<Rightarrow> world \<Rightarrow> EventEnvelope list \<Rightarrow> world \<Rightarrow> bool"
  for E C ep where
  none: "delivered E C ep s [] s"
| more: "applied E C ep en s m \<Longrightarrow> delivered E C ep m es t \<Longrightarrow> delivered E C ep s (en # es) t"

text \<open>What is still to be applied: the published entries above the stored position.\<close>

definition pending :: "EventEnvelope list \<Rightarrow> world \<Rightarrow> EventEnvelope list" where
  "pending hist s = filter (\<lambda>en. case position s of None \<Rightarrow> True | Some q \<Rightarrow> q < seq_of en) hist"

lemma position_cong: "chain_cursors_tbl s = chain_cursors_tbl t \<Longrightarrow> position s = position t"
  by (simp add: position_def stored_cursors_def)

lemma stored_seqs_cong: "chain_cursors_tbl s = chain_cursors_tbl t \<Longrightarrow> stored_seqs s = stored_seqs t"
  by (simp add: stored_seqs_def)

lemma commit_frame:
  "commit_chain_cursor ADAPTER_ID c k s = (Inl e, t) \<Longrightarrow> chain_cursors_tbl t = chain_cursors_tbl s"
  by (auto simp: commit_chain_cursor_def db_call_cases split: if_splits)

lemma handle_event_cursors:
  "handle_event E C e s = (r, t) \<Longrightarrow> chain_cursors_tbl t = chain_cursors_tbl s"
  using steps_sameD[OF cursors_handle_event, of E C e s] by simp

text \<open>The commit after a handled or skipped envelope, from the world the handling left.\<close>

lemma commit_step:
  fixes k :: cursor_map
  assumes "bindP (tryP (commit_chain_cursor ADAPTER_ID c v)) (\<lambda>x.
       case x of Inl _ \<Rightarrow> errP stop | Inr _ \<Rightarrow> okP k) m = (r, t)"
  shows "(\<exists>k'. r = Inr k') \<and> commit_chain_cursor ADAPTER_ID c v m = (Inr (), t)
    \<or> r = Inl stop \<and> chain_cursors_tbl t = chain_cursors_tbl m"
  using assms commit_frame[of c v m]
  by (cases "commit_chain_cursor ADAPTER_ID c v m"; cases "fst (commit_chain_cursor ADAPTER_ID c v m)")
     (auto simp: prog_simps)

lemma apply_envelope_cases:
  assumes "apply_envelope E C ep en k s = (r, t)"
  shows "(\<exists>k'. r = Inr k') \<and> applied E C ep en s t
    \<or> r = Inl (Halted (en_chain en) (seq_of en)) \<and> chain_cursors_tbl t = chain_cursors_tbl s"
proof (cases "skipped C en")
  case True
  then show ?thesis
    using assms commit_step[of "en_chain en" "committed_cursor ep en"]
    by (fastforce simp: apply_envelope_def applied_def prog_simps)
next
  case False
  obtain rh m where h: "handle_event E C (en_event en) s = (rh, m)" by fastforce
  show ?thesis
  proof (cases rh)
    case (Inl e)
    then show ?thesis
      using assms h False handle_event_cursors[OF h]
      by (auto simp: apply_envelope_def apply_or_halt_def prog_simps)
  next
    case (Inr u)
    have "bindP (tryP (commit_chain_cursor ADAPTER_ID (en_chain en) (committed_cursor ep en))) (\<lambda>x.
       case x of Inl _ \<Rightarrow> errP (Halted (en_chain en) (seq_of en))
         | Inr _ \<Rightarrow> okP (AList.update (en_chain en) (committed_cursor ep en) k)) m = (r, t)"
      using assms h False Inr by (simp add: apply_envelope_def apply_or_halt_def prog_simps)
    from commit_step[OF this] show ?thesis
      using h Inr False handle_event_cursors[OF h] by (auto simp: applied_def)
  qed
qed

lemma applied_position:
  assumes "applied E C ep en s t" and "\<And>q. q \<in> stored_seqs s \<Longrightarrow> q < seq_of en"
  shows "position t = Some (seq_of en) \<and> (\<forall>q \<in> stored_seqs t. q \<le> seq_of en)"
proof -
  obtain m where m: "chain_cursors_tbl m = chain_cursors_tbl s"
    and c: "commit_chain_cursor ADAPTER_ID (en_chain en) (committed_cursor ep en) m = (Inr (), t)"
    using assms(1) by (auto simp: applied_def split: if_splits dest: handle_event_cursors)
  have "seq_of en \<in> stored_seqs t \<and> (\<forall>q \<in> stored_seqs t. q \<le> seq_of en)"
    using commit_stored[OF c] assms(2) stored_seqs_cong[OF m] by (simp add: committed_cursor_def)
  then show ?thesis using Max_eqI[OF stored_seqs_finite] by (force simp: position_eq)
qed

text \<open>The loop stops at the first envelope it cannot apply, and the stored position is the last one it could.\<close>

lemma apply_all_delivers:
  assumes "apply_all E C ep es k s = (r, t)" "sorted_wrt (\<lambda>x y. seq_of x < seq_of y) es"
    and "\<And>en q. en \<in> set es \<Longrightarrow> q \<in> stored_seqs s \<Longrightarrow> q < seq_of en"
  shows "\<exists>pre post m. es = pre @ post \<and> delivered E C ep s pre m
    \<and> chain_cursors_tbl t = chain_cursors_tbl m
    \<and> position t = (if pre = [] then position s else Some (seq_of (last pre)))
    \<and> (post = [] \<and> t = m \<or> (\<exists>en post'. post = en # post' \<and> r = Inl (Halted (en_chain en) (seq_of en))))"
  using assms
proof (induction es arbitrary: k s)
  case Nil
  then have "t = s" by (simp add: prog_simps)
  then show ?case by (intro exI[of _ "[]"] exI[of _ s]) (simp add: delivered.none)
next
  case (Cons en es)
  obtain r1 t1 where a: "apply_envelope E C ep en k s = (r1, t1)" by fastforce
  from apply_envelope_cases[OF a] consider
      (ok) k' where "r1 = Inr k'" "applied E C ep en s t1"
    | (stop) "r1 = Inl (Halted (en_chain en) (seq_of en))" "chain_cursors_tbl t1 = chain_cursors_tbl s"
    by blast
  then show ?case
  proof cases
    case stop
    with a Cons.prems(1) have "r = Inl (Halted (en_chain en) (seq_of en))" "t = t1"
      by (simp_all add: prog_simps)
    moreover have "position t1 = position s" by (rule position_cong) (rule stop(2))
    ultimately show ?thesis
      using stop(2) by (intro exI[of _ "[]"] exI[of _ "en # es"] exI[of _ s]) (simp add: delivered.none)
  next
    case ok
    have pos: "position t1 = Some (seq_of en) \<and> (\<forall>q \<in> stored_seqs t1. q \<le> seq_of en)"
      by (rule applied_position[OF ok(2)]) (use Cons.prems(3) in auto)
    have run: "apply_all E C ep es k' t1 = (r, t)" using a ok(1) Cons.prems(1) by (simp add: prog_simps)
    have srt: "sorted_wrt (\<lambda>x y. seq_of x < seq_of y) es" using Cons.prems(2) by simp
    have above: "q < seq_of x" if "x \<in> set es" "q \<in> stored_seqs t1" for x q
      using pos that Cons.prems(2) by force
    from Cons.IH[OF run srt above] obtain pre post m where rest: "es = pre @ post" "delivered E C ep t1 pre m"
        "chain_cursors_tbl t = chain_cursors_tbl m"
        "position t = (if pre = [] then position t1 else Some (seq_of (last pre)))"
        "post = [] \<and> t = m \<or> (\<exists>en post'. post = en # post' \<and> r = Inl (Halted (en_chain en) (seq_of en)))"
      by blast
    have "delivered E C ep s (en # pre) m" by (rule delivered.more[OF ok(2) rest(2)])
    then show ?thesis
      using pos rest(1,3-5) by (intro exI[of _ "en # pre"] exI[of _ post] exI[of _ m]) simp
  qed
qed

lemma pending_after:
  assumes "sorted_wrt (\<lambda>x y. seq_of x < seq_of y) hist" "pending hist s = pre @ post"
    and "position t = (if pre = [] then position s else Some (seq_of (last pre)))"
  shows "pending hist t = post"
proof (cases "pre = []")
  case True
  with assms show ?thesis by (simp add: pending_def)
next
  case False
  let ?q = "seq_of (last pre)"
  have srt: "sorted_wrt (\<lambda>x y. seq_of x < seq_of y) (pre @ post)"
    using assms(1) sorted_wrt_filter unfolding assms(2)[symmetric] pending_def by blast
  have above: "?q < seq_of x" if "x \<in> set post" for x
    using srt that False by (auto simp: sorted_wrt_append)
  obtain xs l where pre: "pre = xs @ [l]" using False by (metis rev_exhaust)
  have below: "\<not> ?q < seq_of x" if "x \<in> set pre" for x
    using srt that by (auto simp: pre sorted_wrt_append)
  have "last pre \<in> set (pending hist s)" using assms(2) False by simp
  then have sub: "filter (\<lambda>x. ?q < seq_of x) (pending hist s) = filter (\<lambda>x. ?q < seq_of x) hist"
    by (auto simp: pending_def intro!: filter_cong split: option.splits)
  have "pending hist t = filter (\<lambda>x. ?q < seq_of x) (pre @ post)"
    unfolding assms(2)[symmetric] sub using assms(3) False by (simp add: pending_def)
  also have "\<dots> = post" using above below by simp
  finally show ?thesis .
qed

section \<open>A whole run\<close>

text \<open>Every stored cursor is of the bridge's epoch: no lineage break.\<close>

definition lineage_ok :: "int \<Rightarrow> world \<Rightarrow> bool" where
  "lineage_ok ep s \<longleftrightarrow> (\<forall>k \<in> snd ` set (stored_cursors s). cur_epoch k = ep)"

lemma reconcile_same_lineage:
  assumes "\<forall>k \<in> snd ` set cs. cur_epoch k = ep"
  shows "reconcile_cursors E C cs ep = okP (resume_cursor ep cs, cs)"
proof -
  have "filter (\<lambda>(_, k). cur_epoch k \<noteq> ep) cs = []" using assms by (force simp: filter_empty_conv)
  moreover have "resume_cursor ep [] = None" by (simp add: resume_cursor_def max_seq_def)
  ultimately show ?thesis by (auto simp: reconcile_cursors_def fun_eq_iff prog_simps)
qed

lemma tables_chain_cursors: "steps (same tables) (chain_cursors a)"
  unfolding chain_cursors_def by (rule tables_body) simp

lemma run_cases:
  assumes run: "run E C (Inr ep) sub s = (r, t)" and ok: "lineage_ok ep s"
  obtains (refused) "tables t = tables s"
    | (streamed) es s1 r1 where
        "sub (map_option (\<lambda>q. \<lparr> ec_epoch = ep, ec_seq = q, ec_height = 0 \<rparr>) (position s)) = Inr es"
        "tables s1 = tables s" "apply_all E C ep es (stored_cursors s) s1 = (r1, t)"
        "\<And>e. r1 = Inl e \<Longrightarrow> r = Inl e"
proof -
  obtain rc s1 where c: "chain_cursors ADAPTER_ID s = (rc, s1)" by fastforce
  have tab: "tables s1 = tables s"
    using steps_sameD[OF tables_chain_cursors, of ADAPTER_ID s] c by simp
  show ?thesis
  proof (cases rc)
    case (Inl e)
    then show ?thesis using run c tab refused by (simp add: run_def prog_simps)
  next
    case (Inr cs)
    have cs: "cs = stored_cursors s" using chain_cursors_result c Inr by blast
    let ?from = "map_option (\<lambda>q. \<lparr> ec_epoch = ep, ec_seq = q, ec_height = 0 \<rparr>) (position s)"
    have from': "resume_cursor ep cs = ?from" by (simp add: cs resume_cursor_def position_def)
    have rec: "reconcile_cursors E C cs ep = okP (?from, cs)"
      unfolding from'[symmetric]
      by (rule reconcile_same_lineage) (rule ok[unfolded lineage_ok_def, folded cs])
    show ?thesis
    proof (cases "sub ?from")
      case sub: (Inl e)
      then show ?thesis using run c tab refused Inr rec
        by (cases e) (simp_all add: run_def prog_simps)
    next
      case sub: (Inr es)
      obtain r1 t1 where a: "apply_all E C ep es cs s1 = (r1, t1)" by fastforce
      have res: "run E C (Inr ep) sub s =
          bindP (apply_all E C ep es cs) (\<lambda>_. errP (Fatal ''event stream ended unexpectedly'')) s1"
        using c Inr rec sub by (simp add: run_def prog_simps)
      have t: "t1 = t" using run a unfolding res by (cases r1) (simp_all add: prog_simps)
      have stop: "r = Inl e" if "r1 = Inl e" for e
        using run a that unfolding res by (simp add: prog_simps)
      show ?thesis by (rule streamed[OF sub tab _ stop]) (use a cs t in simp)
    qed
  qed
qed

context event_bridge
begin

lemma stream_is_pending:
  assumes "valid b" "keeps_all b \<or> position s \<noteq> None"
    and "stream_from b (map_option (\<lambda>q. \<lparr> ec_epoch = ep, ec_seq = q, ec_height = 0 \<rparr>) (position s)) = Inr es"
  shows "prefix es (pending (published b) s)"
  using assms resumes_after starts_at_oldest by (cases "position s") (fastforce simp: pending_def)+

lemma run_resumes:
  assumes b: "valid b" "keeps_all b \<or> position s \<noteq> None" and ok: "lineage_ok ep s"
    and run: "run E C (Inr ep) (stream_from b) s = (r, t)"
  shows "\<exists>s1 pre m post. pending (published b) s = pre @ post \<and> tables s1 = tables s
    \<and> delivered E C ep s1 pre m \<and> pending (published b) t = post
    \<and> (tables t = tables m \<or> (\<exists>en post'. post = en # post' \<and> r = Inl (Halted (en_chain en) (seq_of en))))"
  using run ok
proof (cases rule: run_cases)
  case refused
  then have "position t = position s" using tables_sel position_cong by metis
  then show ?thesis
    using refused by (intro exI[of _ s] exI[of _ "[]"] exI) (simp add: delivered.none pending_def)
next
  case (streamed es s1 r1)
  obtain rest where rest: "pending (published b) s = es @ rest"
    using stream_is_pending[OF b streamed(1)] by (auto simp: prefix_def)
  have tbl: "chain_cursors_tbl s1 = chain_cursors_tbl s" using tables_sel[OF streamed(2)] by simp
  have pos: "position s1 = position s" by (rule position_cong[OF tbl])
  have srt: "sorted_wrt (\<lambda>x y. seq_of x < seq_of y) (es @ rest)"
    using published_sorted[OF b(1)] sorted_wrt_filter unfolding rest[symmetric] pending_def by blast
  have above: "q < seq_of en" if en: "en \<in> set es" and q: "q \<in> stored_seqs s1" for en q
  proof -
    have q': "q \<in> stored_seqs s" using q stored_seqs_cong[OF tbl] by simp
    then have "position s = Some (Max (stored_seqs s))" by (auto simp: position_eq)
    moreover have "en \<in> set (pending (published b) s)" using rest en by simp
    ultimately have "Max (stored_seqs s) < seq_of en" by (simp add: pending_def)
    then show ?thesis using Max_ge[OF stored_seqs_finite q'] by simp
  qed
  from srt have srt': "sorted_wrt (\<lambda>x y. seq_of x < seq_of y) es" by (simp add: sorted_wrt_append)
  from apply_all_delivers[OF streamed(3) srt' above] obtain pre post m where
      d: "es = pre @ post" "delivered E C ep s1 pre m"
        "position t = (if pre = [] then position s1 else Some (seq_of (last pre)))"
      and stop: "post = [] \<and> t = m \<or>
        (\<exists>en post'. post = en # post' \<and> r1 = Inl (Halted (en_chain en) (seq_of en)))"
    by blast
  have split: "pending (published b) s = pre @ (post @ rest)" using rest d(1) by simp
  have "pending (published b) t = post @ rest"
    by (rule pending_after[OF published_sorted[OF b(1)] split]) (use d(3) pos in simp)
  moreover have "tables t = tables m \<or>
      (\<exists>en post'. post @ rest = en # post' \<and> r = Inl (Halted (en_chain en) (seq_of en)))"
    using stop streamed(4) by fastforce
  ultimately show ?thesis
    using split streamed(2) d(2) by blast
qed

end

text \<open>
  C8 (safety): A run of the consumer on the outbox applies an initial segment of the entries above its
  stored position, in order, and leaves as pending exactly the rest: nothing is skipped and no applied
  event is applied again by the next run.  Whatever fails, and wherever, the run either stopped between two
  events or reports the first pending one.
\<close>

theorem run_resumes_exactly:
  assumes "outbox_inv ox hist" "retains_all ox \<or> position s \<noteq> None" "lineage_ok ep s"
    and "run E C (Inr ep) (opened_stream (ox, hist, ops)) s = (r, t)"
  shows "\<exists>s1 pre m post. pending (opened_log (ox, hist, ops)) s = pre @ post \<and> tables s1 = tables s
    \<and> delivered E C ep s1 pre m \<and> pending (opened_log (ox, hist, ops)) t = post
    \<and> (tables t = tables m \<or> (\<exists>en post'. post = en # post' \<and> r = Inl (Halted (en_chain en) (seq_of en))))"
  by (rule outbox.run_resumes[OF _ _ assms(3,4)])
     (use assms(1,2) in \<open>auto simp: opened_valid_def opened_full_def\<close>)

definition ex_outbox :: Outbox where
  "ex_outbox =
     publish (publish (outbox_new 7 None) (EPaymentDetected ex_detected)) (EPaymentConfirmed ex_confirmed)"

definition ex_run :: "(consumer_stop + unit) \<times> world" where
  "ex_run = run ex_env ex_consumer (Inr 7) (opened_stream (ex_outbox, ox_entries ex_outbox, [Poll])) ex_world"

theorem run_resumes_exactly_witness:
  "\<exists>s1 pre m post. pending (opened_log (ex_outbox, ox_entries ex_outbox, [Poll])) ex_world = pre @ post
    \<and> tables s1 = tables ex_world \<and> delivered ex_env ex_consumer 7 s1 pre m
    \<and> pending (opened_log (ex_outbox, ox_entries ex_outbox, [Poll])) (snd ex_run) = post
    \<and> (tables (snd ex_run) = tables m
       \<or> (\<exists>en post'. post = en # post' \<and> fst ex_run = Inl (Halted (en_chain en) (seq_of en))))"
proof (rule run_resumes_exactly)
  show "outbox_inv ex_outbox (ox_entries ex_outbox)" by code_simp
  have "retains_all ex_outbox" by code_simp
  then show "retains_all ex_outbox \<or> position ex_world \<noteq> None" ..
  show "lineage_ok 7 ex_world" by code_simp
  show "run ex_env ex_consumer (Inr 7) (opened_stream (ex_outbox, ox_entries ex_outbox, [Poll])) ex_world
      = (fst ex_run, snd ex_run)"
    by (simp add: ex_run_def)
qed

end
