(* ===== verification/Outcomes.thy ===== *)
theory Outcomes
  imports Example
begin

text \<open>
  What each repository call of the handlers can do to the tables, on every outcome.  A call that fails
  leaves the tables as they were; the lemmas say what a call that succeeds read or wrote.
\<close>

section \<open>Composite programs\<close>

lemma bindP_E:
  assumes "bindP m f s = (r, t)"
  obtains (stop) e where "m s = (Inl e, t)" "r = Inl e"
    | (step) x u where "m s = (Inr x, u)" "f x u = (r, t)"
  using assms by (cases "m s"; cases "fst (m s)") (auto simp: prog_simps)

lemma repo_E:
  assumes "repo m s = (r, t)"
  obtains r0 where "m s = (r0, t)" "r = map_sum EDatabase id r0"
  using assms by (cases "m s") (auto simp: repo_def mapErrP_def)

lemma repo_ok: "repo m s = (Inr x, t) \<Longrightarrow> m s = (Inr x, t)"
  by (erule repo_E) (auto simp: map_sum_def split: sum.splits)

lemma repo_err: "repo m s = (Inl e, t) \<Longrightarrow> \<exists>e0. m s = (Inl e0, t) \<and> e = EDatabase e0"
  by (erule repo_E) (auto simp: map_sum_def split: sum.splits)

lemma same_tablesD: "steps (same tables) m \<Longrightarrow> m s = (r, t) \<Longrightarrow> tables t = tables s"
  using steps_sameD[of tables m s] by simp

lemma tables_repo [steps_intros]: "steps (same tables) m \<Longrightarrow> steps (same tables) (repo m)"
  unfolding repo_def by (rule same.steps_mapErr)

lemma repo_read: "steps (same tables) m \<Longrightarrow> repo m s = (r, t) \<Longrightarrow> tables t = tables s"
  by (rule same_tablesD[OF tables_repo])

lemma db_call_outcome:
  assumes "db_call m s = (r, t)"
  obtains (fault) "r = Inl RDatabase" "tables t = tables s"
    | (ran) fs where "m (s\<lparr>faults := fs\<rparr>) = (r, t)"
proof -
  consider "r = Inl RDatabase \<and> tables t = tables s" | fs where "m (s\<lparr>faults := fs\<rparr>) = (r, t)"
  proof (cases "faults s = []")
    case True
    then have "s\<lparr>faults := []\<rparr> = s" by (cases s) simp
    moreover have "m s = (r, t)" using assms True by (simp add: db_call_cases)
    ultimately show ?thesis using that(2)[of "[]"] by metis
  next
    case False
    then show ?thesis using assms that by (auto simp: db_call_cases)
  qed
  then show thesis using fault ran by cases auto
qed

section \<open>Reads\<close>

lemma tables_reads [steps_intros]:
  "steps (same tables) (get_by_tx_index E i h ti)"
  "steps (same tables) (reorg_candidates E c fork)"
  "steps (same tables) (has_valid_payments i)"
  "steps (same tables) (token_get_by_address c a)"
  "steps (same tables) (get_payment_option_id a c tok)"
  "steps (same tables) (option_get E oid)"
  "steps (same tables) (option_get_for_invoice E i)"
  "steps (same tables) (get_settlement_tolerance E st)"
  unfolding get_by_tx_index_def reorg_candidates_def has_valid_payments_def token_get_by_address_def
    get_payment_option_id_def option_get_def option_get_for_invoice_def get_settlement_tolerance_def
  by (rule tables_body, simp)+

lemma get_by_tx_index_found:
  assumes "get_by_tx_index E i h ti s = (Inr (Some p), t)"
  shows "\<exists>row \<in> set (payments s). p = try_row_to_payment E row \<and> pay_invoice row = i \<and> pay_tx_hash row = h
    \<and> pay_tx_index row = ti \<and> \<not> pay_reorged row"
  using assms unfolding get_by_tx_index_def
  by (elim db_call_outcome) (auto dest!: find_SomeD)

lemma status_column: "try_db_to_status (status_to_db st) = Inr st"
  by (cases st) (simp_all add: try_db_to_status_def)

lemma try_row_to_invoice_sel:
  assumes "try_row_to_invoice E row = Inr d"
  shows "inv_id d = inv_id row" "inv_status d = inv_status row" "inv_store d = inv_store row"
    "inv_amount d = pg_text E 18 (inv_amount row)" "inv_received d = pg_text E 18 (inv_received row)"
    "inv_expires_at d = inv_expires_at row"
  using assms by (auto simp: try_row_to_invoice_def status_column)

lemma invoice_get_found:
  assumes "invoice_get E i s = (Inr (Some d), t)"
  shows "\<exists>row \<in> set (invoices s). inv_id row = i \<and> try_row_to_invoice E row = Inr d"
  using assms unfolding invoice_get_def
  by (elim db_call_outcome) (auto split: option.splits dest!: find_SomeD simp: map_sum_def split: sum.splits)

section \<open>Writes\<close>

definition set_status :: "string \<Rightarrow> InvoiceStatus \<Rightarrow> world \<Rightarrow> world" where
  "set_status i st s = s\<lparr>invoices := update_where (\<lambda>r. inv_id r = i) (\<lambda>r. r\<lparr>inv_status := st\<rparr>) (invoices s)\<rparr>"

lemma tables_faults_write:
  "tables (set_status i st (s\<lparr>faults := fs\<rparr>)) = tables (set_status i st s)"
  "tables (update_payments P f (s\<lparr>faults := fs\<rparr>)) = tables (update_payments P f s)"
  by (simp_all add: set_status_def update_payments_eq tables_def)

lemma tables_cong_write:
  assumes "tables s = tables t"
  shows "tables (set_status i st s) = tables (set_status i st t)"
    and "tables (update_payments P f s) = tables (update_payments P f t)"
  using assms by (cases s; cases t; simp add: tables_def set_status_def update_payments_eq)+

lemma update_status_outcome:
  assumes "update_status i st s = (r, t)"
  obtains (failed) e where "r = Inl e" "tables t = tables s"
    | (written) "r = Inr ()" "tables t = tables (set_status i st s)"
  using assms unfolding update_status_def Let_def
  by (elim db_call_outcome) (auto simp: set_status_def tables_def split: if_splits)

abbreviation confirm_at :: "timestamp \<Rightarrow> payment_row \<Rightarrow> payment_row" where
  "confirm_at c \<equiv> \<lambda>p. p\<lparr>pay_confirmed_at := Some c\<rparr>"

lemma mark_confirmed_outcome:
  assumes "mark_confirmed i c s = (r, t)"
  obtains (failed) e where "r = Inl e" "tables t = tables s"
    | (written) "r = Inr ()"
        "tables t = tables (update_payments (\<lambda>p. pay_id p = i \<and> pay_confirmed_at p = None) (confirm_at c) s)"
        "\<exists>p \<in> set (payments s). pay_id p = i \<and> pay_confirmed_at p = None"
  using assms unfolding mark_confirmed_def Let_def
  by (elim db_call_outcome) (auto simp: tables_faults_write split: if_splits)

lemma record_allowance_outcome:
  assumes "record_settlement_allowance E i sf tp src s = (r, t)"
  shows "invoices t = invoices s \<and> payments t = payments s
    \<and> (r = Inr () \<longrightarrow> (\<exists>a \<in> set (allowances t). al_invoice a = i \<and> Some (al_shortfall a) = pg_numeric E 18 sf))"
  using assms unfolding record_settlement_allowance_def
  by (elim db_call_outcome) (auto dest: tables_sel split: option.splits if_splits)

lemma mark_payment_reorged_outcome:
  assumes "mark_payment_reorged i s = (r, t)"
  obtains (failed) e where "r = Inl e" "tables t = tables s"
    | (written) "r = Inr ()" "tables t = tables (update_payments (\<lambda>p. pay_id p = i \<and> \<not> pay_reorged p) retract s)"
  using assms unfolding mark_payment_reorged_def
  by (elim db_call_outcome) (auto simp: tables_faults_write)

section \<open>A healthy database\<close>

text \<open>With no failure scheduled, calls stay without failures and reads return.\<close>

definition quiet :: "world \<Rightarrow> bool" where
  "quiet s \<longleftrightarrow> faults s = []"

interpretation quiet: step_rel "kept quiet"
  by (rule step_rel_kept)

lemma quiet_db_call:
  "(\<And>s. faults (snd (m s)) = faults s) \<Longrightarrow> steps (kept quiet) (db_call m)"
  by (simp add: steps_def kept_def quiet_def db_call_def)

lemma quiet_basic [steps_intros]: "steps (kept quiet) new_v4" "steps (kept quiet) (emit e)"
  by (simp_all add: steps_def kept_def quiet_def new_v4_def emit_def modP_def)

lemma quiet_repo [steps_intros]: "steps (kept quiet) m \<Longrightarrow> steps (kept quiet) (repo m)"
  unfolding repo_def by (rule quiet.steps_mapErr)

lemma quiet_calls [steps_intros]:
  "steps (kept quiet) (invoice_get E i)"
  "steps (kept quiet) (get_store_settings st)"
  "steps (kept quiet) (get_enabled_webhook st)"
  "steps (kept quiet) (get_store_name st)"
  "steps (kept quiet) (reorg_candidates E c fork)"
  "steps (kept quiet) (has_valid_payments i)"
  "steps (kept quiet) (update_status i new_status)"
  "steps (kept quiet) (mark_payment_reorged pid)"
  unfolding invoice_get_def get_store_settings_def get_enabled_webhook_def get_store_name_def
    reorg_candidates_def has_valid_payments_def update_status_def mark_payment_reorged_def Let_def
  by (rule quiet_db_call, simp add: update_payments_eq)+

lemma quiet_notify [steps_intros]:
  "steps (kept quiet) (suppressed_by_prefs st key)"
  "steps (kept quiet) (job_new cfg payload)"
  "steps (kept quiet) (ws_send st u)"
  "steps (kept quiet) (send_for_invoice E i u)"
  unfolding suppressed_by_prefs_def job_new_def ws_send_def send_for_invoice_def
  by (intro steps_intros)+

lemma quiet_sink [steps_intros]: "steps (kept quiet) (sink_queue job)"
  unfolding sink_queue_def by (rule quiet_db_call) (simp add: emit_def modP_def)

lemma quiet_queue [steps_intros]: "steps (kept quiet) (queue_for_store E st payload)"
  unfolding queue_for_store_def by (intro steps_intros)

text \<open>A program that returns from every quiet world, and stays quiet.\<close>

definition succeeds :: "('e, world, 'a) prog \<Rightarrow> world \<Rightarrow> bool" where
  "succeeds m s \<longleftrightarrow> (\<exists>x t. m s = (Inr x, t))"

lemma succeeds_ok [simp]: "succeeds (okP x) s"
  by (simp add: succeeds_def okP_def)

lemma succeeds_try [simp]: "succeeds (tryP m) s"
  by (simp add: succeeds_def tryP_def split: prod.split)

lemma succeeds_bind:
  "succeeds m s \<Longrightarrow> (\<And>x t. m s = (Inr x, t) \<Longrightarrow> succeeds (f x) t) \<Longrightarrow> succeeds (bindP m f) s"
  unfolding succeeds_def by (metis bindP_ok)

lemma succeeds_repo: "succeeds m s \<Longrightarrow> succeeds (repo m) s"
  unfolding succeeds_def repo_def by (auto simp: mapErrP_def)

lemma succeeds_db_call: "quiet s \<Longrightarrow> succeeds m s \<Longrightarrow> succeeds (db_call m) s"
  by (simp add: succeeds_def quiet_def db_call_def)

lemma keptD: "steps (kept I) m \<Longrightarrow> I s \<Longrightarrow> m s = (r, t) \<Longrightarrow> I t"
  using steps_keptD[of I m s] by simp

lemma succeeds_emit [simp]: "succeeds (emit e) s" "succeeds new_v4 s" "succeeds (getP f) s"
  by (simp_all add: succeeds_def emit_def modP_def new_v4_def getP_def)

lemma succeeds_notices:
  "succeeds (suppressed_by_prefs st key) s"
  "succeeds (send_for_invoice E i u) s"
  "succeeds (job_new cfg payload) s"
  unfolding suppressed_by_prefs_def send_for_invoice_def job_new_def ws_send_def
  by (rule succeeds_bind, simp, (auto split: sum.split option.split intro!: succeeds_bind)[1])+

lemma succeeds_queue: "succeeds (queue_for_store E st payload) s"
  unfolding queue_for_store_def
  by (rule succeeds_bind[OF succeeds_notices(1)])
     (auto split: sum.split option.split intro!: succeeds_bind succeeds_notices(3))

lemma succeeds_reads:
  "quiet s \<Longrightarrow> succeeds (reorg_candidates E c fork) s"
  "quiet s \<Longrightarrow> succeeds (has_valid_payments i) s"
  "quiet s \<Longrightarrow> succeeds (mark_payment_reorged pid) s"
  unfolding reorg_candidates_def has_valid_payments_def mark_payment_reorged_def
  by (rule succeeds_db_call, assumption, simp add: succeeds_def)+

lemma succeeds_update_status:
  "quiet s \<Longrightarrow> i \<in> inv_id ` set (invoices s) \<Longrightarrow> succeeds (update_status i st) s"
  unfolding update_status_def Let_def by (rule succeeds_db_call) (auto simp: succeeds_def)

lemma invoice_get_known:
  assumes "quiet s" "i \<in> inv_id ` set (invoices s)"
  shows "\<exists>d t. invoice_get E i s = (Inr (Some d), t)"
proof -
  obtain row where row: "find (\<lambda>r. inv_id r = i) (invoices s) = Some row"
    using assms(2) by (cases "find (\<lambda>r. inv_id r = i) (invoices s)") (auto simp: find_None_iff)
  obtain d where "try_row_to_invoice E row = Inr d" by (simp add: try_row_to_invoice_def status_column)
  then show ?thesis using assms(1) row by (simp add: invoice_get_def db_call_def quiet_def)
qed

end
