(* ===== verification/Confirmation.thy ===== *)
theory Confirmation
  imports Outcomes Event_Consumer
begin

text \<open>
  When a confirmation settles an invoice.  The handler reads the invoice back after marking the payment
  confirmed, and settles it only when what it has received covers what it asks within the tolerance in
  force.  The results hold for every outcome of the handler, so also for one cut short by a failure.
\<close>

section \<open>The stages\<close>

lemma tables_announce: "steps (same tables) (announce_settled E C ev d p st wev)"
  unfolding announce_settled_def queue_webhook_def queue_payload_def send_customer_receipt_def
    receipts_disabled_for_store_def notify_own_store_settled_def
  by (intro steps_intros)

lemma settle_outcome:
  assumes "settle E C ev d p received expected tolerance src st wev s = (r, t)"
  shows "payments t = payments s
    \<and> (invoices t = invoices s
       \<or> invoices t = invoices (set_status (fmt_uuid E (pc_invoice ev)) st s)
         \<and> (received < expected \<longrightarrow>
              (\<exists>a \<in> set (allowances t). al_invoice a = fmt_uuid E (pc_invoice ev)
                 \<and> Some (al_shortfall a) = pg_numeric E 18 (dec_show E (expected - received)))))"
proof -
  let ?i = "fmt_uuid E (pc_invoice ev)"
  let ?noted = "\<lambda>u. received < expected \<longrightarrow> (\<exists>a \<in> set (allowances u). al_invoice a = ?i
                 \<and> Some (al_shortfall a) = pg_numeric E 18 (dec_show E (expected - received)))"
  have noted: "invoices u = invoices s \<and> payments u = payments s \<and> (x = Inr () \<longrightarrow> ?noted u)"
    if "record_allowance_if_short E ?i received expected tolerance src s = (x, u)" for x u
    using that unfolding record_allowance_if_short_def
    by (auto simp: prog_simps split: if_splits elim!: repo_E dest!: record_allowance_outcome
        simp: map_sum_def split: sum.splits)
  from assms show ?thesis
    unfolding settle_def Let_def
  proof (elim bindP_E)
    fix e assume "record_allowance_if_short E ?i received expected tolerance src s = (Inl e, t)"
    from noted[OF this] show ?thesis by simp
  next
    fix x u e
    assume a: "record_allowance_if_short E ?i received expected tolerance src s = (Inr x, u)"
      and "repo (update_status ?i st) u = (Inl e, t)"
    then show ?thesis using noted[OF a]
      by (auto elim!: repo_E update_status_outcome dest!: tables_sel)
  next
    fix x u y v
    assume a: "record_allowance_if_short E ?i received expected tolerance src s = (Inr x, u)"
      and b: "repo (update_status ?i st) u = (Inr y, v)"
      and c: "announce_settled E C ev d p st wev v = (r, t)"
    from repo_ok[OF b] have v: "tables v = tables (set_status ?i st u)"
      by (cases rule: update_status_outcome) auto
    have "tables t = tables (set_status ?i st u)"
      using same_tablesD[OF tables_announce c] v by simp
    from tables_sel[OF this] noted[OF a] show ?thesis by (simp add: set_status_def)
  qed
qed

lemma settlement_inputs_outcome:
  assumes "settlement_inputs E d s = (r, t)"
  shows "tables t = tables s"
    and "r = Inr (received, expected, tolerance, src) \<Longrightarrow>
      dec_parse E (inv_received d) = Some received \<and> dec_parse E (inv_amount d) = Some expected
      \<and> (\<exists>setting. effective_tolerance E setting = Inr (tolerance, src))"
proof -
  have "steps (same tables) (settlement_inputs E d)"
    unfolding settlement_inputs_def by (intro steps_intros)
  then show "tables t = tables s" using assms by (rule same_tablesD)
  assume "r = Inr (received, expected, tolerance, src)"
  with assms show "dec_parse E (inv_received d) = Some received \<and> dec_parse E (inv_amount d) = Some expected
      \<and> (\<exists>setting. effective_tolerance E setting = Inr (tolerance, src))"
    unfolding settlement_inputs_def
    by (auto simp: prog_simps split: option.splits sum.splits prod.splits elim!: bindP_E)
qed

section \<open>The handler\<close>

text \<open>The rows a confirmation touches: the payment found, with every payment of that identifier.\<close>

definition confirm_payment :: "uuid \<Rightarrow> timestamp \<Rightarrow> world \<Rightarrow> world" where
  "confirm_payment pid c s = update_payments (\<lambda>p. pay_id p = pid \<and> pay_confirmed_at p = None) (confirm_at c) s"

text \<open>What the handler found when it settled: the invoice row covers its amount, in a status that may settle.\<close>

definition settles :: "env \<Rightarrow> invoice_row \<Rightarrow> InvoiceStatus \<Rightarrow> rat \<Rightarrow> rat \<Rightarrow> bool" where
  "settles E d st received expected \<longleftrightarrow>
     (st = Paid \<and> (inv_status d = Processing \<or> inv_status d = PartiallyPaid)
        \<or> st = LatePaid \<and> inv_status d = Expired)
     \<and> dec_parse E (pg_text E 18 (inv_received d)) = Some received
     \<and> dec_parse E (pg_text E 18 (inv_amount d)) = Some expected
     \<and> (\<exists>tolerance src setting. effective_tolerance E setting = Inr (tolerance, src)
          \<and> is_fully_paid E received expected tolerance)"

definition allowance_noted :: "env \<Rightarrow> string \<Rightarrow> rat \<Rightarrow> world \<Rightarrow> bool" where
  "allowance_noted E i short s \<longleftrightarrow>
     (\<exists>a \<in> set (allowances s). al_invoice a = i \<and> Some (al_shortfall a) = pg_numeric E 18 (dec_show E short))"

lemma decide_outcome:
  assumes dec: "decide_settlement E C ev d p (received, expected, tolerance, src) s = (r, t)"
    and row: "try_row_to_invoice E row = Inr d"
    and amounts: "dec_parse E (inv_received d) = Some received" "dec_parse E (inv_amount d) = Some expected"
      "effective_tolerance E setting = Inr (tolerance, src)"
  shows "payments t = payments s \<and> (invoices t = invoices s
    \<or> (\<exists>st. settles E row st received expected
          \<and> invoices t = invoices (set_status (fmt_uuid E (pc_invoice ev)) st s)
          \<and> (received < expected \<longrightarrow> allowance_noted E (fmt_uuid E (pc_invoice ev)) (expected - received) t)))"
proof -
  note sel = try_row_to_invoice_sel[OF row]
  have settled: ?thesis if st: "settle E C ev d p received expected tolerance src st wev s = (r, t)"
      and paid: "is_fully_paid E received expected tolerance"
      and ok: "st = Paid \<and> (inv_status d = Processing \<or> inv_status d = PartiallyPaid)
        \<or> st = LatePaid \<and> inv_status d = Expired" for st wev
  proof -
    have "settles E row st received expected"
      unfolding settles_def using ok paid amounts sel by metis
    with settle_outcome[OF st] show ?thesis unfolding allowance_noted_def by blast
  qed
  show ?thesis
  proof (cases "is_fully_paid E received expected tolerance \<and> inv_status d \<in> {Processing, PartiallyPaid, Expired}")
    case True
    then show ?thesis using dec settled by (auto simp: decide_settlement_def)
  next
    case False
    then have "t = s" using dec
      by (cases "inv_status d") (auto simp: decide_settlement_def Let_def prog_simps)
    then show ?thesis by simp
  qed
qed

text \<open>The second half of the handler, from the world in which the payment is marked.\<close>

lemma reread_outcome:
  assumes prog: "bindP (repo (invoice_get E (fmt_uuid E (pc_invoice ev)))) (\<lambda>inv'.
       case inv' of None \<Rightarrow> errP EInvalidData
       | Some d \<Rightarrow> bindP (settlement_inputs E d) (decide_settlement E C ev d p)) v = (r, t)"
  defines "i \<equiv> fmt_uuid E (pc_invoice ev)"
  shows "payments t = payments v
    \<and> (invoices t = invoices v
       \<or> (\<exists>d \<in> set (invoices v). \<exists>st received expected. inv_id d = i \<and> settles E d st received expected
            \<and> invoices t = invoices (set_status i st v)
            \<and> (received < expected \<longrightarrow> allowance_noted E i (expected - received) t)))"
  using prog unfolding i_def[symmetric]
proof (cases rule: bindP_E)
  case (stop e)
  have "tables t = tables v" by (rule repo_read[OF tables_readers(1) stop(1)])
  then show ?thesis by (auto dest!: tables_sel)
next
  case get: (step inv' w)
  have w: "tables w = tables v" by (rule repo_read[OF tables_readers(1) get(1)])
  show ?thesis
  proof (cases inv')
    case None
    then show ?thesis using get(2) w by (auto simp: prog_simps dest!: tables_sel)
  next
    case (Some d)
    from invoice_get_found[OF repo_ok[OF get(1)[unfolded Some]]] obtain drow where
      drow: "drow \<in> set (invoices v)" "inv_id drow = i" "try_row_to_invoice E drow = Inr d" by blast
    from get(2) Some have "bindP (settlement_inputs E d) (decide_settlement E C ev d p) w = (r, t)" by simp
    then show ?thesis
    proof (cases rule: bindP_E)
      case (stop e)
      then show ?thesis using settlement_inputs_outcome(1)[OF stop(1)] w by (auto dest!: tables_sel)
    next
      case inputs: (step q z)
      obtain received expected tolerance src where q: "q = (received, expected, tolerance, src)"
        by (cases q) auto
      have z: "tables z = tables v" using settlement_inputs_outcome(1)[OF inputs(1)] w by simp
      from settlement_inputs_outcome(2)[OF inputs(1)] q obtain setting where
        amounts: "dec_parse E (inv_received d) = Some received" "dec_parse E (inv_amount d) = Some expected"
          "effective_tolerance E setting = Inr (tolerance, src)" by blast
      have st: "invoices (set_status i st z) = invoices (set_status i st v)" for st
        using tables_sel[OF tables_cong_write(1)[OF z]] by simp
      show ?thesis
        using decide_outcome[OF inputs(2)[unfolded q] drow(3) amounts, folded i_def] drow(1,2)
          tables_sel[OF z] unfolding st by (simp, blast)
    qed
  qed
qed

lemma confirmed_outcome:
  assumes "handle_payment_confirmed E C ev s = (r, t)"
  defines "i \<equiv> fmt_uuid E (pc_invoice ev)"
  shows "invoices t = invoices s \<and> payments t = payments s
    \<or> (\<exists>row \<in> set (payments s). \<exists>m. m = confirm_payment (pay_id row) (pc_confirmed_at ev) s
        \<and> pay_invoice row = i \<and> \<not> pay_reorged row \<and> payments t = payments m
        \<and> (invoices t = invoices m
           \<or> (\<exists>d \<in> set (invoices m). \<exists>st received expected. inv_id d = i \<and> settles E d st received expected
                \<and> invoices t = invoices (set_status i st m)
                \<and> (received < expected \<longrightarrow> allowance_noted E i (expected - received) t))))"
  using assms(1) unfolding handle_payment_confirmed_def Let_def i_def[symmetric]
proof (cases rule: bindP_E)
  case (stop e)
  have "tables t = tables s" by (rule repo_read[OF tables_reads(1) stop(1)])
  then show ?thesis by (auto dest!: tables_sel)
next
  case (step found u)
  have u: "tables u = tables s" by (rule repo_read[OF tables_reads(1) step(1)])
  show ?thesis
  proof (cases found)
    case None
    then show ?thesis using step(2) u by (auto simp: prog_simps dest!: tables_sel)
  next
    case (Some p)
    from get_by_tx_index_found[OF repo_ok[OF step(1)[unfolded Some]]] obtain row where
      row: "row \<in> set (payments s)" "p = try_row_to_payment E row" "pay_invoice row = i" "\<not> pay_reorged row"
      by blast
    have pid: "pay_id p = pay_id row" using row(2) by (simp add: try_row_to_payment_def)
    let ?m = "confirm_payment (pay_id row) (pc_confirmed_at ev) s"
    from step(2) Some pid have "thenP (repo (mark_confirmed (pay_id row) (pc_confirmed_at ev)))
        (bindP (repo (invoice_get E i)) (\<lambda>inv'. case inv' of None \<Rightarrow> errP EInvalidData
         | Some d \<Rightarrow> bindP (settlement_inputs E d) (decide_settlement E C ev d p))) u = (r, t)" by simp
    then show ?thesis
    proof (cases rule: bindP_E)
      case (stop e)
      then obtain e0 where "mark_confirmed (pay_id row) (pc_confirmed_at ev) u = (Inl e0, t)"
        using repo_err by blast
      then have "tables t = tables u" by (cases rule: mark_confirmed_outcome) auto
      then show ?thesis using u by (auto dest!: tables_sel)
    next
      case mark: (step x v)
      from repo_ok[OF mark(1)] have "tables v = tables (confirm_payment (pay_id row) (pc_confirmed_at ev) u)"
        by (cases rule: mark_confirmed_outcome) (auto simp: confirm_payment_def)
      then have v: "tables v = tables ?m"
        using tables_cong_write(2)[OF u] by (simp add: confirm_payment_def)
      have "invoices (set_status i st v) = invoices (set_status i st ?m)" for st
        using tables_sel[OF tables_cong_write(1)[OF v]] by simp
      then show ?thesis
        using reread_outcome[OF mark(2)[unfolded i_def]] row tables_sel[OF v] unfolding i_def by auto
    qed
  qed
qed

section \<open>Settling needs cover\<close>

text \<open>Marking a payment confirmed changes no invoice except that it may start the processing of one.\<close>

lemma credited_sum_confirm: "credited_sum (update_where P (confirm_at c) ps) i = credited_sum ps i"
  by (induction ps) (auto simp: credited_sum_def credits_def)

lemma confirm_payment_invoice:
  assumes inv: "ledger_inv s" and d: "d \<in> set (invoices (confirm_payment pid c s))"
  shows "\<exists>d0 \<in> set (invoices s). inv_id d0 = inv_id d \<and> inv_amount d0 = inv_amount d
    \<and> inv_received d0 = inv_received d
    \<and> (inv_status d = inv_status d0
       \<or> inv_status d0 = Pending \<and> inv_status d = Processing \<and> now s \<le> inv_expires_at d0)"
proof -
  let ?P = "\<lambda>p. pay_id p = pid \<and> pay_confirmed_at p = None"
  let ?ps = "update_where ?P (confirm_at c) (payments s)"
  obtain d0 where d0: "d0 \<in> set (invoices s)"
    "d = fold (trigger_row ?ps (now s)) (map (confirm_at c) (filter ?P (payments s))) d0"
    using d by (auto simp: confirm_payment_def update_payments_eq)
  have "ledger_inv (confirm_payment pid c s)"
    unfolding confirm_payment_def by (rule ledger_inv_update_payments[OF inv keeps_identity_confirm])
  then have "inv_received d = credited_sum ?ps (inv_id d)"
    using d by (auto simp: ledger_inv_def received_ok_def confirm_payment_def update_payments_eq)
  also have "\<dots> = credited_sum (payments s) (inv_id d)"
    by (rule credited_sum_confirm)
  finally have "inv_received d = inv_received d0"
    using inv d0 by (simp add: ledger_inv_def received_ok_def)
  moreover have "inv_status d = inv_status d0
       \<or> inv_status d0 = Pending \<and> inv_status d = Processing \<and> now s \<le> inv_expires_at d0"
    unfolding d0(2) fold_trigger_row_status by simp
  ultimately show ?thesis using d0 by auto
qed

text \<open>The decimal library and the numeric columns agree on the amounts of these invoices.\<close>

definition amounts_exact :: "env \<Rightarrow> world \<Rightarrow> bool" where
  "amounts_exact E s \<longleftrightarrow>
     (\<forall>d \<in> set (invoices s).
        dec_parse E (pg_text E 18 (inv_received d)) = Some (inv_received d)
        \<and> dec_parse E (pg_text E 18 (inv_amount d)) = Some (inv_amount d))"

lemma settles_bound:
  assumes "settles E d st received expected"
    and max: "dec_parse E MAX_TOLERANCE_PERCENT = Some (1/10)"
    and dflt: "dec_parse E DEFAULT_TOLERANCE_PERCENT = Some (1/10000)"
    and div: "\<And>v. dec_div E v 100 = v / 100" and pos: "0 \<le> expected"
  shows "expected - received \<le> expected / 1000"
proof -
  obtain tolerance src setting where eff: "effective_tolerance E setting = Inr (tolerance, src)"
    and paid: "is_fully_paid E received expected tolerance"
    using assms(1) by (auto simp: settles_def)
  have "tolerance \<le> 1/10" using effective_tolerance_bound[OF max dflt eff] by simp
  then have "expected * tolerance \<le> expected * (1/10)" using pos by (rule mult_left_mono)
  then show ?thesis using paid by (simp add: is_fully_paid_def div)
qed

lemma settled_outcome:
  assumes "handle_payment_confirmed E C ev s = (r, t)"
    and "invoices t \<noteq> invoices s" "\<And>pid c. invoices t \<noteq> invoices (confirm_payment pid c s)"
  obtains pid d st received expected where
    "d \<in> set (invoices (confirm_payment pid (pc_confirmed_at ev) s))" "inv_id d = fmt_uuid E (pc_invoice ev)"
    "settles E d st received expected"
    "invoices t = invoices (set_status (fmt_uuid E (pc_invoice ev)) st (confirm_payment pid (pc_confirmed_at ev) s))"
    "received < expected \<longrightarrow> allowance_noted E (fmt_uuid E (pc_invoice ev)) (expected - received) t"
  using confirmed_outcome[OF assms(1)] assms(2,3)
  by (elim disjE bexE exE conjE) (simp_all, metis)

text \<open>
  C1 (safety): A confirmation settles no invoice but the one it names, and settles that one only when what
  its valid payments credit falls short of its amount by at most a thousandth: an open invoice becomes
  paid, an expired one becomes late paid, and a shortfall is on record as an allowance.  This holds whether
  the handler succeeds or fails halfway.
\<close>

theorem settled_only_if_covered:
  assumes inv: "ledger_inv s" and exact: "amounts_exact E s"
    and max: "dec_parse E MAX_TOLERANCE_PERCENT = Some (1/10)"
    and dflt: "dec_parse E DEFAULT_TOLERANCE_PERCENT = Some (1/10000)"
    and div: "\<And>v. dec_div E v 100 = v / 100"
    and run: "handle_payment_confirmed E C ev s = (r, t)"
    and d: "d \<in> set (invoices t)" "inv_status d = Paid \<or> inv_status d = LatePaid" "0 \<le> inv_amount d"
    and new: "\<And>d0. d0 \<in> set (invoices s) \<Longrightarrow> inv_id d0 = inv_id d \<Longrightarrow> inv_status d0 \<noteq> inv_status d"
  shows "inv_id d = fmt_uuid E (pc_invoice ev)
    \<and> inv_received d = credited_sum (payments t) (inv_id d)
    \<and> inv_amount d - inv_received d \<le> inv_amount d / 1000
    \<and> (\<exists>d0 \<in> set (invoices s). inv_id d0 = inv_id d
        \<and> (if inv_status d = Paid then open_status (inv_status d0) else inv_status d0 = Expired))
    \<and> (inv_received d < inv_amount d \<longrightarrow> allowance_noted E (inv_id d) (inv_amount d - inv_received d) t)"
proof -
  let ?i = "fmt_uuid E (pc_invoice ev)"
  have "ledger_inv t"
    using steps_keptD[OF ledger_confirmed inv, of E C ev] run by simp
  then have sum: "inv_received d = credited_sum (payments t) (inv_id d)"
    using d(1) by (simp add: ledger_inv_def received_ok_def)
  have unchanged: False if "d \<in> set (invoices (confirm_payment pid c s))" for pid c
    using confirm_payment_invoice[OF inv that] new d(2) by auto
  have "invoices t \<noteq> invoices s" and "invoices t \<noteq> invoices (confirm_payment pid c s)" for pid c
    using d(1) new unchanged by (metis, metis)
  then obtain pid dm st received expected where
    dm: "dm \<in> set (invoices (confirm_payment pid (pc_confirmed_at ev) s))" "inv_id dm = ?i"
      "settles E dm st received expected"
      and t: "invoices t = invoices (set_status ?i st (confirm_payment pid (pc_confirmed_at ev) s))"
      and note': "received < expected \<longrightarrow> allowance_noted E ?i (expected - received) t"
    by (rule settled_outcome[OF run])
  let ?m = "confirm_payment pid (pc_confirmed_at ev) s"
  have ids: "distinct (map inv_id (invoices ?m))"
    using ledger_inv_update_payments[OF inv keeps_identity_confirm] unfolding confirm_payment_def ledger_inv_def
    by blast
  have "d \<notin> set (invoices ?m)" using unchanged by blast
  then obtain dm' where "dm' \<in> set (invoices ?m)" "inv_id dm' = ?i" and upd: "d = dm'\<lparr>inv_status := st\<rparr>"
    using d(1) unfolding t set_status_def by (auto simp: set_update_where split: if_splits)
  then have "dm' = dm" using ids dm by (metis eq_key_imp_eq_value map_of_eq_Some_iff distinct_map inj_on_def)
  with upd have d_eq: "inv_id d = ?i" "inv_amount d = inv_amount dm" "inv_received d = inv_received dm"
    "inv_status d = st" using dm(2) by simp_all
  from confirm_payment_invoice[OF inv dm(1)] obtain d0 where
    d0: "d0 \<in> set (invoices s)" "inv_id d0 = inv_id dm" "inv_amount d0 = inv_amount dm"
      "inv_received d0 = inv_received dm"
      "inv_status dm = inv_status d0 \<or> inv_status d0 = Pending \<and> inv_status dm = Processing" by blast
  have vals: "received = inv_received d" "expected = inv_amount d"
    using exact d0 dm(3) d_eq unfolding amounts_exact_def settles_def by (metis option.inject)+
  have "inv_amount d - inv_received d \<le> inv_amount d / 1000"
    using settles_bound[OF dm(3) max dflt div] d(3) unfolding vals .
  moreover have "if inv_status d = Paid then open_status (inv_status d0) else inv_status d0 = Expired"
    using dm(3) d0(5) d_eq(4) unfolding settles_def open_status_def by auto
  ultimately show ?thesis
    using d0(1,2) dm(2) note' sum unfolding vals d_eq(1) by (intro conjI bexI[of _ d0]) simp_all
qed

definition ex_paid :: invoice_row where
  "ex_paid = ex_invoice\<lparr>inv_status := Paid, inv_received := 100\<rparr>"

theorem settled_only_if_covered_witness:
  "inv_id ex_paid = fmt_uuid ex_env (pc_invoice ex_confirmed)
    \<and> inv_received ex_paid = credited_sum (payments ex_settled) (inv_id ex_paid)
    \<and> inv_amount ex_paid - inv_received ex_paid \<le> inv_amount ex_paid / 1000
    \<and> (\<exists>d0 \<in> set (invoices ex_processing). inv_id d0 = inv_id ex_paid
        \<and> (if inv_status ex_paid = Paid then open_status (inv_status d0) else inv_status d0 = Expired))"
proof -
  have inv: "ledger_inv ex_processing" by code_simp
  have exact: "amounts_exact ex_env ex_processing" by code_simp
  have max: "dec_parse ex_env MAX_TOLERANCE_PERCENT = Some (1 / 10)" by code_simp
  have dflt: "dec_parse ex_env DEFAULT_TOLERANCE_PERCENT = Some (1 / 10000)" by code_simp
  have div: "dec_div ex_env v 100 = v / 100" for v by (simp add: ex_env_def)
  have run: "handle_payment_confirmed ex_env ex_consumer ex_confirmed ex_processing
      = (fst (handle_payment_confirmed ex_env ex_consumer ex_confirmed ex_processing), ex_settled)"
    by (simp add: ex_settled_def)
  have mem: "ex_paid \<in> set (invoices ex_settled)" by code_simp
  have st: "inv_status ex_paid = Paid \<or> inv_status ex_paid = LatePaid" by (simp add: ex_paid_def)
  have pos: "0 \<le> inv_amount ex_paid" by (simp add: ex_paid_def ex_invoice_def)
  have "\<forall>d0 \<in> set (invoices ex_processing). inv_status d0 \<noteq> inv_status ex_paid" by code_simp
  then have new: "inv_status d0 \<noteq> inv_status ex_paid" if "d0 \<in> set (invoices ex_processing)" for d0
    using that by blast
  from settled_only_if_covered[OF inv exact max dflt div run mem st pos new] show ?thesis by blast
qed

section \<open>A confirmation delivered again\<close>

lemma confirmed_again:
  assumes q: "quiet s" and ids: "distinct (map pay_id (payments s))"
    and p: "find (\<lambda>p. pay_invoice p = fmt_uuid E (pc_invoice ev) \<and> pay_tx_hash p = fmt_b256 E (pc_tx_hash ev)
        \<and> pay_tx_index p = pc_tx_index ev \<and> \<not> pay_reorged p) (payments s) = Some p"
    and done': "pay_confirmed_at p \<noteq> None"
  shows "handle_payment_confirmed E C ev s = (Inl (EDatabase RNotFound), s)"
proof -
  have f: "faults s = []" using q by (simp add: quiet_def)
  have "\<forall>x \<in> set (payments s). \<not> (pay_id x = pay_id p \<and> pay_confirmed_at x = None)"
  proof (intro ballI notI)
    fix x assume "x \<in> set (payments s)" "pay_id x = pay_id p \<and> pay_confirmed_at x = None"
    then have "x = p" using ids find_SomeD[OF p] by (metis distinct_map inj_onD)
    with \<open>pay_id x = pay_id p \<and> pay_confirmed_at x = None\<close> done' show False by simp
  qed
  then have "mark_confirmed (pay_id p) c s = (Inl RNotFound, s)" for c
    using f unfolding mark_confirmed_def Let_def by (simp add: db_call_def)
  moreover have "get_by_tx_index E (fmt_uuid E (pc_invoice ev)) (fmt_b256 E (pc_tx_hash ev)) (pc_tx_index ev) s
      = (Inr (Some (try_row_to_payment E p)), s)"
    using f p by (simp add: get_by_tx_index_def db_call_def)
  moreover have "pay_id (try_row_to_payment E p) = pay_id p" by (simp add: try_row_to_payment_def)
  ultimately show ?thesis
    by (simp add: handle_payment_confirmed_def Let_def repo_def mapErrP_def bindP_def)
qed

text \<open>
  C11 (error): A confirmation of a payment that is already confirmed stops the consumer.  On a healthy
  database the envelope is not applied, the cursor stays before it, and nothing has changed, so every
  restart stops at the same envelope.
\<close>

theorem confirmation_redelivery_halts:
  assumes "quiet s" "ledger_inv s" "\<not> skipped C en" "en_event en = EPaymentConfirmed ev"
    and "find (\<lambda>p. pay_invoice p = fmt_uuid E (pc_invoice ev) \<and> pay_tx_hash p = fmt_b256 E (pc_tx_hash ev)
        \<and> pay_tx_index p = pc_tx_index ev \<and> \<not> pay_reorged p) (payments s) = Some p"
    and "pay_confirmed_at p \<noteq> None"
  shows "apply_envelope E C ep en k s = (Inl (Halted (en_chain en) (seq_of en)), s)"
proof -
  have "handle_event E C (en_event en) s = (Inl (EDatabase RNotFound), s)"
    using confirmed_again[OF assms(1) _ assms(5,6)] assms(2,4) by (simp add: ledger_inv_def)
  then show ?thesis
    using assms(3) by (simp add: apply_envelope_def apply_or_halt_def bindP_def tryP_def errP_def)
qed

definition ex_confirmation :: EventEnvelope where
  "ex_confirmation =
     \<lparr> en_cursor = \<lparr> ec_epoch = 7, ec_seq = 1, ec_height = 10 \<rparr>, en_chain = 1,
       en_event = EPaymentConfirmed ex_confirmed \<rparr>"

definition ex_confirmed_world :: world where
  "ex_confirmed_world = ex_processing\<lparr>payments := [ex_payment\<lparr>pay_confirmed_at := Some 480\<rparr>]\<rparr>"

theorem confirmation_redelivery_halts_witness:
  "apply_envelope ex_env ex_consumer 7 ex_confirmation [] ex_confirmed_world =
     (Inl (Halted (en_chain ex_confirmation) (seq_of ex_confirmation)), ex_confirmed_world)"
proof (rule confirmation_redelivery_halts)
  show "quiet ex_confirmed_world" by code_simp
  show "ledger_inv ex_confirmed_world" by code_simp
  show "\<not> skipped ex_consumer ex_confirmation" by code_simp
  show "en_event ex_confirmation = EPaymentConfirmed ex_confirmed" by (simp add: ex_confirmation_def)
  show "find (\<lambda>p. pay_invoice p = fmt_uuid ex_env (pc_invoice ex_confirmed)
      \<and> pay_tx_hash p = fmt_b256 ex_env (pc_tx_hash ex_confirmed)
      \<and> pay_tx_index p = pc_tx_index ex_confirmed \<and> \<not> pay_reorged p) (payments ex_confirmed_world)
      = Some (ex_payment\<lparr>pay_confirmed_at := Some 480\<rparr>)"
    by code_simp
  show "pay_confirmed_at (ex_payment\<lparr>pay_confirmed_at := Some 480\<rparr>) \<noteq> None" by simp
qed

end
