(* ===== verification/Reorg.thy ===== *)
theory Reorg
  imports Outcomes Event_Consumer
begin

text \<open>
  What a chain reorganisation does to the ledger.  The handler works invoice by invoice and payment by
  payment; its specification is one update: exactly the payments at or above the fork whose transaction
  did not survive are retracted, and each of their invoices is put back to where its remaining payments
  leave it, unless it is closed.
\<close>

section \<open>The specification\<close>

definition doomed_row :: "env \<Rightarrow> ReorgDetected \<Rightarrow> payment_row \<Rightarrow> bool" where
  "doomed_row E ev p \<longleftrightarrow>
     reorg_candidate (chain_evm E (rd_chain ev)) (rd_fork_block ev) p
     \<and> \<not> list_ex (\<lambda>h. tx_hash_eq E h (pay_tx_hash p)) (rd_survived ev)"

definition reorg_payments :: "env \<Rightarrow> ReorgDetected \<Rightarrow> world \<Rightarrow> payment_row list" where
  "reorg_payments E ev s = update_where (doomed_row E ev) retract (payments s)"

text \<open>Where an invoice is left when the payments are \<^verbatim>\<open>ps\<close>.\<close>

definition remaining_status :: "payment_row list \<Rightarrow> invoice_row \<Rightarrow> InvoiceStatus" where
  "remaining_status ps d =
     (if inv_status d \<in> {Refunded, Cancelled, Expired, LatePaid} then inv_status d
      else if list_ex (valid_payment_of (inv_id d)) ps then Processing else Pending)"

lemma closed_status_iff: "closed_status st \<longleftrightarrow> st \<in> {Refunded, Cancelled, Expired, LatePaid}"
  by (simp add: closed_status_def)

lemma remaining_status_eq:
  "remaining_status ps d =
     (if closed_status (inv_status d) then inv_status d
      else if list_ex (valid_payment_of (inv_id d)) ps then Processing else Pending)"
  by (simp add: remaining_status_def closed_status_iff)

definition reorg_invoice :: "env \<Rightarrow> ReorgDetected \<Rightarrow> world \<Rightarrow> invoice_row \<Rightarrow> invoice_row" where
  "reorg_invoice E ev s d =
     (if list_ex (\<lambda>p. doomed_row E ev p \<and> pay_invoice p = inv_id d) (payments s)
      then d\<lparr>inv_received := credited_sum (reorg_payments E ev s) (inv_id d),
             inv_status := remaining_status (reorg_payments E ev s) d\<rparr>
      else d)"

section \<open>Retracting payments\<close>

text \<open>An invoice apart from the amount the trigger maintains.\<close>

definition unsummed :: "invoice_row \<Rightarrow> invoice_row" where
  "unsummed d = d\<lparr>inv_received := 0\<rparr>"

lemma unsummed_sel [simp]:
  "inv_id (unsummed d) = inv_id d" "inv_status (unsummed d) = inv_status d"
  by (simp_all add: unsummed_def)

lemma unsummed_trigger: "pay_reorged q \<Longrightarrow> unsummed (trigger_row ps t q d) = unsummed d"
  by (simp add: trigger_row_def unsummed_def)

lemma unsummed_fold_trigger:
  "\<forall>q \<in> set qs. pay_reorged q \<Longrightarrow> unsummed (fold (trigger_row ps t) qs d) = unsummed d"
  by (induction qs arbitrary: d) (simp_all add: unsummed_trigger)

lemma retract_reorged [simp]: "pay_reorged (retract p)" "pay_id (retract p) = pay_id p"
  "pay_invoice (retract p) = pay_invoice p"
  by (simp_all add: retract_def)

lemma retract_frame:
  "payments (update_payments P retract s) = update_where P retract (payments s)"
  "map unsummed (invoices (update_payments P retract s)) = map unsummed (invoices s)"
  by (simp_all add: update_payments_eq unsummed_fold_trigger comp_def)

text \<open>The payments with these identifiers, retracted.\<close>

definition retract_ids :: "uuid set \<Rightarrow> payment_row list \<Rightarrow> payment_row list" where
  "retract_ids K = update_where (\<lambda>p. pay_id p \<in> K \<and> \<not> pay_reorged p) retract"

lemma retract_ids_empty [simp]: "retract_ids {} ps = ps"
  by (induction ps) (simp_all add: retract_ids_def)

lemma retract_ids_one: "update_where (\<lambda>q. pay_id q = i \<and> \<not> pay_reorged q) retract ps = retract_ids {i} ps"
  by (simp add: retract_ids_def)

lemma retract_ids_union: "retract_ids K (retract_ids L ps) = retract_ids (L \<union> K) ps"
  by (induction ps) (auto simp: retract_ids_def)

lemma retract_each_outcome:
  assumes "iterP (\<lambda>p. repo (mark_payment_reorged (pay_id p))) ps s = (r, t)"
  shows "\<exists>K. K \<subseteq> pay_id ` set ps \<and> (r = Inr () \<longrightarrow> K = pay_id ` set ps)
    \<and> payments t = retract_ids K (payments s) \<and> map unsummed (invoices t) = map unsummed (invoices s)"
  using assms
proof (induction ps arbitrary: s)
  case Nil
  then show ?case by (intro exI[of _ "{}"]) (simp add: prog_simps)
next
  case (Cons p ps)
  from Cons.prems show ?case unfolding iterP.simps
  proof (cases rule: bindP_E)
    case (stop e)
    then obtain e0 where "mark_payment_reorged (pay_id p) s = (Inl e0, t)" using repo_err by blast
    then have "tables t = tables s" by (cases rule: mark_payment_reorged_outcome) auto
    then show ?thesis using stop(2) by (intro exI[of _ "{}"]) (auto dest!: tables_sel)
  next
    case (step x u)
    from repo_ok[OF step(1)]
    have u: "tables u = tables (update_payments (\<lambda>q. pay_id q = pay_id p \<and> \<not> pay_reorged q) retract s)"
      by (cases rule: mark_payment_reorged_outcome) auto
    from Cons.IH[OF step(2)] obtain K where
      K: "K \<subseteq> pay_id ` set ps" "r = Inr () \<longrightarrow> K = pay_id ` set ps"
        "payments t = retract_ids K (payments u)" "map unsummed (invoices t) = map unsummed (invoices u)"
      by blast
    have "payments u = retract_ids {pay_id p} (payments s)" "map unsummed (invoices u) = map unsummed (invoices s)"
      using tables_sel[OF u] by (simp_all add: retract_frame retract_ids_one)
    then have "payments t = retract_ids (insert (pay_id p) K) (payments s)"
      "map unsummed (invoices t) = map unsummed (invoices s)"
      using K(3,4) by (simp_all add: retract_ids_union)
    then show ?thesis using K(1,2) by (intro exI[of _ "insert (pay_id p) K"]) auto
  qed
qed

section \<open>One invoice\<close>

lemma set_status_unsummed:
  "map unsummed (invoices (set_status i st s)) =
     map (\<lambda>d. if inv_id d = i then d\<lparr>inv_status := st\<rparr> else d) (map unsummed (invoices s))"
  by (simp add: set_status_def update_where_def unsummed_def)

lemma apply_reorg_status_outcome:
  assumes "apply_reorg_status E i st s = (r, t)"
  shows "payments t = payments s
    \<and> (invoices t = invoices s \<and>
         (\<forall>st'. r = Inr st' \<longrightarrow> (\<exists>d \<in> set (invoices s). inv_id d = i \<and> closed_status (inv_status d)))
       \<or> (\<exists>d \<in> set (invoices s). inv_id d = i \<and> \<not> closed_status (inv_status d))
         \<and> invoices t = invoices (set_status i st s))"
  using assms unfolding apply_reorg_status_def
proof (cases rule: bindP_E)
  case (stop e)
  have "tables t = tables s" by (rule repo_read[OF tables_readers(1) stop(1)])
  then show ?thesis using stop(2) by (auto dest!: tables_sel)
next
  case (step found u)
  have u: "tables u = tables s" by (rule repo_read[OF tables_readers(1) step(1)])
  show ?thesis
  proof (cases found)
    case None
    then show ?thesis using step(2) u by (auto simp: prog_simps dest!: tables_sel)
  next
    case (Some d)
    from invoice_get_found[OF repo_ok[OF step(1)[unfolded Some]]] obtain row where
      row: "row \<in> set (invoices s)" "inv_id row = i" "try_row_to_invoice E row = Inr d" by blast
    have st: "inv_status d = inv_status row" by (rule try_row_to_invoice_sel(2)[OF row(3)])
    show ?thesis
    proof (cases "closed_status (inv_status d)")
      case True
      then have "tables t = tables s" using step(2) Some u by (simp add: prog_simps)
      then show ?thesis using row(1,2) True st by (auto dest!: tables_sel)
    next
      case False
      then have "thenP (repo (update_status i st)) (okP st) u = (r, t)" using step(2) Some by simp
      then show ?thesis
      proof (cases rule: bindP_E)
        case (stop e)
        then obtain e0 where "update_status i st u = (Inl e0, t)" using repo_err by blast
        then have "tables t = tables s" using u by (cases rule: update_status_outcome) auto
        then show ?thesis using stop(2) by (auto dest!: tables_sel)
      next
        case upd: (step x v)
        from repo_ok[OF upd(1)] have "tables v = tables (set_status i st u)"
          by (cases rule: update_status_outcome) auto
        then have "tables t = tables (set_status i st s)"
          using tables_cong_write(1)[OF u] upd(2) by (simp add: prog_simps)
        from tables_sel[OF this] show ?thesis using row(1,2) False st by (auto simp: set_status_def)
      qed
    qed
  qed
qed

lemma tables_reorg_notices:
  "steps (same tables) (thenP (if ws then send_for_invoice E i u else okP ()) (notify_reorg E C i ps))"
  unfolding notify_reorg_def queue_payload_def by (intro steps_intros)

lemma same_unsummed_status:
  assumes "map unsummed xs = map unsummed ys" "d \<in> set xs"
  shows "\<exists>d' \<in> set ys. inv_id d' = inv_id d \<and> inv_status d' = inv_status d"
proof -
  have "unsummed d \<in> unsummed ` set ys" using assms by (metis image_eqI set_map)
  then show ?thesis by (metis imageE unsummed_sel)
qed

lemma turn_invoices:
  assumes a: "apply_reorg_status E i (if list_ex (valid_payment_of i) (payments u) then Processing else Pending) v = (ra, w)"
    and t: "tables t = tables w" and v: "tables v = tables u" and u: "payments u = ps"
      "map unsummed (invoices u) = map unsummed (invoices s)"
    and ids: "distinct (map inv_id (invoices s))" and ok: "r = Inr () \<longrightarrow> (\<exists>st. ra = Inr st)"
  shows "map unsummed (invoices t) = map unsummed (invoices s) \<and> r \<noteq> Inr ()
    \<or> i \<in> inv_id ` set (invoices s) \<and> map unsummed (invoices t) =
        map (\<lambda>d. if inv_id d = i then unsummed (d\<lparr>inv_status := remaining_status (payments t) d\<rparr>) else unsummed d)
          (invoices s)"
proof -
  let ?st = "if list_ex (valid_payment_of i) (payments u) then Processing else Pending"
  let ?turn = "\<lambda>d. if inv_id d = i then unsummed (d\<lparr>inv_status := remaining_status (payments t) d\<rparr>) else unsummed d"
  note out = apply_reorg_status_outcome[OF a]
  have pt: "payments t = payments u" and it: "invoices t = invoices w" and iv: "invoices v = invoices u"
    using out tables_sel[OF t] tables_sel[OF v] by simp_all
  have i_known: "i \<in> inv_id ` set (invoices s)" if "d \<in> set (invoices v)" "inv_id d = i" for d
    using same_unsummed_status[OF u(2)] that unfolding iv by (metis image_eqI)
  have only: "d' = d" if "d \<in> set (invoices s)" "d' \<in> set (invoices s)" "inv_id d' = inv_id d" for d d'
    using ids that by (metis distinct_map inj_onD)
  have same: "inv_status x = inv_status d"
    if "d \<in> set (invoices v)" "inv_id d = i" "x \<in> set (invoices s)" "inv_id x = i" for d x
    using same_unsummed_status[OF u(2)] that only unfolding iv by metis
  from out consider (failed) "invoices w = invoices v" "r \<noteq> Inr ()"
    | (closed) d where "d \<in> set (invoices v)" "inv_id d = i" "closed_status (inv_status d)" "invoices w = invoices v"
    | (opened) d where "d \<in> set (invoices v)" "inv_id d = i" "\<not> closed_status (inv_status d)"
        "invoices w = invoices (set_status i ?st v)"
    using ok by blast
  then show ?thesis
  proof cases
    case failed
    then show ?thesis using it iv u(2) by simp
  next
    case closed
    have "remaining_status ps' x = inv_status x" if "x \<in> set (invoices s)" "inv_id x = i" for x ps'
      using same[OF closed(1,2) that] closed(3) by (simp add: remaining_status_eq)
    then have "map unsummed (invoices t) = map ?turn (invoices s)"
      unfolding it closed(4) iv u(2) by (intro map_cong) (auto simp: unsummed_def)
    then show ?thesis using i_known closed(1,2) by blast
  next
    case opened
    have "remaining_status (payments t) x = ?st" if "x \<in> set (invoices s)" "inv_id x = i" for x
      using same[OF opened(1,2) that] opened(3) that by (simp add: remaining_status_eq pt)
    then have "map unsummed (invoices t) = map ?turn (invoices s)"
      unfolding it opened(4) set_status_unsummed iv u(2) by (auto simp: unsummed_def)
    then show ?thesis using i_known opened(1,2) by blast
  qed
qed

text \<open>The whole of one invoice's turn: the payments first, then the status; on failure, a part of it.\<close>

lemma retract_invoice_outcome:
  assumes "retract_invoice E C D i s = (r, t)" and ids: "distinct (map inv_id (invoices s))"
  defines "K \<equiv> pay_id ` {p \<in> set D. pay_invoice p = i}"
  shows "(\<exists>L \<subseteq> K. payments t = retract_ids L (payments s) \<and> (r = Inr () \<longrightarrow> L = K))
    \<and> (map unsummed (invoices t) = map unsummed (invoices s) \<and> r \<noteq> Inr ()
       \<or> (i \<in> inv_id ` set (invoices s) \<and>
          map unsummed (invoices t) =
            map (\<lambda>d. if inv_id d = i then unsummed (d\<lparr>inv_status := remaining_status (payments t) d\<rparr>) else unsummed d)
              (invoices s)))"
proof -
  let ?turn = "\<lambda>ps d. if inv_id d = i then unsummed (d\<lparr>inv_status := remaining_status ps d\<rparr>) else unsummed d"
  have K: "K = pay_id ` set (filter (\<lambda>p. pay_invoice p = i) D)" by (simp add: K_def)
  from assms(1) show ?thesis unfolding retract_invoice_def Let_def
  proof (cases rule: bindP_E)
    case (stop e)
    from retract_each_outcome[OF stop(1)] show ?thesis using stop(2) unfolding K by blast
  next
    case (step x u)
    from retract_each_outcome[OF step(1)]
    have u: "payments u = retract_ids K (payments s)" "map unsummed (invoices u) = map unsummed (invoices s)"
      unfolding K by auto
    from step(2) show ?thesis
    proof (cases rule: bindP_E)
      case (stop e)
      have "tables t = tables u" by (rule repo_read[OF tables_reads(3) stop(1)])
      then have "payments t = retract_ids K (payments s)" "map unsummed (invoices t) = map unsummed (invoices s)"
        using tables_sel[of t u] u by simp_all
      then show ?thesis using stop(2) by blast
    next
      case valid: (step hv v)
      have v: "tables v = tables u" by (rule repo_read[OF tables_reads(3) valid(1)])
      have hv: "hv = list_ex (valid_payment_of i) (payments u)"
        using repo_ok[OF valid(1)] unfolding has_valid_payments_def by (elim db_call_outcome) auto
      have "(\<exists>ra w. apply_reorg_status E i (if hv then Processing else Pending) v = (ra, w)
          \<and> tables t = tables w \<and> (r = Inr () \<longrightarrow> (\<exists>st. ra = Inr st)))"
        using valid(2)
      proof (cases rule: bindP_E)
        case (step st w)
        then show ?thesis using same_tablesD[OF tables_reorg_notices] by blast
      qed auto
      then obtain ra w where a: "apply_reorg_status E i (if hv then Processing else Pending) v = (ra, w)"
        and t: "tables t = tables w" and ok: "r = Inr () \<longrightarrow> (\<exists>st. ra = Inr st)" by blast
      have pay: "payments t = retract_ids K (payments s)"
        using apply_reorg_status_outcome[OF a] tables_sel[OF t] tables_sel[OF v] u(1) by simp
      have "map unsummed (invoices t) = map unsummed (invoices s) \<and> r \<noteq> Inr ()
        \<or> i \<in> inv_id ` set (invoices s) \<and> map unsummed (invoices t) = map (?turn (payments t)) (invoices s)"
        by (rule turn_invoices[OF a[unfolded hv] t v u ids ok])
      then show ?thesis using pay by blast
    qed
  qed
qed

section \<open>The whole handler\<close>

text \<open>The payments the handler works on name the invoice of the row they were read from.\<close>

definition reads_of :: "PaymentData list \<Rightarrow> world \<Rightarrow> bool" where
  "reads_of D s \<longleftrightarrow>
     distinct (map inv_id (invoices s))
     \<and> (\<forall>p \<in> set (payments s). \<forall>q \<in> set D. pay_id p = pay_id q \<longrightarrow> pay_invoice p = pay_invoice q)"

abbreviation ids_of :: "PaymentData list \<Rightarrow> string set \<Rightarrow> uuid set" where
  "ids_of D I \<equiv> pay_id ` {p \<in> set D. pay_invoice p \<in> I}"

lemma ids_same: "map unsummed xs = map unsummed ys \<Longrightarrow> map inv_id xs = map inv_id ys"
  by (metis (no_types, lifting) comp_apply map_eq_conv map_map unsummed_sel(1) list.map_comp)

lemma remaining_other:
  assumes reads: "reads_of D s" and i: "i \<notin> I" "inv_id d = i"
  shows "remaining_status (retract_ids (ids_of D I) (payments s)) d = remaining_status (payments s) d"
proof -
  have "list_ex (valid_payment_of i) (retract_ids (ids_of D I) ps) = list_ex (valid_payment_of i) ps"
    if "set ps \<subseteq> set (payments s)" for ps
    using that
  proof (induction ps)
    case (Cons p ps)
    have "pay_invoice p \<noteq> i" if "pay_id p \<in> ids_of D I"
      using that reads Cons.prems i(1) by (auto simp: reads_of_def)
    then show ?case using Cons by (auto simp: retract_ids_def valid_payment_of_def)
  qed (simp add: retract_ids_def)
  then show ?thesis using i(2) by (simp add: remaining_status_eq)
qed

text \<open>What a turn leaves of an invoice depends on the invoice without its sum.\<close>

definition turned :: "string set \<Rightarrow> payment_row list \<Rightarrow> invoice_row \<Rightarrow> invoice_row" where
  "turned I ps d = (if inv_id d \<in> I then d\<lparr>inv_status := remaining_status ps d\<rparr> else d)"

lemma turned_unsummed: "turned I ps (unsummed d) = unsummed (turned I ps d)"
  by (simp add: turned_def unsummed_def remaining_status_eq)

lemma turned_sel [simp]: "inv_id (turned I ps d) = inv_id d"
  by (simp add: turned_def)

lemma reads_of_step:
  assumes "reads_of D s" "payments t = retract_ids L (payments s)" "map inv_id (invoices t) = map inv_id (invoices s)"
  shows "reads_of D t"
  using assms by (auto simp: reads_of_def retract_ids_def set_update_where)

lemma retract_invoice_turn:
  assumes "retract_invoice E C D i s = (Inr (), t)" "reads_of D s"
  shows "payments t = retract_ids (ids_of D {i}) (payments s)" "i \<in> inv_id ` set (invoices s)"
    "map unsummed (invoices t) = map (unsummed \<circ> turned {i} (payments t)) (invoices s)" "reads_of D t"
proof -
  have ids: "distinct (map inv_id (invoices s))" using assms(2) by (simp add: reads_of_def)
  note out = retract_invoice_outcome[OF assms(1) ids]
  show p: "payments t = retract_ids (ids_of D {i}) (payments s)" and "i \<in> inv_id ` set (invoices s)"
    using out by auto
  have "(if inv_id d = i then unsummed (d\<lparr>inv_status := remaining_status (payments t) d\<rparr>) else unsummed d)
      = (unsummed \<circ> turned {i} (payments t)) d" for d
    by (simp add: turned_def)
  with out show inv: "map unsummed (invoices t) = map (unsummed \<circ> turned {i} (payments t)) (invoices s)"
    by simp
  have "map inv_id (map unsummed (invoices t)) = map inv_id (invoices s)" unfolding inv by simp
  then have "map inv_id (invoices t) = map inv_id (invoices s)" by (simp add: comp_def)
  then show "reads_of D t" by (rule reads_of_step[OF assms(2) p])
qed

lemma ids_of_union: "ids_of D {i} \<union> ids_of D (set Is) = ids_of D (set (i # Is))"
  by auto

lemma retract_all_success:
  assumes "iterP (retract_invoice E C D) Is s = (Inr (), t)" "reads_of D s" "distinct Is"
  shows "payments t = retract_ids (ids_of D (set Is)) (payments s)
    \<and> map unsummed (invoices t) = map (unsummed \<circ> turned (set Is) (payments t)) (invoices s)"
  using assms
proof (induction Is arbitrary: s)
  case Nil
  then show ?case by (auto simp: prog_simps turned_def comp_def)
next
  case (Cons i Is)
  from Cons.prems(1) obtain u where u: "retract_invoice E C D i s = (Inr (), u)"
    and rest: "iterP (retract_invoice E C D) Is u = (Inr (), t)"
    by (auto simp: bindP_Inr_iff)
  note turn = retract_invoice_turn[OF u Cons.prems(2)]
  have IH: "payments t = retract_ids (ids_of D (set Is)) (payments u)"
    "map unsummed (invoices t) = map (unsummed \<circ> turned (set Is) (payments t)) (invoices u)"
    using Cons.IH[OF rest turn(4)] Cons.prems(3) by auto
  have both: "turned (set Is) (payments t) (turned {i} (payments u) d) = turned (set (i # Is)) (payments t) d" for d
  proof (cases "inv_id d = i")
    case True
    then show ?thesis
      using remaining_other[OF turn(4) _ True, of "set Is"] Cons.prems(3) IH(1) by (simp add: turned_def)
  qed (simp add: turned_def)
  have "map (unsummed \<circ> turned (set Is) (payments t)) (invoices u)
      = map (turned (set Is) (payments t)) (map unsummed (invoices u))"
    by (simp add: turned_unsummed)
  also have "\<dots> = map (unsummed \<circ> turned (set (i # Is)) (payments t)) (invoices s)"
    unfolding turn(3) using both by (simp add: turned_unsummed)
  finally have "map (unsummed \<circ> turned (set Is) (payments t)) (invoices u)
      = map (unsummed \<circ> turned (set (i # Is)) (payments t)) (invoices s)" .
  moreover have "payments t = retract_ids (ids_of D (set (i # Is))) (payments s)"
    unfolding IH(1) turn(1) retract_ids_union ids_of_union ..
  ultimately show ?case using IH(2) by simp
qed

definition doomed :: "env \<Rightarrow> ReorgDetected \<Rightarrow> world \<Rightarrow> PaymentData list" where
  "doomed E ev s = map (try_row_to_payment E) (filter (doomed_row E ev) (payments s))"

lemma try_row_to_payment_sel [simp]:
  "pay_id (try_row_to_payment E p) = pay_id p" "pay_invoice (try_row_to_payment E p) = pay_invoice p"
  "pay_tx_hash (try_row_to_payment E p) = pay_tx_hash p"
  by (simp_all add: try_row_to_payment_def)

lemma reorg_candidates_found:
  assumes "reorg_candidates E (chain_evm E (rd_chain ev)) (rd_fork_block ev) s = (Inr ps, t)"
  shows "filter (\<lambda>p. \<not> survived E ev p) ps = doomed E ev s"
  using assms unfolding reorg_candidates_def
  by (elim db_call_outcome)
     (auto simp: doomed_def doomed_row_def survived_def filter_map comp_def conj_commute intro!: arg_cong[where f = "map _"] filter_cong)

lemma doomed_reads:
  assumes "ledger_inv s" shows "reads_of (doomed E ev s) s"
proof -
  have "distinct (map pay_id (payments s))" using assms by (simp add: ledger_inv_def)
  then have "p = q" if "p \<in> set (payments s)" "q \<in> set (payments s)" "pay_id p = pay_id q" for p q
    using that by (metis distinct_map inj_onD)
  then show ?thesis using assms by (fastforce simp: reads_of_def doomed_def ledger_inv_def)
qed

lemma reorg_payments_ids:
  assumes "ledger_inv s"
  shows "retract_ids (pay_id ` set (doomed E ev s)) (payments s) = reorg_payments E ev s"
proof -
  have dist: "inj_on pay_id (set (payments s))" using assms by (simp add: ledger_inv_def distinct_map)
  have "pay_id p \<in> pay_id ` set (doomed E ev s) \<and> \<not> pay_reorged p \<longleftrightarrow> doomed_row E ev p"
    if p: "p \<in> set (payments s)" for p
  proof
    assume "pay_id p \<in> pay_id ` set (doomed E ev s) \<and> \<not> pay_reorged p"
    then obtain q where "q \<in> set (payments s)" "doomed_row E ev q" "pay_id p = pay_id q"
      by (auto simp: doomed_def)
    with p dist show "doomed_row E ev p" by (metis inj_onD)
  next
    assume d: "doomed_row E ev p"
    then have "pay_id p \<in> pay_id ` set (doomed E ev s)" using p by (force simp: doomed_def image_iff)
    then show "pay_id p \<in> pay_id ` set (doomed E ev s) \<and> \<not> pay_reorged p"
      using d by (simp add: doomed_row_def reorg_candidate_def)
  qed
  then show ?thesis by (simp add: retract_ids_def reorg_payments_def update_where_def)
qed

lemma resummed: "unsummed x = unsummed y \<Longrightarrow> x = y\<lparr>inv_received := inv_received x\<rparr>"
  by (cases x; cases y) (simp add: unsummed_def)

lemma resum_all:
  assumes "map unsummed xs = map (unsummed \<circ> f) ys" and "\<forall>x \<in> set xs. inv_received x = g (inv_id x)"
    and "\<And>y. inv_id (f y) = inv_id y"
  shows "xs = map (\<lambda>y. (f y)\<lparr>inv_received := g (inv_id y)\<rparr>) ys"
proof (rule nth_equalityI)
  show len: "length xs = length (map (\<lambda>y. (f y)\<lparr>inv_received := g (inv_id y)\<rparr>) ys)"
    using assms(1) by (metis length_map)
  fix k assume k: "k < length xs"
  then have u: "unsummed (xs ! k) = unsummed (f (ys ! k))"
    using assms(1) len by (metis (no_types, lifting) comp_apply length_map nth_map)
  then have "inv_id (xs ! k) = inv_id (ys ! k)" using assms(3) by (metis unsummed_sel(1))
  then have "xs ! k = (f (ys ! k))\<lparr>inv_received := g (inv_id (ys ! k))\<rparr>"
    using resummed[OF u] assms(2) k by simp
  then show "xs ! k = map (\<lambda>y. (f y)\<lparr>inv_received := g (inv_id y)\<rparr>) ys ! k" using k len by simp
qed

lemma reorg_program:
  assumes run: "handle_reorg_detected E C ev s = (r, t)" and v: "rd_verifiable ev"
  obtains (unread) e where "r = Inl e" "tables t = tables s"
    | (loop) u where "tables u = tables s"
        "iterP (retract_invoice E C (doomed E ev s)) (hash_order E (remdups (map pay_invoice (doomed E ev s)))) u = (r, t)"
proof -
  from run v have "bindP (repo (reorg_candidates E (chain_evm E (rd_chain ev)) (rd_fork_block ev))) (\<lambda>candidates.
        iterP (retract_invoice E C (filter (\<lambda>p. \<not> survived E ev p) candidates))
          (hash_order E (remdups (map pay_invoice (filter (\<lambda>p. \<not> survived E ev p) candidates))))) s = (r, t)"
    by (simp add: handle_reorg_detected_def Let_def)
  then show thesis
  proof (cases rule: bindP_E)
    case (stop e)
    show ?thesis by (rule unread[OF stop(2) repo_read[OF tables_reads(2) stop(1)]])
  next
    case (step ps u)
    show ?thesis
      by (rule loop[OF repo_read[OF tables_reads(2) step(1)]])
         (use step(2) reorg_candidates_found[OF repo_ok[OF step(1)]] in simp)
  qed
qed

section \<open>Every outcome\<close>

definition closed_kept :: "invoice_row list \<Rightarrow> invoice_row list \<Rightarrow> bool" where
  "closed_kept = list_all2 (\<lambda>d d'. inv_id d' = inv_id d \<and> (closed_status (inv_status d) \<longrightarrow> inv_status d' = inv_status d))"

lemma closed_kept_trans: "closed_kept xs ys \<Longrightarrow> closed_kept ys zs \<Longrightarrow> closed_kept xs zs"
  unfolding closed_kept_def by (erule (1) list_all2_trans[rotated]) auto

lemma closed_kept_unsummed: "closed_kept (map unsummed xs) (map unsummed ys) = closed_kept xs ys"
  by (simp add: closed_kept_def list_all2_map1 list_all2_map2)

lemma closed_kept_ids: "closed_kept xs ys \<Longrightarrow> map inv_id ys = map inv_id xs"
  unfolding closed_kept_def by (induction rule: list_all2_induct) auto

lemma closed_kept_mem:
  "closed_kept xs ys \<Longrightarrow> d \<in> set xs \<Longrightarrow> closed_status (inv_status d) \<Longrightarrow>
   \<exists>d' \<in> set ys. inv_id d' = inv_id d \<and> inv_status d' = inv_status d"
  unfolding closed_kept_def by (induction rule: list_all2_induct) auto

lemma closed_kept_map: "(\<And>d. inv_id (f d) = inv_id d \<and> (closed_status (inv_status d) \<longrightarrow> inv_status (f d) = inv_status d)) \<Longrightarrow>
   closed_kept xs (map f xs)"
  by (simp add: closed_kept_def list_all2_map2 list.rel_refl)

lemma retract_invoice_any:
  assumes run: "retract_invoice E C D i s = (r, t)" and reads: "reads_of D s"
  shows "(\<exists>L \<subseteq> pay_id ` set D. payments t = retract_ids L (payments s)) \<and> closed_kept (invoices s) (invoices t)
    \<and> reads_of D t"
proof -
  have ids: "distinct (map inv_id (invoices s))" using reads by (simp add: reads_of_def)
  note out = retract_invoice_outcome[OF run ids]
  have "closed_kept (map unsummed (invoices s)) (map unsummed (invoices t))"
  proof (cases "map unsummed (invoices t) = map unsummed (invoices s)")
    case True
    then show ?thesis using closed_kept_map[of id] by simp
  next
    case False
    have eq: "(if inv_id d = i then unsummed (d\<lparr>inv_status := remaining_status (payments t) d\<rparr>) else unsummed d)
        = (unsummed \<circ> turned {i} (payments t)) d" for d
      by (simp add: turned_def)
    from False out have "map unsummed (invoices t) = map unsummed (map (turned {i} (payments t)) (invoices s))"
      unfolding eq by simp
    moreover have "closed_kept (invoices s) (map (turned {i} (payments t)) (invoices s))"
      by (rule closed_kept_map) (simp add: turned_def remaining_status_eq)
    ultimately show ?thesis using closed_kept_unsummed by metis
  qed
  then have kept: "closed_kept (invoices s) (invoices t)" by (simp add: closed_kept_unsummed)
  from out obtain L where L: "L \<subseteq> pay_id ` {p \<in> set D. pay_invoice p = i}" "payments t = retract_ids L (payments s)"
    by blast
  have "reads_of D t" by (rule reads_of_step[OF reads L(2) closed_kept_ids[OF kept]])
  moreover have "L \<subseteq> pay_id ` set D" using L(1) by auto
  ultimately show ?thesis using kept L(2) by (intro conjI exI[of _ L]) simp_all
qed

lemma retract_all_any:
  assumes "iterP (retract_invoice E C D) Is s = (r, t)" "reads_of D s"
  shows "(\<exists>L \<subseteq> pay_id ` set D. payments t = retract_ids L (payments s)) \<and> closed_kept (invoices s) (invoices t)"
  using assms
proof (induction Is arbitrary: s)
  case Nil
  then show ?case using closed_kept_map[of id "invoices s"]
    by (auto simp: prog_simps intro!: exI[of _ "{}"])
next
  case (Cons i Is)
  from Cons.prems(1) show ?case unfolding iterP.simps
  proof (cases rule: bindP_E)
    case (stop e)
    then show ?thesis using retract_invoice_any[OF stop(1) Cons.prems(2)] by blast
  next
    case (step x u)
    from retract_invoice_any[OF step(1) Cons.prems(2)] obtain K where
      K: "K \<subseteq> pay_id ` set D" "payments u = retract_ids K (payments s)" "closed_kept (invoices s) (invoices u)"
        "reads_of D u" by blast
    from Cons.IH[OF step(2) K(4)] obtain L where
      L: "L \<subseteq> pay_id ` set D" "payments t = retract_ids L (payments u)" "closed_kept (invoices u) (invoices t)" by blast
    have "payments t = retract_ids (K \<union> L) (payments s)" unfolding L(2) K(2) retract_ids_union ..
    then show ?thesis using K(1) L(1) closed_kept_trans[OF K(3) L(3)] by (intro conjI exI[of _ "K \<union> L"]) auto
  qed
qed

text \<open>
  C2 (refinement): When the monitor could check for survivors and the handler succeeds, the ledger is
  exactly what the specification says: the payments at or above the fork that did not survive are
  retracted, all others are as they were, and each invoice of a retracted payment has the sum of its
  remaining payments and the status they leave it in, a closed invoice keeping its own.
\<close>

theorem reorg_refines_spec:
  assumes inv: "ledger_inv s"
    and order: "\<And>xs. distinct xs \<Longrightarrow> distinct (hash_order E xs) \<and> set (hash_order E xs) = set xs"
    and run: "handle_reorg_detected E C ev s = (Inr (), t)" and v: "rd_verifiable ev"
  shows "payments t = reorg_payments E ev s \<and> invoices t = map (reorg_invoice E ev s) (invoices s)"
  using run v
proof (cases rule: reorg_program)
  case (loop u)
  let ?D = "doomed E ev s" and ?Is = "hash_order E (remdups (map pay_invoice (doomed E ev s)))"
  have Is: "distinct ?Is" "set ?Is = pay_invoice ` set ?D" using order by simp_all
  have eq: "invoices u = invoices s" "payments u = payments s" using tables_sel[OF loop(1)] by simp_all
  have "reads_of ?D u" using doomed_reads[OF inv] eq by (simp add: reads_of_def)
  from retract_all_success[OF loop(2) this Is(1)]
  have pay: "payments t = retract_ids (ids_of ?D (set ?Is)) (payments s)"
    and unsum: "map unsummed (invoices t) = map (unsummed \<circ> turned (set ?Is) (payments t)) (invoices s)"
    unfolding eq by auto
  have "ids_of ?D (set ?Is) = pay_id ` set ?D" unfolding Is(2) by auto
  then have pay': "payments t = reorg_payments E ev s" using pay reorg_payments_ids[OF inv] by simp
  have "ledger_inv t" using steps_keptD[OF ledger_reorg inv, of E C ev] run by simp
  then have sums: "\<forall>d \<in> set (invoices t). inv_received d = credited_sum (payments t) (inv_id d)"
    by (simp add: ledger_inv_def received_ok_def)
  have each: "(turned (set ?Is) (payments t) d)\<lparr>inv_received := credited_sum (payments t) (inv_id d)\<rparr>
      = reorg_invoice E ev s d" if d: "d \<in> set (invoices s)" for d
  proof -
    have hit: "inv_id d \<in> set ?Is \<longleftrightarrow> list_ex (\<lambda>p. doomed_row E ev p \<and> pay_invoice p = inv_id d) (payments s)"
      unfolding Is(2) by (force simp: doomed_def list_ex_iff image_image)
    show ?thesis
    proof (cases "inv_id d \<in> set ?Is")
      case True
      then show ?thesis using hit by (simp add: turned_def reorg_invoice_def pay')
    next
      case False
      then have "credited_sum (payments t) (inv_id d) = credited_sum (payments s) (inv_id d)"
        using hit unfolding pay' reorg_payments_def
        by (intro credited_sum_update_other) (auto simp: list_ex_iff)
      moreover have "inv_received d = credited_sum (payments s) (inv_id d)"
        using inv d by (simp add: ledger_inv_def received_ok_def)
      ultimately show ?thesis using False hit by (simp add: turned_def reorg_invoice_def)
    qed
  qed
  have "invoices t = map (\<lambda>d. (turned (set ?Is) (payments t) d)\<lparr>inv_received := credited_sum (payments t) (inv_id d)\<rparr>) (invoices s)"
    by (rule resum_all[OF unsum sums]) simp
  also have "\<dots> = map (reorg_invoice E ev s) (invoices s)" using each by simp
  finally show ?thesis using pay' by simp
qed simp

definition ex_reorg :: ReorgDetected where
  "ex_reorg =
     \<lparr> rd_chain = 1, rd_fork_block = 10, rd_old_hash = 3, rd_new_hash = 4, rd_depth = 2, rd_affected = [],
       rd_survived = [], rd_verifiable = True, rd_detected_at = 490 \<rparr>"

definition ex_reorged :: world where
  "ex_reorged = snd (handle_reorg_detected ex_env ex_consumer ex_reorg ex_processing)"

theorem reorg_refines_spec_witness:
  "payments ex_reorged = reorg_payments ex_env ex_reorg ex_processing
   \<and> invoices ex_reorged = map (reorg_invoice ex_env ex_reorg ex_processing) (invoices ex_processing)"
proof (rule reorg_refines_spec)
  show "ledger_inv ex_processing" by code_simp
  show "distinct (hash_order ex_env xs) \<and> set (hash_order ex_env xs) = set xs" if "distinct xs" for xs
    using that by (simp add: ex_env_def)
  have "fst (handle_reorg_detected ex_env ex_consumer ex_reorg ex_processing) = Inr ()" by code_simp
  then show "handle_reorg_detected ex_env ex_consumer ex_reorg ex_processing = (Inr (), ex_reorged)"
    by (simp add: ex_reorged_def prod_eq_iff)
  show "rd_verifiable ex_reorg" by (simp add: ex_reorg_def)
qed

lemma reorg_leaves:
  assumes inv: "ledger_inv s" and run: "handle_reorg_detected E C ev s = (r, t)"
  shows "(\<forall>p \<in> set (payments s). rd_verifiable ev \<and> doomed_row E ev p \<or> p \<in> set (payments t))
    \<and> (\<forall>d \<in> set (invoices s). inv_status d \<in> {Refunded, Cancelled, Expired, LatePaid} \<longrightarrow>
         (\<exists>d' \<in> set (invoices t). inv_id d' = inv_id d \<and> inv_status d' = inv_status d))"
proof (cases "rd_verifiable ev")
  case False
  then have "t = s" using run by (simp add: handle_reorg_detected_def prog_simps)
  then show ?thesis by blast
next
  case True
  have done': ?thesis if L: "L \<subseteq> pay_id ` set (doomed E ev s)" "payments t = retract_ids L (payments s)"
    and kept: "closed_kept (invoices s) (invoices t)" for L
  proof -
    have "p \<in> set (payments t)" if p: "p \<in> set (payments s)" "\<not> doomed_row E ev p" for p
    proof -
      have "pay_id p \<notin> pay_id ` set (doomed E ev s)"
      proof
        assume "pay_id p \<in> pay_id ` set (doomed E ev s)"
        then obtain q where q: "q \<in> set (payments s)" "doomed_row E ev q" "pay_id p = pay_id q"
          by (auto simp: doomed_def)
        then have "p = q" using inv p(1) by (metis distinct_map inj_onD ledger_inv_def)
        with q p show False by simp
      qed
      then have "\<not> (pay_id p \<in> L \<and> \<not> pay_reorged p)" using L(1) by blast
      then show ?thesis using p(1) unfolding L(2) retract_ids_def set_update_where by force
    qed
    moreover have "\<exists>d' \<in> set (invoices t). inv_id d' = inv_id d \<and> inv_status d' = inv_status d"
      if "d \<in> set (invoices s)" "inv_status d \<in> {Refunded, Cancelled, Expired, LatePaid}" for d
      by (rule closed_kept_mem[OF kept that(1)]) (use that(2) closed_status_iff in blast)
    ultimately show ?thesis using True by blast
  qed
  from run True show ?thesis
  proof (cases rule: reorg_program)
    case unread
    from tables_sel[OF unread(2)] show ?thesis
      using closed_kept_map[of id "invoices s"] by (intro done'[of "{}"]) simp_all
  next
    case (loop u)
    have eq: "invoices u = invoices s" "payments u = payments s" using tables_sel[OF loop(1)] by simp_all
    have "reads_of (doomed E ev s) u" using doomed_reads[OF inv] eq by (simp add: reads_of_def)
    from retract_all_any[OF loop(2) this] show ?thesis unfolding eq using done' by blast
  qed
qed

text \<open>
  C3 (safety): Whatever the outcome, even a failure halfway, a reorganisation leaves alone every payment
  that is on another chain, below the fork, already retracted or among the survivors, every payment at all
  when the survivors could not be checked, and the status of every refunded, cancelled, expired or late
  paid invoice.
\<close>

theorem reorg_spares:
  assumes "ledger_inv s" "handle_reorg_detected E C ev s = (r, t)"
  shows "(\<forall>p \<in> set (payments s). rd_verifiable ev \<and> doomed_row E ev p \<or> p \<in> set (payments t))
    \<and> (\<forall>d \<in> set (invoices s). inv_status d \<in> {Refunded, Cancelled, Expired, LatePaid} \<longrightarrow>
         (\<exists>d' \<in> set (invoices t). inv_id d' = inv_id d \<and> inv_status d' = inv_status d))"
  using assms by (rule reorg_leaves)

text \<open>A reorganisation the payment survives, on a server where the invoice was paid late.\<close>

definition ex_late :: world where
  "ex_late = ex_processing\<lparr>invoices := [ex_invoice\<lparr>inv_status := LatePaid, inv_received := 100\<rparr>]\<rparr>"

definition ex_spared :: "(EventConsumerError + unit) \<times> world" where
  "ex_spared = handle_reorg_detected ex_env ex_consumer (ex_reorg\<lparr>rd_survived := [77]\<rparr>) ex_late"

theorem reorg_spares_witness:
  "ex_payment \<in> set (payments (snd ex_spared))
   \<and> (\<exists>d' \<in> set (invoices (snd ex_spared)). inv_id d' = ''1'' \<and> inv_status d' = LatePaid)"
proof -
  have inv: "ledger_inv ex_late" by code_simp
  have run: "handle_reorg_detected ex_env ex_consumer (ex_reorg\<lparr>rd_survived := [77]\<rparr>) ex_late = (fst ex_spared, snd ex_spared)"
    by (simp add: ex_spared_def)
  have "\<not> doomed_row ex_env (ex_reorg\<lparr>rd_survived := [77]\<rparr>) ex_payment" by code_simp
  moreover have "ex_payment \<in> set (payments ex_late)" by (simp add: ex_late_def ex_processing_def)
  moreover have "ex_invoice\<lparr>inv_status := LatePaid, inv_received := 100\<rparr> \<in> set (invoices ex_late)"
    by (simp add: ex_late_def)
  ultimately show ?thesis
    using reorg_spares[OF inv run] by (fastforce simp: ex_invoice_def)
qed

section \<open>The handler returns\<close>

lemma retract_each_succeeds: "quiet s \<Longrightarrow> succeeds (iterP (\<lambda>p. repo (mark_payment_reorged (pay_id p))) ps) s"
proof (induction ps arbitrary: s)
  case (Cons p ps)
  have "quiet u" if "repo (mark_payment_reorged (pay_id p)) s = (Inr x, u)" for x u
    by (rule keptD[OF quiet_repo[OF quiet_calls(8)] Cons.prems that])
  then show ?case
    using Cons.IH unfolding iterP.simps
    by (intro succeeds_bind succeeds_repo succeeds_reads(3) Cons.prems) auto
qed simp

lemma apply_reorg_status_succeeds:
  assumes q: "quiet s" and i: "i \<in> inv_id ` set (invoices s)"
  shows "succeeds (apply_reorg_status E i st) s"
proof -
  obtain d u where get: "invoice_get E i s = (Inr (Some d), u)" using invoice_get_known[OF q i] by blast
  have u: "quiet u" "invoices u = invoices s"
    using keptD[OF quiet_calls(1) q get] tables_sel[OF same_tablesD[OF tables_readers(1) get]] by auto
  have "repo (invoice_get E i) s = (Inr (Some d), u)" using get by (simp add: repo_def mapErrP_def)
  moreover have "succeeds (thenP (repo (update_status i st)) (okP st)) u"
    using u i by (intro succeeds_bind succeeds_repo succeeds_update_status) simp_all
  ultimately show ?thesis
    unfolding apply_reorg_status_def by (intro succeeds_bind) (auto simp: succeeds_def okP_def)
qed

lemma notices_succeed:
  "succeeds (thenP (if ws then send_for_invoice E i u else okP ()) (notify_reorg E C i ps)) s"
  unfolding notify_reorg_def queue_payload_def
  by (auto intro!: succeeds_bind succeeds_notices succeeds_queue split: sum.split option.split)

lemma quiet_retract_invoice: "steps (kept quiet) (retract_invoice E C D i)"
  unfolding retract_invoice_def apply_reorg_status_def notify_reorg_def queue_payload_def Let_def
  by (intro steps_intros)

lemma retract_invoice_succeeds:
  assumes q: "quiet s" and i: "i \<in> inv_id ` set (invoices s)"
  shows "succeeds (retract_invoice E C D i) s"
  unfolding retract_invoice_def Let_def
proof (rule succeeds_bind[OF retract_each_succeeds[OF q]])
  fix x u assume u: "iterP (\<lambda>p. repo (mark_payment_reorged (pay_id p))) (filter (\<lambda>p. pay_invoice p = i) D) s = (Inr x, u)"
  have k: "steps (kept quiet) (iterP (\<lambda>p. repo (mark_payment_reorged (pay_id p))) (filter (\<lambda>p. pay_invoice p = i) D))"
    by (intro steps_intros)
  have qu: "quiet u" by (rule keptD[OF k q u])
  have "map inv_id (invoices u) = map inv_id (invoices s)"
    using retract_each_outcome[OF u] ids_same by blast
  then have iu: "i \<in> inv_id ` set (invoices u)" using i by (metis set_map)
  show "succeeds (bindP (repo (has_valid_payments i)) (\<lambda>has_valid.
       bindP (apply_reorg_status E i (if has_valid then Processing else Pending)) (\<lambda>st.
       thenP (if ev_ws C then send_for_invoice E i (InvoiceStatusUpdate i st) else okP ())
         (notify_reorg E C i (map retracted_copy (filter (\<lambda>p. pay_invoice p = i) D)))))) u"
  proof (rule succeeds_bind[OF succeeds_repo[OF succeeds_reads(2)[OF qu]]])
    fix hv v assume v: "repo (has_valid_payments i) u = (Inr hv, v)"
    have "quiet v" by (rule keptD[OF quiet_repo[OF quiet_calls(6)] qu v])
    moreover have "i \<in> inv_id ` set (invoices v)"
      using iu tables_sel[OF repo_read[OF tables_reads(3) v]] by simp
    ultimately show "succeeds (bindP (apply_reorg_status E i (if hv then Processing else Pending)) (\<lambda>st.
       thenP (if ev_ws C then send_for_invoice E i (InvoiceStatusUpdate i st) else okP ())
         (notify_reorg E C i (map retracted_copy (filter (\<lambda>p. pay_invoice p = i) D))))) v"
      by (intro succeeds_bind[OF apply_reorg_status_succeeds] notices_succeed)
  qed
qed

lemma retract_all_succeeds:
  assumes "quiet s" "reads_of D s" "set Is \<subseteq> inv_id ` set (invoices s)"
  shows "succeeds (iterP (retract_invoice E C D) Is) s"
  using assms
proof (induction Is arbitrary: s)
  case (Cons i Is)
  have "succeeds (iterP (retract_invoice E C D) Is) u" if u: "retract_invoice E C D i s = (Inr x, u)" for x u
  proof (rule Cons.IH)
    show "quiet u" by (rule keptD[OF quiet_retract_invoice Cons.prems(1) u])
    from retract_invoice_any[OF u Cons.prems(2)] show "reads_of D u" by blast
    from retract_invoice_any[OF u Cons.prems(2)] have "map inv_id (invoices u) = map inv_id (invoices s)"
      using closed_kept_ids by blast
    then show "set Is \<subseteq> inv_id ` set (invoices u)" using Cons.prems(3) by (metis list.set_intros(2) set_map subset_iff)
  qed
  then show ?case
    using Cons.prems unfolding iterP.simps by (intro succeeds_bind[OF retract_invoice_succeeds]) auto
qed simp

text \<open>
  C25 (liveness): On a healthy database the reorganisation handler always returns, so an event of this kind
  cannot stop the consumer: every invoice it visits exists and every write finds its row.
\<close>

theorem reorg_returns:
  assumes inv: "ledger_inv s" and q: "quiet s"
    and order: "\<And>xs. distinct xs \<Longrightarrow> set (hash_order E xs) = set xs"
  shows "\<exists>t. handle_reorg_detected E C ev s = (Inr (), t)"
proof -
  have "succeeds (handle_reorg_detected E C ev) s"
  proof (cases "rd_verifiable ev")
    case False
    then show ?thesis by (simp add: handle_reorg_detected_def)
  next
    case True
    let ?prog = "repo (reorg_candidates E (chain_evm E (rd_chain ev)) (rd_fork_block ev))"
    have "succeeds (iterP (retract_invoice E C (filter (\<lambda>p. \<not> survived E ev p) ps))
        (hash_order E (remdups (map pay_invoice (filter (\<lambda>p. \<not> survived E ev p) ps))))) u"
      if u: "?prog s = (Inr ps, u)" for ps u
    proof -
      have D: "filter (\<lambda>p. \<not> survived E ev p) ps = doomed E ev s"
        by (rule reorg_candidates_found[OF repo_ok[OF u]])
      have eq: "invoices u = invoices s" "payments u = payments s"
        using tables_sel[OF repo_read[OF tables_reads(2) u]] by simp_all
      have "reads_of (doomed E ev s) u" using doomed_reads[OF inv] eq by (simp add: reads_of_def)
      moreover have "pay_invoice ` set (doomed E ev s) \<subseteq> inv_id ` set (invoices u)"
        using inv unfolding eq ledger_inv_def by (auto simp: doomed_def)
      ultimately show ?thesis
        unfolding D using order keptD[OF quiet_repo[OF quiet_calls(5)] q u]
        by (intro retract_all_succeeds) simp_all
    qed
    then show ?thesis
      using True q unfolding handle_reorg_detected_def Let_def
      by (simp, intro succeeds_bind[OF succeeds_repo[OF succeeds_reads(1)]]) simp_all
  qed
  then show ?thesis by (auto simp: succeeds_def)
qed

theorem reorg_returns_witness:
  "\<exists>t. handle_reorg_detected ex_env ex_consumer ex_reorg ex_processing = (Inr (), t)"
proof (rule reorg_returns)
  show "ledger_inv ex_processing" by code_simp
  show "quiet ex_processing" by (simp add: quiet_def ex_processing_def ex_world_def)
  show "set (hash_order ex_env xs) = set xs" for xs by (simp add: ex_env_def)
qed

end
