(* ===== verification/Detection.thy ===== *)
theory Detection
  imports Outcomes Event_Consumer
begin

text \<open>
  What the detection of a payment writes: one payment row for the transfer and the promise of a webhook,
  together or not at all; and what a second delivery of the same event does.
\<close>

section \<open>Transactions\<close>

lemma transaction_failed:
  assumes "transaction m s = (Inl e, t)" shows "tables t = tables s"
proof -
  obtain r u where "thenP (db_call (okP ())) (bindP m (\<lambda>x. thenP (db_call (okP ())) (okP x))) s = (r, u)"
    by fastforce
  then show ?thesis using assms by (cases r) (auto simp: transaction_def)
qed

lemma db_call_okP: "db_call (okP ()) s = (r, t) \<Longrightarrow> tables t = tables s"
  by (elim db_call_outcome) (auto simp: okP_def)

lemma transaction_committed:
  assumes "transaction m s = (Inr x, t)"
  obtains u v where "tables u = tables s" "m u = (Inr x, v)" "tables t = tables v"
proof -
  have "thenP (db_call (okP ())) (bindP m (\<lambda>x. thenP (db_call (okP ())) (okP x))) s = (Inr x, t)"
    using assms by (auto simp: transaction_def split: prod.splits sum.splits)
  then obtain u v where "db_call (okP ()) s = (Inr (), u)" "m u = (Inr x, v)" "db_call (okP ()) v = (Inr (), t)"
    by (auto simp: bindP_Inr_iff okP_app)
  then show thesis using that db_call_okP by blast
qed

section \<open>The effect of one detection\<close>

definition upserted :: "payment_row \<Rightarrow> world \<Rightarrow> world" where
  "upserted new s =
     (if transfer_key new \<in> transfer_key ` set (payments s)
      then update_payments (\<lambda>p. transfer_key p = transfer_key new) (merge_payment new) s
      else update_invoice_on_payment new (s\<lparr>payments := payments s @ [new]\<rparr>))"

definition stored_id :: "payment_row \<Rightarrow> world \<Rightarrow> uuid" where
  "stored_id new s =
     (case find (\<lambda>p. transfer_key p = transfer_key new) (payments s) of Some old \<Rightarrow> pay_id old | None \<Rightarrow> pay_id new)"

definition promised :: "uuid \<Rightarrow> string \<Rightarrow> world \<Rightarrow> bool" where
  "promised pid ev s = list_ex (\<lambda>ob. ob_payment ob = pid \<and> ob_event ob = ev) (webhook_outbox s)"

lemma upsert_payment_row_ok:
  assumes "upsert_payment_row E d ti s = (Inr pid, t)"
  obtains new where "payment_values E d ti = Some new" "t = upserted new s" "pid = stored_id new s"
proof -
  obtain new where new: "payment_values E d ti = Some new"
    using assms by (auto simp: upsert_payment_row_def split: option.splits)
  have "t = upserted new s \<and> pid = stored_id new s"
  proof (cases "find (\<lambda>p. transfer_key p = transfer_key new) (payments s)")
    case None
    then have "transfer_key new \<notin> transfer_key ` set (payments s)" by (auto simp: find_None_iff)
    then show ?thesis using assms new None
      by (auto simp: upsert_payment_row_def upserted_def stored_id_def split: if_splits)
  next
    case (Some old)
    then have "transfer_key new \<in> transfer_key ` set (payments s)" by (metis (mono_tags) find_SomeD image_eqI)
    then show ?thesis using assms new Some
      by (auto simp: upsert_payment_row_def upserted_def stored_id_def)
  qed
  then show thesis using that new by blast
qed

lemma insert_obligation_ok:
  assumes "insert_obligation oid pid i ev s = (Inr x, t)"
  shows "promised pid ev t \<and> invoices t = invoices s \<and> payments t = payments s
    \<and> (promised pid ev s \<longrightarrow> t = s) \<and> (\<exists>obs. webhook_outbox t = webhook_outbox s @ obs)"
  using assms by (auto simp: insert_obligation_def promised_def split: if_splits)

lemma upsert_books_cong: "tables u = tables s \<Longrightarrow> tables (upserted new u) = tables (upserted new s)"
  by (cases u; cases s) (simp add: tables_def upserted_def update_payments_eq update_invoice_on_payment_def)

lemma stored_id_cong: "tables u = tables s \<Longrightarrow> stored_id new u = stored_id new s"
  using tables_sel[of u s] by (simp add: stored_id_def)

lemma upsert_with_obligation_outcome:
  assumes "upsert_with_tx_index_and_obligation E d ti ev s = (r, t)"
  obtains (failed) e where "r = Inl e" "tables t = tables s"
    | (stored) new where "r = Inr ()" "payment_values E d ti = Some new"
        "invoices t = invoices (upserted new s)" "payments t = payments (upserted new s)"
        "promised (stored_id new s) ev t"
        "promised (stored_id new s) ev s \<longrightarrow> webhook_outbox t = webhook_outbox s"
        "\<exists>obs. webhook_outbox t = webhook_outbox s @ obs"
proof (cases r)
  case (Inl e)
  then show thesis
    using failed assms transaction_failed unfolding upsert_with_tx_index_and_obligation_def by blast
next
  case (Inr x)
  from assms Inr have "transaction (bindP (db_call (upsert_payment_row E d ti)) (\<lambda>pid.
     bindP new_v4 (\<lambda>oid. db_call (insert_obligation oid pid (pay_invoice d) ev)))) s = (Inr x, t)"
    by (simp add: upsert_with_tx_index_and_obligation_def)
  then obtain u v where u: "tables u = tables s" and body: "bindP (db_call (upsert_payment_row E d ti)) (\<lambda>pid.
     bindP new_v4 (\<lambda>oid. db_call (insert_obligation oid pid (pay_invoice d) ev))) u = (Inr x, v)"
      and t: "tables t = tables v"
    by (rule transaction_committed)
  from body obtain pid a oid b where
      a: "db_call (upsert_payment_row E d ti) u = (Inr pid, a)" and b: "(new_v4 :: uuid repo) a = (Inr oid, b)"
      and v: "db_call (insert_obligation oid pid (pay_invoice d) ev) b = (Inr x, v)"
    unfolding bindP_Inr_iff by blast
  from a obtain fs where "upsert_payment_row E d ti (u\<lparr>faults := fs\<rparr>) = (Inr pid, a)"
    by (elim db_call_outcome) auto
  then obtain new where new: "payment_values E d ti = Some new" "a = upserted new (u\<lparr>faults := fs\<rparr>)"
    "pid = stored_id new (u\<lparr>faults := fs\<rparr>)" by (rule upsert_payment_row_ok)
  have us: "tables (u\<lparr>faults := fs\<rparr>) = tables s" using u by simp
  have pid: "pid = stored_id new s" unfolding new(3) by (rule stored_id_cong[OF us])
  have "tables a = tables (upserted new s)" unfolding new(2) by (rule upsert_books_cong[OF us])
  then have b': "tables b = tables (upserted new s)" using same_tablesD[OF tables_new_v4 b] by simp
  from v obtain gs where "insert_obligation oid pid (pay_invoice d) ev (b\<lparr>faults := gs\<rparr>) = (Inr x, v)"
    by (elim db_call_outcome) auto
  note ob = insert_obligation_ok[OF this]
  have out: "webhook_outbox (upserted new s) = webhook_outbox s"
    by (simp add: upserted_def update_payments_eq update_invoice_on_payment_def)
  show thesis
  proof (rule stored[OF _ new(1)])
    show "r = Inr ()" using Inr by simp
    show "invoices t = invoices (upserted new s)" "payments t = payments (upserted new s)"
      using ob tables_sel[OF t] tables_sel[OF b'] by simp_all
    show "promised (stored_id new s) ev t" using ob tables_sel[OF t] pid by (simp add: promised_def)
    show "promised (stored_id new s) ev s \<longrightarrow> webhook_outbox t = webhook_outbox s"
      using ob tables_sel[OF t] tables_sel[OF b'] pid out by (auto simp: promised_def)
    show "\<exists>obs. webhook_outbox t = webhook_outbox s @ obs"
      using ob tables_sel[OF t] tables_sel[OF b'] out by auto
  qed
qed

section \<open>The handler\<close>

lemma tables_resolve:
  "steps (same tables) (resolve_asset E ev)"
  "steps (same tables) (resolve_option E ev tok)"
  "steps (same tables) (resolve_credit E ev oid)"
  unfolding resolve_asset_def resolve_option_def resolve_credit_def Let_def by (intro steps_intros)+

lemma detected_write:
  assumes prog: "(case tx_index ev of None \<Rightarrow> errP EInvalidData
     | Some ti \<Rightarrow>
         thenP (repo (upsert_with_tx_index_and_obligation E payment ti (event_str E EvPaymentDetected)))
           (if ev_ws C
            then send_for_invoice E (pay_invoice payment)
                   (PaymentUpdate (pay_id payment) (pay_invoice payment) ''detected'' (pay_credited payment))
            else okP ())) u = (r, t)"
    and u: "tables u = tables s"
  obtains (failed) e where "r = Inl e" "tables t = tables s"
    | (stored) ti new where "r = Inr ()" "tx_index ev = Some ti"
        "payment_values E payment ti = Some new"
        "invoices t = invoices (upserted new s)" "payments t = payments (upserted new s)"
        "promised (stored_id new s) (event_str E EvPaymentDetected) t"
        "promised (stored_id new s) (event_str E EvPaymentDetected) s \<longrightarrow> webhook_outbox t = webhook_outbox s"
        "\<exists>obs. webhook_outbox t = webhook_outbox s @ obs"
proof (cases "tx_index ev")
  case None
  then have "r = Inl EInvalidData" "t = u" using prog by (simp_all add: prog_simps)
  then show thesis using failed u by blast
next
  case (Some ti)
  let ?up = "upsert_with_tx_index_and_obligation E payment ti (event_str E EvPaymentDetected)"
  let ?send = "(if ev_ws C then send_for_invoice E (pay_invoice payment)
      (PaymentUpdate (pay_id payment) (pay_invoice payment) ''detected'' (pay_credited payment)) else okP ()) :: unit handler"
  from prog Some have "thenP (repo ?up) ?send u = (r, t)" by simp
  then show thesis
  proof (cases rule: bindP_E)
    case (stop e)
    then obtain e0 where "?up u = (Inl e0, t)" using repo_err by blast
    then have "tables t = tables u" by (cases rule: upsert_with_obligation_outcome) auto
    then show ?thesis using failed stop(2) u by simp
  next
    case (step x v)
    have send: "succeeds ?send v" by (simp add: succeeds_notices(2))
    then have r: "r = Inr ()" using step(2) unfolding succeeds_def by auto
    have "steps (same tables) ?send" by (intro steps_intros)
    then have tv: "tables t = tables v" using step(2) by (rule same_tablesD)
    from repo_ok[OF step(1)] show ?thesis
    proof (cases rule: upsert_with_obligation_outcome)
      case (stored new)
      have eq: "tables (upserted new u) = tables (upserted new s)" "stored_id new u = stored_id new s"
        using upsert_books_cong[OF u] stored_id_cong[OF u] by simp_all
      show ?thesis
        by (rule that(2)[OF r Some stored(2)])
           (use stored tables_sel[OF tv] tables_sel[OF u] tables_sel[OF eq(1)] eq(2) in \<open>simp_all add: promised_def\<close>)
    qed simp
  qed
qed

definition resolve_all ::
    "env \<Rightarrow> PaymentDetected \<Rightarrow>
       ((AssetType \<times> string \<times> string option) \<times> uuid option \<times> (string option \<times> string option \<times> timestamp option)) handler" where
  "resolve_all E ev =
     bindP (resolve_asset E ev) (\<lambda>asset.
     bindP (resolve_option E ev (snd (snd asset))) (\<lambda>oid.
     bindP (resolve_credit E ev oid) (\<lambda>credit. okP (asset, oid, credit))))"

text \<open>Whatever happens before the write is a read, and what happens after it cannot fail.\<close>

lemma detected_outcome:
  assumes "handle_payment_detected E C ev s = (r, t)"
  obtains (failed) e where "r = Inl e" "tables t = tables s"
    | (stored) asset oid credit i ti new where
        "\<exists>u. resolve_all E ev s = (Inr (asset, oid, credit), u)" "r = Inr ()" "tx_index ev = Some ti"
        "payment_values E (detected_payment E ev asset oid credit i) ti = Some new"
        "invoices t = invoices (upserted new s)" "payments t = payments (upserted new s)"
        "promised (stored_id new s) (event_str E EvPaymentDetected) t"
        "promised (stored_id new s) (event_str E EvPaymentDetected) s \<longrightarrow> webhook_outbox t = webhook_outbox s"
        "\<exists>obs. webhook_outbox t = webhook_outbox s @ obs"
proof -
  have early: thesis if "r = Inl e" "tables t = tables s" for e using failed that .
  from assms show thesis unfolding handle_payment_detected_def
  proof (cases rule: bindP_E)
    case (stop e)
    show ?thesis by (rule early[OF stop(2) same_tablesD[OF tables_resolve(1) stop(1)]])
  next
    case 1: (step asset s1)
    have s1: "tables s1 = tables s" by (rule same_tablesD[OF tables_resolve(1) 1(1)])
    from 1(2) show ?thesis
    proof (cases rule: bindP_E)
      case (stop e)
      show ?thesis by (rule early[OF stop(2)]) (use same_tablesD[OF tables_resolve(2) stop(1)] s1 in simp)
    next
      case 2: (step oid s2)
      have s2: "tables s2 = tables s" using same_tablesD[OF tables_resolve(2) 2(1)] s1 by simp
      from 2(2) show ?thesis
      proof (cases rule: bindP_E)
        case (stop e)
        show ?thesis by (rule early[OF stop(2)]) (use same_tablesD[OF tables_resolve(3) stop(1)] s2 in simp)
      next
        case 3: (step credit s3)
        have s3: "tables s3 = tables s" using same_tablesD[OF tables_resolve(3) 3(1)] s2 by simp
        from 3(2) show ?thesis
        proof (cases rule: bindP_E)
          case (stop e)
          then show ?thesis by (simp add: new_v4_def)
        next
          case 4: (step i s4)
          have s4: "tables s4 = tables s" using same_tablesD[OF tables_new_v4 4(1)] s3 by simp
          have res: "\<exists>u. resolve_all E ev s = (Inr (asset, oid, credit), u)"
            using 1(1) 2(1) 3(1) by (simp add: resolve_all_def prog_simps)
          show ?thesis by (rule detected_write[OF 4(2)[unfolded Let_def] s4 failed stored[OF res]])
        qed
      qed
    qed
  qed
qed

definition event_key :: "env \<Rightarrow> PaymentDetected \<Rightarrow> i32 \<Rightarrow> chain_ref \<times> string \<times> i32" where
  "event_key E ev ti = (chain_evm E (pd_chain ev), fmt_b256 E (pd_tx_hash ev), ti)"

lemma payment_values_sel:
  assumes "payment_values E d ti = Some new"
  shows "pay_id new = pay_id d" "pay_invoice new = pay_invoice d" "pay_chain new = pay_chain d"
    "pay_tx_hash new = pay_tx_hash d" "pay_block new = pay_block d" "pay_confirmed_at new = pay_confirmed_at d"
    "pay_reorged new = False" "pay_extra new = pay_extra d" "pay_tx_index new = ti"
    "cast_opt (pg_numeric E 18) (pay_credited d) = Some (pay_credited new)"
    "cast_opt (pg_numeric E 18) (pay_rate d) = Some (pay_rate new)"
  using assms by (auto simp: payment_values_def split: option.splits)

lemma detected_payment_sel:
  "pay_chain (detected_payment E ev asset oid credit i) = chain_evm E (pd_chain ev)"
  "pay_tx_hash (detected_payment E ev asset oid credit i) = fmt_b256 E (pd_tx_hash ev)"
  "pay_invoice (detected_payment E ev asset oid credit i) = fmt_uuid E (pd_invoice ev)"
  "pay_block (detected_payment E ev asset oid credit i) = Some (pd_block ev)"
  "pay_confirmed_at (detected_payment E ev asset oid credit i) = None"
  "pay_extra (detected_payment E ev asset oid credit i) = None"
  "pay_credited (detected_payment E ev asset oid credit i) = fst credit"
  "pay_rate (detected_payment E ev asset oid credit i) = fst (snd credit)"
  by (simp_all add: detected_payment_def split: prod.split)

lemma detected_key:
  "payment_values E (detected_payment E ev asset oid credit i) ti = Some new \<Longrightarrow> transfer_key new = event_key E ev ti"
  by (simp add: payment_values_sel detected_payment_sel transfer_key_def event_key_def)

lemma upserted_payments:
  "payments (upserted new s) =
     (if transfer_key new \<in> transfer_key ` set (payments s)
      then update_where (\<lambda>p. transfer_key p = transfer_key new) (merge_payment new) (payments s)
      else payments s @ [new])"
  by (simp add: upserted_def update_payments_eq update_invoice_on_payment_def)

lemma merge_payment_key [simp]:
  "transfer_key (merge_payment new old) = transfer_key old" "pay_id (merge_payment new old) = pay_id old"
  using keeps_identity_merge by (simp_all add: keeps_identity_def)

lemma upserted_others:
  "filter (\<lambda>p. transfer_key p \<noteq> transfer_key new) (payments (upserted new s)) =
   filter (\<lambda>p. transfer_key p \<noteq> transfer_key new) (payments s)"
proof -
  have "filter (\<lambda>p. transfer_key p \<noteq> k) (update_where (\<lambda>p. transfer_key p = k) (merge_payment new) ps)
      = filter (\<lambda>p. transfer_key p \<noteq> k) ps" for k ps
    by (induction ps) auto
  then show ?thesis by (simp add: upserted_payments)
qed

lemma upserted_row:
  "\<exists>row \<in> set (payments (upserted new s)). transfer_key row = transfer_key new \<and> pay_id row = stored_id new s"
proof (cases "find (\<lambda>p. transfer_key p = transfer_key new) (payments s)")
  case None
  then have "transfer_key new \<notin> transfer_key ` set (payments s)" by (auto simp: find_None_iff)
  then show ?thesis using None by (simp add: upserted_payments stored_id_def)
next
  case (Some old)
  note old = find_SomeD[OF Some]
  then have "transfer_key new \<in> transfer_key ` set (payments s)" by (metis (mono_tags) image_eqI)
  moreover have "merge_payment new old \<in> set (update_where (\<lambda>p. transfer_key p = transfer_key new) (merge_payment new) (payments s))"
    using old by (auto simp: set_update_where image_iff intro!: bexI[of _ old])
  ultimately show ?thesis
    using Some old by (auto simp: upserted_payments stored_id_def intro!: bexI[of _ "merge_payment new old"])
qed

text \<open>
  C4 (error): A detection is all or nothing.  When the handler fails, no table has changed.  When it
  succeeds, the transfer has its payment row and that payment its promised webhook, every other
  payment is as it was, and no earlier promise is lost.
\<close>

theorem detection_all_or_nothing:
  assumes "handle_payment_detected E C ev s = (r, t)"
  shows "case r of
      Inl _ \<Rightarrow> tables t = tables s
    | Inr _ \<Rightarrow> \<exists>ti. tx_index ev = Some ti
        \<and> (\<exists>row \<in> set (payments t). transfer_key row = event_key E ev ti
              \<and> promised (pay_id row) (event_str E EvPaymentDetected) t)
        \<and> filter (\<lambda>p. transfer_key p \<noteq> event_key E ev ti) (payments t) =
            filter (\<lambda>p. transfer_key p \<noteq> event_key E ev ti) (payments s)
        \<and> (\<exists>obs. webhook_outbox t = webhook_outbox s @ obs)"
  using assms
proof (cases rule: detected_outcome)
  case (stored asset oid credit i ti new)
  note key = detected_key[OF stored(4)]
  from upserted_row[of new s] have "\<exists>row \<in> set (payments t). transfer_key row = event_key E ev ti
      \<and> promised (pay_id row) (event_str E EvPaymentDetected) t"
    using stored(6,7) key by auto
  then show ?thesis
    using stored(2,3,6,9) upserted_others[of new s] key by simp
qed simp

definition ex_first :: "(EventConsumerError + unit) \<times> world" where
  "ex_first = handle_payment_detected ex_env ex_consumer ex_detected ex_world"

theorem detection_all_or_nothing_witness:
  "fst ex_first = Inr ()
   \<and> (\<exists>ti. tx_index ex_detected = Some ti
        \<and> (\<exists>row \<in> set (payments (snd ex_first)). transfer_key row = event_key ex_env ex_detected ti
              \<and> promised (pay_id row) (event_str ex_env EvPaymentDetected) (snd ex_first))
        \<and> filter (\<lambda>p. transfer_key p \<noteq> event_key ex_env ex_detected ti) (payments (snd ex_first)) =
            filter (\<lambda>p. transfer_key p \<noteq> event_key ex_env ex_detected ti) (payments ex_world)
        \<and> (\<exists>obs. webhook_outbox (snd ex_first) = webhook_outbox ex_world @ obs))"
proof -
  have run: "handle_payment_detected ex_env ex_consumer ex_detected ex_world = (fst ex_first, snd ex_first)"
    by (simp add: ex_first_def)
  have ok: "fst ex_first = Inr ()" by code_simp
  show ?thesis using detection_all_or_nothing[OF run] ok by simp
qed

section \<open>Redelivery\<close>

text \<open>
  Two runs of a program from worlds that agree on what it reads: \<^verbatim>\<open>agree f R m n\<close> says that the results,
  when both runs return, are related by \<^verbatim>\<open>R\<close>, and that the runs leave what is read alone.
\<close>

definition agree :: "(world \<Rightarrow> 'v) \<Rightarrow> ('a \<Rightarrow> 'b \<Rightarrow> bool) \<Rightarrow> ('e, world, 'a) prog \<Rightarrow> ('e, world, 'b) prog \<Rightarrow> bool" where
  "agree f R m n \<longleftrightarrow>
     (\<forall>s t x y s' t'. f s = f t \<longrightarrow> m s = (Inr x, s') \<longrightarrow> n t = (Inr y, t') \<longrightarrow> R x y \<and> f s' = f t')"

lemma agreeD:
  "agree f R m n \<Longrightarrow> f s = f t \<Longrightarrow> m s = (Inr x, s') \<Longrightarrow> n t = (Inr y, t') \<Longrightarrow> R x y \<and> f s' = f t'"
  unfolding agree_def by blast

lemma agree_ok: "R x y \<Longrightarrow> agree f R (okP x) (okP y)"
  by (simp add: agree_def okP_def)

lemma agree_err: "agree f R (errP e) n"
  by (simp add: agree_def errP_def)

lemma agree_now: "agree f (\<lambda>_ _. True) (getP now) (getP now)"
  by (simp add: agree_def getP_def)

lemma agree_bind:
  "agree f R m n \<Longrightarrow> (\<And>x y. R x y \<Longrightarrow> agree f Q (g x) (h y)) \<Longrightarrow> agree f Q (bindP m g) (bindP n h)"
  unfolding agree_def bindP_Inr_iff by blast

lemma agreeI:
  "(\<And>s t x y s' t'. f s = f t \<Longrightarrow> m s = (Inr x, s') \<Longrightarrow> n t = (Inr y, t') \<Longrightarrow> R x y \<and> f s' = f t') \<Longrightarrow> agree f R m n"
  unfolding agree_def by blast

lemma agree_repo: "agree f R m n \<Longrightarrow> agree f R (repo m) (repo n)"
  by (rule agreeI) (rule agreeD, assumption, assumption, erule repo_ok, erule repo_ok)

text \<open>The tables the resolution of a payment reads.\<close>

definition inputs :: "world \<Rightarrow> rat payment_option list \<times> watched_row list \<times> token_row list" where
  "inputs s = (payment_options s, watched_addresses s, tokens s)"

lemma agree_read:
  assumes g: "\<And>s t. f s = f t \<Longrightarrow> g s = g t" and frame: "\<And>s fs. f (s\<lparr>faults := fs\<rparr>) = f s"
  shows "agree f (=) (db_call (\<lambda>s. (Inr (g s), s))) (db_call (\<lambda>s. (Inr (g s), s)))"
proof -
  have gf: "g (s\<lparr>faults := fs\<rparr>) = g s" for s fs by (rule g[OF frame])
  have read: "x = g s \<and> f s' = f s" if "db_call (\<lambda>s. (Inr (g s), s)) s = (Inr x, s')" for s x s'
    using that by (cases rule: db_call_outcome) (auto simp: frame gf)
  show ?thesis
  proof (rule agreeI)
    fix s t x y s' t'
    assume fst: "f s = f t" and m: "db_call (\<lambda>s. (Inr (g s), s)) s = (Inr x, s')"
      and n: "db_call (\<lambda>s. (Inr (g s), s)) t = (Inr y, t')"
    from read[OF m] read[OF n] g[OF fst] fst show "x = y \<and> f s' = f t'" by simp
  qed
qed

lemma agree_reads:
  "agree inputs (=) (token_get_by_address c a) (token_get_by_address c a)"
  "agree inputs (=) (get_payment_option_id a c tok) (get_payment_option_id a c tok)"
  "agree inputs (=) (option_get E oid) (option_get E oid)"
  "agree inputs (=) (option_get_for_invoice E i) (option_get_for_invoice E i)"
  unfolding token_get_by_address_def get_payment_option_id_def option_get_def option_get_for_invoice_def
  by (rule agree_read, simp_all add: inputs_def)+

lemma agree_resolve:
  "agree inputs (=) (resolve_asset E ev) (resolve_asset E ev)"
  "agree inputs (=) (resolve_option E ev tok) (resolve_option E ev tok)"
  "agree inputs (\<lambda>c d. fst c = fst d \<and> fst (snd c) = fst (snd d)) (resolve_credit E ev oid) (resolve_credit E ev oid)"
proof -
  show "agree inputs (=) (resolve_asset E ev) (resolve_asset E ev)"
    unfolding resolve_asset_def
    by (auto intro!: agree_ok agree_err agree_bind[OF agree_repo[OF agree_reads(1)]] split: option.split)
  show "agree inputs (=) (resolve_option E ev tok) (resolve_option E ev tok)"
    unfolding resolve_option_def Let_def
    by (auto intro!: agree_ok agree_bind[OF agree_repo[OF agree_reads(2)]] agree_bind[OF agree_repo[OF agree_reads(4)]]
        split: option.split)
  have "fst (credit_of E ev po x) = fst (credit_of E ev po y)
      \<and> fst (snd (credit_of E ev po x)) = fst (snd (credit_of E ev po y))" for po x y
    by (simp add: credit_of_def split: option.split)
  then show "agree inputs (\<lambda>c d. fst c = fst d \<and> fst (snd c) = fst (snd d)) (resolve_credit E ev oid) (resolve_credit E ev oid)"
    unfolding resolve_credit_def
    by (auto intro!: agree_ok agree_bind[OF agree_repo[OF agree_reads(3)]] agree_bind[OF agree_now] split: option.split)
qed

lemma agree_resolve_all:
  "agree inputs (\<lambda>(a, o1, c) (b, o2, d). a = b \<and> o1 = o2 \<and> fst c = fst d \<and> fst (snd c) = fst (snd d))
     (resolve_all E ev) (resolve_all E ev)"
  unfolding resolve_all_def
  by (rule agree_bind[OF agree_resolve(1)], simp, rule agree_bind[OF agree_resolve(2)], simp,
      rule agree_bind[OF agree_resolve(3)], rule agree_ok) simp

text \<open>A row that already holds everything an event says.\<close>

definition absorbed :: "payment_row \<Rightarrow> payment_row \<Rightarrow> bool" where
  "absorbed new row \<longleftrightarrow>
     pay_block new \<noteq> None \<and> pay_block row = pay_block new \<and> pay_confirmed_at new = None \<and> pay_extra new = None
     \<and> (pay_credited new \<noteq> None \<longrightarrow> pay_credited row = pay_credited new)
     \<and> (pay_rate new \<noteq> None \<longrightarrow> pay_rate row = pay_rate new)"

abbreviation undated :: "payment_row \<Rightarrow> payment_row" where
  "undated p \<equiv> p\<lparr>pay_rate_at := None\<rparr>"

lemma absorbed_merge: "absorbed new row \<Longrightarrow> undated (merge_payment new row) = undated row"
  by (cases row) (auto simp: absorbed_def merge_payment_def coalesce_def split: option.splits)

lemma merge_absorbs:
  assumes "pay_block new \<noteq> None" "pay_confirmed_at new = None" "pay_extra new = None"
  shows "absorbed new (merge_payment new old)" "absorbed new new"
  using assms by (auto simp: absorbed_def merge_payment_def coalesce_def split: option.splits)

lemma update_where_filter:
  assumes "\<And>p. P (f p) = P p" shows "filter P (update_where P f ps) = map f (filter P ps)"
  using assms by (induction ps) auto

lemma upserted_invoices:
  "invoices (upserted new s) =
     map (fold (trigger_row (payments (upserted new s)) (now s))
            (filter (\<lambda>p. transfer_key p = transfer_key new) (payments (upserted new s)))) (invoices s)"
proof (cases "transfer_key new \<in> transfer_key ` set (payments s)")
  case True
  then show ?thesis
    by (simp add: upserted_payments update_where_filter) (simp add: upserted_def update_payments_eq)
next
  case False
  then have "filter (\<lambda>p. transfer_key p = transfer_key new) (payments s) = []"
    by (metis (mono_tags, lifting) filter_False image_eqI)
  with False show ?thesis
    by (simp add: upserted_payments) (simp add: upserted_def update_invoice_on_payment_def)
qed

lemma upserted_absorbs:
  assumes "pay_block new \<noteq> None" "pay_confirmed_at new = None" "pay_extra new = None"
    and "row \<in> set (payments (upserted new s))" "transfer_key row = transfer_key new"
  shows "absorbed new row"
  using assms(4,5) merge_absorbs[OF assms(1-3)]
  by (auto simp: upserted_payments set_update_where split: if_splits) (metis image_eqI)

text \<open>The trigger changes nothing of an invoice but its sum and its status.\<close>

lemma fold_trigger_row_fixed:
  assumes "inv_received (fold (trigger_row ps t) qs i) = inv_received i"
    and "inv_status (fold (trigger_row ps t) qs i) = inv_status i"
  shows "fold (trigger_row ps t) qs i = i"
proof -
  let ?rest = "\<lambda>d :: invoice_row. d\<lparr>inv_received := 0, inv_status := Pending\<rparr>"
  have one: "?rest (trigger_row ps t q d) = ?rest d" for q d by (simp add: trigger_row_def)
  have "?rest (fold (trigger_row ps t) qs d) = ?rest d" for d
    by (induction qs arbitrary: d) (simp_all add: one)
  then have "?rest (fold (trigger_row ps t) qs i) = ?rest i" .
  with assms show ?thesis
    by (cases "fold (trigger_row ps t) qs i"; cases i) simp
qed

text \<open>A detection writes none of the tables it reads.\<close>

abbreviation inputs_now :: "world \<Rightarrow> (rat payment_option list \<times> watched_row list \<times> token_row list) \<times> timestamp" where
  "inputs_now s \<equiv> (inputs s, now s)"

lemma view_inputs: "view inputs_now"
  by (rule viewI) (simp add: inputs_def)

lemma inputs_upsert: "steps (same inputs_now) (upsert_with_tx_index_and_obligation E d ti ev)"
  unfolding upsert_with_tx_index_and_obligation_def
  by (intro same_transaction same.steps_bind view_inputs view_db_call same_new_v4)
     (simp_all add: inputs_def upsert_payment_row_def insert_obligation_def update_payments_eq
        update_invoice_on_payment_def split: option.split)

lemma inputs_detected: "steps (same inputs_now) (handle_payment_detected E C ev)"
proof -
  have "steps (same inputs_now) (send_for_invoice E i x)" for i x
    by (rule view_same[OF view_inputs tables_notify(4)])
  moreover have "steps (same inputs_now) new_v4" by (rule view_same[OF view_inputs tables_new_v4])
  moreover have "steps (same inputs_now) (repo (upsert_with_tx_index_and_obligation E d ti x))" for d ti x
    unfolding repo_def by (intro same.steps_mapErr inputs_upsert)
  ultimately show ?thesis
    unfolding handle_payment_detected_def Let_def
    by (intro same.steps_bind steps_option steps_if same.steps_ok same.steps_err
        tables_resolve[THEN view_same[OF view_inputs]])
qed

lemma credits_undated: "credits i (undated p) = credits i p"
  by (simp add: credits_def)

lemma credited_sum_undated: "credited_sum (map undated ps) i = credited_sum ps i"
  by (simp add: credited_sum_def filter_map comp_def credits_undated)

lemma undated_sum: "map undated ps = map undated qs \<Longrightarrow> credited_sum ps i = credited_sum qs i"
  using credited_sum_undated[of ps i] credited_sum_undated[of qs i] by simp

lemma undated_absorb:
  assumes "\<And>p. p \<in> set ps \<Longrightarrow> transfer_key p = k \<Longrightarrow> absorbed new p"
  shows "map undated (update_where (\<lambda>p. transfer_key p = k) (merge_payment new) ps) = map undated ps"
  using assms by (induction ps) (auto simp: absorbed_merge)

text \<open>An event absorbed by the rows of its transfer leaves every invoice alone.\<close>

lemma absorbed_upsert:
  assumes inv: "ledger_inv t" and known: "transfer_key new \<in> transfer_key ` set (payments t)"
    and abs: "\<And>p. p \<in> set (payments t) \<Longrightarrow> transfer_key p = transfer_key new \<Longrightarrow> absorbed new p"
    and started: "\<And>d p. d \<in> set (invoices t) \<Longrightarrow> inv_status d = Pending \<Longrightarrow> now t \<le> inv_expires_at d \<Longrightarrow>
      p \<in> set (payments t) \<Longrightarrow> transfer_key p = transfer_key new \<Longrightarrow> pay_invoice p = inv_id d \<Longrightarrow> pay_reorged p"
  shows "map undated (payments (upserted new t)) = map undated (payments t)"
    and "invoices (upserted new t) = invoices t"
proof -
  let ?u = "upserted new t"
  let ?L = "filter (\<lambda>p. transfer_key p = transfer_key new) (payments ?u)"
  have pay: "payments ?u = update_where (\<lambda>p. transfer_key p = transfer_key new) (merge_payment new) (payments t)"
    using known by (simp add: upserted_payments)
  show und: "map undated (payments ?u) = map undated (payments t)"
    unfolding pay using abs by (rule undated_absorb)
  have "ledger_inv ?u"
    using known inv by (simp add: upserted_def ledger_inv_update_payments keeps_identity_merge)
  have "fold (trigger_row (payments ?u) (now t)) ?L d = d" if d: "d \<in> set (invoices t)" for d
  proof (rule fold_trigger_row_fixed)
    have "inv_received d = credited_sum (payments ?u) (inv_id d)"
      using inv d undated_sum[OF und] by (simp add: ledger_inv_def received_ok_def)
    then show "inv_received (fold (trigger_row (payments ?u) (now t)) ?L d) = inv_received d"
      by (simp add: fold_trigger_row_received)
    have L: "?L = map (merge_payment new) (filter (\<lambda>p. transfer_key p = transfer_key new) (payments t))"
      unfolding pay by (rule update_where_filter) simp
    have "pay_reorged q" if "q \<in> set ?L" "pay_invoice q = inv_id d" "inv_status d = Pending" "now t \<le> inv_expires_at d" for q
      using that started[OF d] unfolding L by (auto simp: merge_payment_def)
    then show "inv_status (fold (trigger_row (payments ?u) (now t)) ?L d) = inv_status d"
      unfolding fold_trigger_row_status by auto
  qed
  then show "invoices ?u = invoices t" unfolding upserted_invoices[of new t] by (simp add: map_idI)
qed

lemma stored_id_eq:
  assumes "ledger_inv t" "row \<in> set (payments t)" "transfer_key row = transfer_key new"
  shows "stored_id new t = pay_id row"
proof -
  have "find (\<lambda>p. transfer_key p = transfer_key new) (payments t) = Some row"
    using assms by (subst find_Some_iff_distinct) (auto simp: ledger_inv_def)
  then show ?thesis by (simp add: stored_id_def)
qed

lemma upserted_started:
  assumes "d \<in> set (invoices (upserted new s))" "inv_status d = Pending" "now s \<le> inv_expires_at d"
    and "p \<in> set (payments (upserted new s))" "transfer_key p = transfer_key new" "pay_invoice p = inv_id d"
  shows "pay_reorged p"
proof (rule ccontr)
  let ?L = "filter (\<lambda>p. transfer_key p = transfer_key new) (payments (upserted new s))"
  assume np: "\<not> pay_reorged p"
  obtain d0 where d0: "d = fold (trigger_row (payments (upserted new s)) (now s)) ?L d0"
    using assms(1) unfolding upserted_invoices by auto
  have "p \<in> set ?L" using assms(4,5) by simp
  then have "\<exists>q \<in> set ?L. pay_invoice q = inv_id d0 \<and> \<not> pay_reorged q"
    using np assms(6) unfolding d0 by auto
  then have "inv_status d = (if inv_status d0 = Pending \<and> now s \<le> inv_expires_at d0 then Processing else inv_status d0)"
    unfolding d0 fold_trigger_row_status by simp
  then show False using assms(2,3) unfolding d0 by (auto split: if_splits)
qed

lemma resolve_again:
  "inputs s = inputs t \<Longrightarrow> \<exists>v. resolve_all E ev s = (Inr (a1, o1, c1), v) \<Longrightarrow>
   \<exists>v. resolve_all E ev t = (Inr (a2, o2, c2), v) \<Longrightarrow> fst c1 = fst c2 \<and> fst (snd c1) = fst (snd c2)"
  by (elim exE, drule (2) agreeD[OF agree_resolve_all]) simp

lemma same_event_rows:
  assumes "payment_values E (detected_payment E ev a1 o1 c1 i1) ti = Some new1"
    and "payment_values E (detected_payment E ev a2 o2 c2 i2) ti = Some new2"
    and "fst c1 = fst c2" "fst (snd c1) = fst (snd c2)"
  shows "transfer_key new2 = transfer_key new1" "absorbed new2 = absorbed new1"
    "pay_block new1 \<noteq> None" "pay_confirmed_at new1 = None" "pay_extra new1 = None"
proof -
  note s1 = payment_values_sel[OF assms(1)] and s2 = payment_values_sel[OF assms(2)]
  show "transfer_key new2 = transfer_key new1" using detected_key[OF assms(1)] detected_key[OF assms(2)] by simp
  have "pay_credited new2 = pay_credited new1" "pay_rate new2 = pay_rate new1"
    using s1(10,11) s2(10,11) assms(3,4) by (simp_all add: detected_payment_sel)
  moreover show "pay_block new1 \<noteq> None" "pay_confirmed_at new1 = None" "pay_extra new1 = None"
    using s1(5,6,8) by (simp_all add: detected_payment_sel)
  ultimately show "absorbed new2 = absorbed new1"
    using s1(5,6,8) s2(5,6,8) by (simp add: fun_eq_iff absorbed_def detected_payment_sel)
qed

text \<open>
  C9 (equivalence): Delivering a detection twice is the same as delivering it once: a second delivery, at
  any later time and after any number of failed attempts, leaves every invoice, every promised webhook
  and every payment as it was, except for the time at which the conversion rate was applied.
\<close>

theorem redelivery_changes_nothing:
  assumes inv: "ledger_inv s" and first: "handle_payment_detected E C ev s = (Inr (), t)"
    and later: "now t \<le> n" and second: "handle_payment_detected E C ev (t\<lparr>now := n\<rparr>) = (Inr (), u)"
  shows "invoices u = invoices t \<and> webhook_outbox u = webhook_outbox t
    \<and> map (\<lambda>p. p\<lparr>pay_rate_at := None\<rparr>) (payments u) = map (\<lambda>p. p\<lparr>pay_rate_at := None\<rparr>) (payments t)"
proof -
  have frame: "inputs t = inputs s" "now t = now s"
    using steps_sameD[OF inputs_detected, of E C ev s] first by simp_all
  have "ledger_inv t" using steps_keptD[OF ledger_detected inv, of E C ev] first by simp
  then have inv': "ledger_inv (t\<lparr>now := n\<rparr>)" using ledger_inv_fields[of "t\<lparr>now := n\<rparr>" t] by simp
  from first obtain a1 o1 c1 i1 ti new1 where one: "\<exists>v. resolve_all E ev s = (Inr (a1, o1, c1), v)"
      "tx_index ev = Some ti" "payment_values E (detected_payment E ev a1 o1 c1 i1) ti = Some new1"
      "invoices t = invoices (upserted new1 s)" "payments t = payments (upserted new1 s)"
      "promised (stored_id new1 s) (event_str E EvPaymentDetected) t"
    by (cases rule: detected_outcome) auto
  from second obtain a2 o2 c2 i2 ti' new2 where two: "\<exists>v. resolve_all E ev (t\<lparr>now := n\<rparr>) = (Inr (a2, o2, c2), v)"
      "tx_index ev = Some ti'" "payment_values E (detected_payment E ev a2 o2 c2 i2) ti' = Some new2"
      "invoices u = invoices (upserted new2 (t\<lparr>now := n\<rparr>))" "payments u = payments (upserted new2 (t\<lparr>now := n\<rparr>))"
      "promised (stored_id new2 (t\<lparr>now := n\<rparr>)) (event_str E EvPaymentDetected) (t\<lparr>now := n\<rparr>) \<longrightarrow>
         webhook_outbox u = webhook_outbox (t\<lparr>now := n\<rparr>)"
    by (cases rule: detected_outcome) auto
  have ti: "ti' = ti" using one(2) two(2) by simp
  have "inputs s = inputs (t\<lparr>now := n\<rparr>)" using frame(1) by (simp add: inputs_def)
  then have credit: "fst c1 = fst c2" "fst (snd c1) = fst (snd c2)"
    using resolve_again one(1) two(1) by blast+
  note same = same_event_rows[OF one(3) two(3)[unfolded ti] credit]
  obtain row where row: "row \<in> set (payments t)" "transfer_key row = transfer_key new1" "pay_id row = stored_id new1 s"
    using upserted_row[of new1 s] one(5) by auto
  have absorbed: "absorbed new2 p" if "p \<in> set (payments t)" "transfer_key p = transfer_key new2" for p
    using upserted_absorbs[OF same(3-5)] that one(5) same(1,2) by simp
  have started: "pay_reorged p" if "d \<in> set (invoices t)" "inv_status d = Pending" "n \<le> inv_expires_at d"
      "p \<in> set (payments t)" "transfer_key p = transfer_key new2" "pay_invoice p = inv_id d" for d p
    using upserted_started[of d new1 s p] that later frame(2) one(4,5) same(1) by simp
  have known: "transfer_key new2 \<in> transfer_key ` set (payments (t\<lparr>now := n\<rparr>))"
    using imageI[OF row(1), of transfer_key] row(2) same(1) by simp
  have books: "map undated (payments (upserted new2 (t\<lparr>now := n\<rparr>))) = map undated (payments t)"
    "invoices (upserted new2 (t\<lparr>now := n\<rparr>)) = invoices t"
    using absorbed_upsert[OF inv' known] absorbed started by simp_all
  have "stored_id new2 (t\<lparr>now := n\<rparr>) = stored_id new1 s"
    using stored_id_eq[OF inv', of row new2] row same(1) by simp
  then have "webhook_outbox u = webhook_outbox t" using two(6) one(6) by (simp add: promised_def)
  with books two(4,5) show ?thesis by simp
qed

definition ex_second :: "(EventConsumerError + unit) \<times> world" where
  "ex_second = handle_payment_detected ex_env ex_consumer ex_detected ((snd ex_first)\<lparr>now := 700\<rparr>)"

theorem redelivery_changes_nothing_witness:
  "invoices (snd ex_second) = invoices (snd ex_first) \<and> webhook_outbox (snd ex_second) = webhook_outbox (snd ex_first)
    \<and> map (\<lambda>p. p\<lparr>pay_rate_at := None\<rparr>) (payments (snd ex_second))
        = map (\<lambda>p. p\<lparr>pay_rate_at := None\<rparr>) (payments (snd ex_first))"
proof (rule redelivery_changes_nothing)
  show "ledger_inv ex_world" by code_simp
  have "fst ex_first = Inr ()" by code_simp
  then show "handle_payment_detected ex_env ex_consumer ex_detected ex_world = (Inr (), snd ex_first)"
    by (simp add: ex_first_def prod_eq_iff)
  show "now (snd ex_first) \<le> 700" by code_simp
  have "fst ex_second = Inr ()" by code_simp
  then show "handle_payment_detected ex_env ex_consumer ex_detected ((snd ex_first)\<lparr>now := 700\<rparr>) = (Inr (), snd ex_second)"
    by (simp add: ex_second_def prod_eq_iff)
qed

section \<open>A retracted transfer\<close>

lemma merge_retracted:
  assumes "\<And>p. p \<in> set ps \<Longrightarrow> transfer_key p = k \<Longrightarrow> pay_reorged p"
  shows "credited_sum (update_where (\<lambda>p. transfer_key p = k) (merge_payment new) ps) i = credited_sum ps i"
  using assms by (induction ps) (auto simp: credited_sum_def credits_def merge_payment_def)

text \<open>
  C10 (safety): A transfer that a reorganisation retracted is never credited again.  When the same transfer
  is detected anew, in whatever block, its row is updated but stays retracted, and no invoice has received
  more than before.
\<close>

theorem retracted_transfer_not_credited:
  assumes inv: "ledger_inv s" and ti: "tx_index ev = Some ti"
    and p: "p \<in> set (payments s)" "transfer_key p = event_key E ev ti" "pay_reorged p"
    and run: "handle_payment_detected E C ev s = (r, t)"
  shows "credited_sum (payments t) i = credited_sum (payments s) i
    \<and> (\<exists>p' \<in> set (payments t). transfer_key p' = event_key E ev ti \<and> pay_reorged p')"
  using run
proof (cases rule: detected_outcome)
  case failed
  then show ?thesis using tables_sel[OF failed(2)] p by auto
next
  case (stored asset oid credit j ti' new)
  have key: "transfer_key new = event_key E ev ti"
    using detected_key[OF stored(4)] stored(3) ti by simp
  have only: "pay_reorged q" if "q \<in> set (payments s)" "transfer_key q = transfer_key new" for q
  proof -
    have "q = p" using inv p(1,2) that key by (metis distinct_map inj_onD ledger_inv_def)
    then show ?thesis using p(3) by simp
  qed
  have "transfer_key new \<in> transfer_key ` set (payments s)" using p(1,2) key by (metis image_eqI)
  then have pay: "payments t = update_where (\<lambda>q. transfer_key q = transfer_key new) (merge_payment new) (payments s)"
    using stored(6) by (simp add: upserted_payments)
  have "merge_payment new p \<in> set (payments t)" unfolding pay using p(1,2) key by (force simp: set_update_where)
  moreover have "pay_reorged (merge_payment new p)" using p(3) by (simp add: merge_payment_def)
  ultimately show ?thesis
    unfolding pay using merge_retracted[OF only] p(2) by (metis merge_payment_key(1) pay)
qed

text \<open>The example's payment, dropped by a reorganisation and then mined again.\<close>

definition ex_dropped :: world where
  "ex_dropped = ex_world\<lparr>payments := [retract ex_payment]\<rparr>"

definition ex_remined :: "(EventConsumerError + unit) \<times> world" where
  "ex_remined = handle_payment_detected ex_env ex_consumer ex_detected ex_dropped"

theorem retracted_transfer_not_credited_witness:
  "credited_sum (payments (snd ex_remined)) ''1'' = credited_sum (payments ex_dropped) ''1''
    \<and> (\<exists>p' \<in> set (payments (snd ex_remined)). transfer_key p' = event_key ex_env ex_detected (- 1) \<and> pay_reorged p')"
proof (rule retracted_transfer_not_credited)
  show "ledger_inv ex_dropped" by code_simp
  show "tx_index ex_detected = Some (- 1)" by (simp add: tx_index_def ex_detected_def)
  show "retract ex_payment \<in> set (payments ex_dropped)" by (simp add: ex_dropped_def)
  show "transfer_key (retract ex_payment) = event_key ex_env ex_detected (- 1)" by code_simp
  show "pay_reorged (retract ex_payment)" by (simp add: retract_def)
  show "handle_payment_detected ex_env ex_consumer ex_detected ex_dropped = (fst ex_remined, snd ex_remined)"
    by (simp add: ex_remined_def)
qed

end
