(* ===== verification/Webhook_Queue.thy ===== *)
theory Webhook_Queue
  imports Notify Rust_Text "HOL-Library.Product_Lexorder" "HOL-Library.List_Lexorder" "HOL-Library.Char_ord"
begin

text \<open>
  The webhook delivery service (\<^verbatim>\<open>server/src/services/webhook/service.rs\<close>, \<^verbatim>\<open>job.rs\<close>, \<^verbatim>\<open>config.rs\<close>, \<^verbatim>\<open>error.rs\<close>,
  \<^verbatim>\<open>signing.rs\<close>) and the delivery table it writes (\<^verbatim>\<open>data-service/src/postgres/webhook_delivery.rs\<close>).

  The queue lives in two Redis sorted sets, the ready queue and the processing set.  Every await of the
  service is one call with an outcome of its own: it succeeds, it fails before or after the server has
  executed it, or the worker is killed there.  Scores are whole seconds; as doubles they are exact far
  beyond every date the queue can hold.  Metrics other than the two queue gauges are left out.
\<close>

section \<open>Errors and configuration\<close>

datatype WebhookError =
  WRedis string | WHttp string | WUnreachable string | WSerialization string | WDatabase string

fun webhook_error_str :: "WebhookError \<Rightarrow> string" where
  "webhook_error_str (WRedis e) = ''redis error: '' @ e"
| "webhook_error_str (WHttp e) = ''http error: '' @ e"
| "webhook_error_str (WUnreachable e) = ''webhook endpoint unreachable: '' @ e"
| "webhook_error_str (WSerialization e) = ''serialization error: '' @ e"
| "webhook_error_str (WDatabase e) = ''database error: '' @ e"

fun process_error_is_fault :: "WebhookError \<Rightarrow> bool \<Rightarrow> bool" where
  "process_error_is_fault (WRedis _) shutting = (\<not> shutting)"
| "process_error_is_fault _ _ = True"

fun permanent_failure_is_merchant_unreachable :: "WebhookError \<Rightarrow> bool" where
  "permanent_failure_is_merchant_unreachable (WUnreachable _) = True"
| "permanent_failure_is_merchant_unreachable _ = False"

record WebhookConfig =
  queue_key :: string
  request_timeout :: nat
  poll_interval :: nat
  connect_timeout :: nat
  visibility_timeout :: nat

definition webhook_config_default :: WebhookConfig where
  "webhook_config_default =
     \<lparr> queue_key = ''ethpayserver:webhooks'', request_timeout = 30, poll_interval = 5,
       connect_timeout = 3, visibility_timeout = 300 \<rparr>"

definition env_secs :: "(string \<Rightarrow> string option) \<Rightarrow> string \<Rightarrow> nat \<Rightarrow> nat" where
  "env_secs var v d =
     (case Option.bind (var v) parse_u64 of None \<Rightarrow> d | Some n \<Rightarrow> unat n)"

definition webhook_config_from_env :: "(string \<Rightarrow> string option) \<Rightarrow> WebhookConfig" where
  "webhook_config_from_env var =
     \<lparr> queue_key = (case var ''WEBHOOK_QUEUE_KEY'' of None \<Rightarrow> ''ethpayserver:webhooks'' | Some k \<Rightarrow> k),
       request_timeout = env_secs var ''WEBHOOK_REQUEST_TIMEOUT_SECS'' 30,
       poll_interval = env_secs var ''WEBHOOK_POLL_INTERVAL_SECS'' 5,
       connect_timeout = env_secs var ''WEBHOOK_REDIS_CONNECT_TIMEOUT_SECS'' 3,
       visibility_timeout = env_secs var ''WEBHOOK_VISIBILITY_TIMEOUT_SECS'' 300 \<rparr>"

section \<open>Retry schedule\<close>

definition RETRY_DELAYS_SECS :: "nat list" where
  "RETRY_DELAYS_SECS = [60, 300, 1800, 7200, 43200, 86400]"

definition retry_delay :: "WebhookJob \<Rightarrow> nat" where
  "retry_delay job =
     (let idx = unat (sat_sub (job_attempts job) 1) in
      RETRY_DELAYS_SECS ! min idx (length RETRY_DELAYS_SECS - 1))"

definition is_exhausted :: "WebhookJob \<Rightarrow> bool" where
  "is_exhausted job \<longleftrightarrow> job_max_attempts job \<le> job_attempts job"

section \<open>Truncating an error message\<close>

text \<open>A string is its UTF-8 bytes here: a position is a character boundary when it is an end of the
  string or the byte there does not continue a character.\<close>

definition is_char_boundary :: "string \<Rightarrow> nat \<Rightarrow> bool" where
  "is_char_boundary s i \<longleftrightarrow> i = 0 \<or> i = length s
     \<or> i < length s \<and> \<not> (128 \<le> (of_char (s ! i) :: nat) \<and> (of_char (s ! i) :: nat) < 192)"

fun boundary_below :: "string \<Rightarrow> nat \<Rightarrow> nat" where
  "boundary_below s 0 = 0"
| "boundary_below s (Suc i) = (if is_char_boundary s (Suc i) then Suc i else boundary_below s i)"

definition truncate_error :: "string \<Rightarrow> nat \<Rightarrow> string" where
  "truncate_error e max_len =
     (if length e \<le> max_len then e else take (boundary_below e (max_len - 3)) e @ ''...'')"

section \<open>Sorted sets\<close>

type_synonym zset = "(string \<times> int) list"

definition zadd :: "string \<Rightarrow> int \<Rightarrow> zset \<Rightarrow> zset" where
  "zadd m sc z = (m, sc) # filter (\<lambda>(k, _). k \<noteq> m) z"

definition zrem :: "string \<Rightarrow> zset \<Rightarrow> zset" where
  "zrem m z = filter (\<lambda>(k, _). k \<noteq> m) z"

definition zrangebyscore :: "int \<Rightarrow> zset \<Rightarrow> string list" where
  "zrangebyscore hi z = map fst (sort_key (\<lambda>(k, sc). (sc, k)) (filter (\<lambda>(_, sc). sc \<le> hi) z))"

definition split_once :: "char \<Rightarrow> string \<Rightarrow> (string \<times> string) option" where
  "split_once c s =
     (if c \<in> set s then Some (takeWhile (\<lambda>x. x \<noteq> c) s, tl (dropWhile (\<lambda>x. x \<noteq> c) s)) else None)"

section \<open>State of the service\<close>

datatype WebhookDeliveryStatus = DPending | DRetrying | DDelivered | DFailed

fun delivery_status_str :: "WebhookDeliveryStatus \<Rightarrow> string" where
  "delivery_status_str DPending = ''pending''"
| "delivery_status_str DRetrying = ''retrying''"
| "delivery_status_str DDelivered = ''delivered''"
| "delivery_status_str DFailed = ''failed''"

definition delivery_status_from_str :: "string \<Rightarrow> WebhookDeliveryStatus option" where
  "delivery_status_from_str s =
     (if s = ''pending'' then Some DPending else if s = ''retrying'' then Some DRetrying
      else if s = ''delivered'' then Some DDelivered else if s = ''failed'' then Some DFailed else None)"

record UpsertDeliveryParams =
  dl_id :: uuid
  dl_webhook :: uuid
  dl_invoice :: string
  dl_event :: string
  dl_status :: WebhookDeliveryStatus
  dl_attempts :: i32
  dl_max_attempts :: i32
  dl_error :: "string option"
  dl_payload :: json

record delivery_event =
  de_invoice :: string
  de_type :: string
  de_webhook :: uuid
  de_event :: string
  de_attempts :: u32
  de_max_attempts :: u32
  de_error :: "string option"

record webhook_request =
  rq_job :: uuid
  rq_attempt :: u32
  rq_url :: string
  rq_signature :: string
  rq_timestamped :: string
  rq_event :: string
  rq_event_id :: string
  rq_idempotency_key :: string
  rq_body :: string

text \<open>What the HTTP client reports: a response with its status, one of its error classes, or nothing at all
  because the worker was killed while it waited.\<close>

datatype http_result = Responded nat | Connect_error string | Timeout_error string | Other_error string | Cut

definition is_success :: "http_result \<Rightarrow> bool" where
  "is_success r = (case r of Responded c \<Rightarrow> 200 \<le> c \<and> c < 300 | _ \<Rightarrow> False)"

text \<open>The outcome of one call: a failure and a kill say whether the server had executed the command.\<close>

datatype call_outcome = Completes | Fails bool string | Aborted bool

datatype log_line = Process_error bool WebhookError | Gave_up bool uuid u32

record webhook_state =
  ready_queue :: zset
  processing_set :: zset
  redis_connected :: bool
  webhook_deliveries :: "UpsertDeliveryParams list"
  delivery_events :: "delivery_event list"
  recent_unreachable :: "uuid list"
  demotion_streak :: u32
  shutting_down :: bool
  queue_depth :: nat
  ready_depth :: nat
  clock :: int
  claim_ids :: "nat \<Rightarrow> uuid"
  claims_drawn :: nat
  call_schedule :: "(call_outcome \<times> nat) list"
  http_schedule :: "(http_result \<times> nat) list"
  sent :: "(webhook_request \<times> http_result) list"
  log_lines :: "log_line list"

text \<open>The libraries the service calls: the serialisers, the MAC and the printed HTTP status.\<close>

record webhook_env = env +
  job_to_json :: "WebhookJob \<Rightarrow> string option"
  job_from_json :: "string \<Rightarrow> WebhookJob option"
  payload_to_json :: "WebhookPayload \<Rightarrow> string option"
  payload_to_value :: "WebhookPayload \<Rightarrow> json option"
  payload_invoice :: "WebhookPayload \<Rightarrow> string"
  payload_event_id :: "WebhookPayload \<Rightarrow> string"
  payload_idempotency_key :: "WebhookPayload \<Rightarrow> string"
  serde_error :: string
  hmac_hex :: "string \<Rightarrow> string \<Rightarrow> string"
  status_str :: "nat \<Rightarrow> string"

section \<open>Calls\<close>

datatype stop = Raised WebhookError | Killed

type_synonym 'a webhook = "(stop, webhook_state, 'a) prog"

definition call :: "(string \<Rightarrow> WebhookError) \<Rightarrow> (webhook_state \<Rightarrow> 'a \<times> webhook_state) \<Rightarrow> 'a webhook" where
  "call err cmd s =
     (case call_schedule s of
        [] \<Rightarrow> (Inr (fst (cmd s)), snd (cmd s))
      | (out, d) # rest \<Rightarrow>
          (let s' = s\<lparr>call_schedule := rest, clock := clock s + int d\<rparr> in
           case out of
             Completes \<Rightarrow> (Inr (fst (cmd s')), snd (cmd s'))
           | Fails done' e \<Rightarrow> (Inl (Raised (err e)), if done' then snd (cmd s') else s')
           | Aborted done' \<Rightarrow> (Inl Killed, if done' then snd (cmd s') else s')))"

text \<open>A result inspected instead of propagated: a killed worker does not get to inspect it.\<close>

definition tryW :: "'a webhook \<Rightarrow> (WebhookError + 'a) webhook" where
  "tryW m s =
     (case m s of
        (Inl (Raised e), t) \<Rightarrow> (Inr (Inl e), t)
      | (Inl Killed, t) \<Rightarrow> (Inl Killed, t)
      | (Inr x, t) \<Rightarrow> (Inr (Inr x), t))"

definition connection :: "unit webhook" where
  "connection =
     bindP (getP redis_connected) (\<lambda>c.
       if c then okP ()
       else thenP (call WRedis (\<lambda>s. ((), s))) (modP (\<lambda>s. s\<lparr>redis_connected := True\<rparr>)))"

definition ready_add :: "string \<Rightarrow> int \<Rightarrow> unit webhook" where
  "ready_add json score = call WRedis (\<lambda>s. ((), s\<lparr>ready_queue := zadd json score (ready_queue s)\<rparr>))"

section \<open>Claiming and reclaiming\<close>

definition claim_script :: "string \<Rightarrow> string \<Rightarrow> int \<Rightarrow> webhook_state \<Rightarrow> int \<times> webhook_state" where
  "claim_script json member deadline s =
     (if json \<notin> fst ` set (ready_queue s) then (0, s)
      else (1, s\<lparr>ready_queue := zrem json (ready_queue s),
                processing_set := zadd member deadline (processing_set s)\<rparr>))"

definition claim_job :: "webhook_env \<Rightarrow> string \<Rightarrow> int \<Rightarrow> string option webhook" where
  "claim_job E json deadline =
     bindP (getP (\<lambda>s. claim_ids s (claims_drawn s))) (\<lambda>i.
     thenP (modP (\<lambda>s. s\<lparr>claims_drawn := Suc (claims_drawn s)\<rparr>))
     (let member = fmt_uuid E i @ CHR '':'' # json in
      bindP (call WRedis (claim_script json member deadline)) (\<lambda>claimed.
        okP (if claimed = 1 then Some member else None))))"

definition clear_processing :: "string \<Rightarrow> unit webhook" where
  "clear_processing member =
     thenP (tryW (call WRedis (\<lambda>s. ((), s\<lparr>processing_set := zrem member (processing_set s)\<rparr>)))) (okP ())"

definition reclaim_one_expired_job :: "int \<Rightarrow> string \<Rightarrow> unit webhook" where
  "reclaim_one_expired_job t member =
     (case split_once CHR '':'' member of
        None \<Rightarrow> okP ()
      | Some (_, json) \<Rightarrow>
          bindP (tryW (ready_add json t)) (\<lambda>requeued.
            case requeued of Inl _ \<Rightarrow> okP () | Inr _ \<Rightarrow> clear_processing member))"

definition reclaim_expired_jobs :: "unit webhook" where
  "reclaim_expired_jobs =
     bindP (getP clock) (\<lambda>t.
     bindP (tryW (call WRedis (\<lambda>s. (zrangebyscore t (processing_set s), s)))) (\<lambda>expired.
       case expired of Inl _ \<Rightarrow> okP () | Inr ms \<Rightarrow> iterP (reclaim_one_expired_job t) ms))"

definition begin_shutdown :: "unit webhook" where
  "begin_shutdown = modP (\<lambda>s. s\<lparr>shutting_down := True\<rparr>)"

section \<open>Records of a delivery\<close>

text \<open>\<^verbatim>\<open>INSERT ... ON CONFLICT (id) DO UPDATE\<close>.\<close>

definition upsert_delivery :: "UpsertDeliveryParams \<Rightarrow> webhook_state \<Rightarrow> unit \<times> webhook_state" where
  "upsert_delivery p s =
     ((), s\<lparr>webhook_deliveries :=
        (if dl_id p \<in> set (map dl_id (webhook_deliveries s)) then
           update_where (\<lambda>r. dl_id r = dl_id p)
             (\<lambda>r. r\<lparr>dl_status := dl_status p, dl_attempts := dl_attempts p, dl_error := dl_error p\<rparr>)
             (webhook_deliveries s)
         else webhook_deliveries s @ [p])\<rparr>)"

definition write_delivery_record ::
    "webhook_env \<Rightarrow> WebhookJob \<Rightarrow> WebhookDeliveryStatus \<Rightarrow> i32 \<Rightarrow> string option \<Rightarrow> unit webhook" where
  "write_delivery_record E job st attempts last_error =
     (case payload_to_value E (job_payload job) of
        None \<Rightarrow> okP ()
      | Some v \<Rightarrow>
          thenP (tryW (call WDatabase (upsert_delivery
            \<lparr> dl_id = job_id job, dl_webhook = job_store_webhook job,
              dl_invoice = payload_invoice E (job_payload job),
              dl_event = event_str E (payload_event (job_payload job)), dl_status = st,
              dl_attempts = attempts, dl_max_attempts = job_max_attempts job, dl_error = last_error,
              dl_payload = v \<rparr>)))
            (okP ()))"

definition record_delivery_event :: "webhook_env \<Rightarrow> WebhookJob \<Rightarrow> string \<Rightarrow> string option \<Rightarrow> unit webhook" where
  "record_delivery_event E job ty err =
     thenP (tryW (call WDatabase (\<lambda>s. ((), s\<lparr>delivery_events := delivery_events s @
        [\<lparr> de_invoice = payload_invoice E (job_payload job), de_type = ty, de_webhook = job_id job,
           de_event = event_str E (payload_event (job_payload job)), de_attempts = job_attempts job,
           de_max_attempts = job_max_attempts job, de_error = err \<rparr>]\<rparr>))))
       (okP ())"

definition update_queue_gauges :: "unit webhook" where
  "update_queue_gauges =
     bindP (tryW (call WRedis (\<lambda>s. (length (ready_queue s), s)))) (\<lambda>depth.
     thenP (case depth of Inl _ \<Rightarrow> okP () | Inr n \<Rightarrow> modP (\<lambda>s. s\<lparr>queue_depth := n\<rparr>))
     (bindP (getP clock) (\<lambda>t.
      bindP (tryW (call WRedis (\<lambda>s. (length (filter (\<lambda>(_, sc). sc \<le> t) (ready_queue s)), s)))) (\<lambda>ready.
        case ready of Inl _ \<Rightarrow> okP () | Inr n \<Rightarrow> modP (\<lambda>s. s\<lparr>ready_depth := n\<rparr>)))))"

section \<open>Signing and delivery\<close>

definition sign_webhook_payload :: "webhook_env \<Rightarrow> string \<Rightarrow> string \<Rightarrow> string" where
  "sign_webhook_payload E payload secret = ''sha256='' @ hmac_hex E secret payload"

definition sign_webhook_payload_timestamped :: "webhook_env \<Rightarrow> string \<Rightarrow> string \<Rightarrow> int \<Rightarrow> string" where
  "sign_webhook_payload_timestamped E payload secret sent_at =
     (let sig = sign_webhook_payload E (show_int sent_at @ CHR ''.'' # payload) secret;
          hex = (if take 7 sig = ''sha256='' then drop 7 sig else sig) in
      ''t='' @ show_int sent_at @ '',v1='' @ hex)"

definition sign_payload :: "webhook_env \<Rightarrow> string \<Rightarrow> string \<Rightarrow> string" where
  "sign_payload E payload secret = ''sha256='' @ hmac_hex E secret payload"

text \<open>One request on the wire; with nothing scheduled the endpoint accepts it.\<close>

definition http_send :: "webhook_request \<Rightarrow> http_result webhook" where
  "http_send rq s =
     (let (res, d) = (case http_schedule s of [] \<Rightarrow> (Responded 200, 0) | x # _ \<Rightarrow> x);
          t = s\<lparr>http_schedule := tl (http_schedule s), clock := clock s + int d,
                sent := sent s @ [(rq, res)]\<rparr> in
      if res = Cut then (Inl Killed, t) else (Inr res, t))"

definition deliver_webhook :: "webhook_env \<Rightarrow> WebhookJob \<Rightarrow> unit webhook" where
  "deliver_webhook E job =
     (case payload_to_json E (job_payload job) of
        None \<Rightarrow> errP (Raised (WSerialization (serde_error E)))
      | Some body \<Rightarrow>
          bindP (getP clock) (\<lambda>t.
          bindP (http_send
            \<lparr> rq_job = job_id job, rq_attempt = job_attempts job, rq_url = job_url job,
              rq_signature = sign_payload E body (job_secret job),
              rq_timestamped = sign_webhook_payload_timestamped E body (job_secret job) t,
              rq_event = event_str E (payload_event (job_payload job)),
              rq_event_id = payload_event_id E (job_payload job),
              rq_idempotency_key = payload_idempotency_key E (job_payload job), rq_body = body \<rparr>) (\<lambda>res.
            case res of
              Connect_error e \<Rightarrow> errP (Raised (WUnreachable e))
            | Timeout_error e \<Rightarrow> errP (Raised (WUnreachable e))
            | Other_error e \<Rightarrow> errP (Raised (WHttp e))
            | Responded c \<Rightarrow>
                if 200 \<le> c \<and> c < 300 then okP ()
                else errP (Raised (WHttp (''HTTP '' @ status_str E c @ '' from webhook endpoint'')))
            | Cut \<Rightarrow> errP Killed)))"

section \<open>Reporting a permanent failure\<close>

definition RECENT_UNREACHABLE_CAPACITY :: nat where
  "RECENT_UNREACHABLE_CAPACITY = 8"

definition MAX_CONSECUTIVE_DEMOTIONS :: u32 where
  "MAX_CONSECUTIVE_DEMOTIONS = 5"

definition recent_unreachable_are_one_merchant :: "uuid list \<Rightarrow> bool" where
  "recent_unreachable_are_one_merchant recent =
     (recent = [] \<or> list_all (\<lambda>i. i = last recent) recent)"

fun pop_to_capacity :: "uuid list \<Rightarrow> uuid list" where
  "pop_to_capacity [] = []"
| "pop_to_capacity (x # xs) =
     (if RECENT_UNREACHABLE_CAPACITY < length (x # xs) then pop_to_capacity xs else x # xs)"

definition record_unreachable_and_check_isolated :: "uuid \<Rightarrow> bool webhook" where
  "record_unreachable_and_check_isolated w =
     thenP (modP (\<lambda>s. s\<lparr>recent_unreachable := pop_to_capacity (recent_unreachable s @ [w])\<rparr>))
     (bindP (getP recent_unreachable) (\<lambda>recent.
      bindP (getP demotion_streak) (\<lambda>streak.
        if recent_unreachable_are_one_merchant recent \<and> streak < MAX_CONSECUTIVE_DEMOTIONS then
          thenP (modP (\<lambda>s. s\<lparr>demotion_streak := streak + 1\<rparr>)) (okP True)
        else thenP (modP (\<lambda>s. s\<lparr>demotion_streak := 0\<rparr>)) (okP False))))"

definition log_permanent_failure :: "WebhookJob \<Rightarrow> WebhookError \<Rightarrow> unit webhook" where
  "log_permanent_failure job e =
     bindP (if permanent_failure_is_merchant_unreachable e
            then record_unreachable_and_check_isolated (job_store_webhook job) else okP False) (\<lambda>demoted.
       modP (\<lambda>s. s\<lparr>log_lines := log_lines s @ [Gave_up (\<not> demoted) (job_id job) (job_attempts job)]\<rparr>))"

section \<open>The service\<close>

definition enqueue_webhook :: "webhook_env \<Rightarrow> WebhookJob \<Rightarrow> unit webhook" where
  "enqueue_webhook E job =
     thenP connection
     (case job_to_json E job of
        None \<Rightarrow> errP (Raised (WSerialization (serde_error E)))
      | Some json \<Rightarrow>
          thenP (ready_add json (job_scheduled_at job)) (write_delivery_record E job DPending 0 None))"

definition on_delivered :: "webhook_env \<Rightarrow> WebhookJob \<Rightarrow> string \<Rightarrow> unit webhook" where
  "on_delivered E job member =
     thenP (record_delivery_event E job ''webhook_delivered'' None)
     (thenP (write_delivery_record E job DDelivered (job_attempts job) None)
       (clear_processing member))"

definition on_exhausted :: "webhook_env \<Rightarrow> WebhookJob \<Rightarrow> string \<Rightarrow> WebhookError \<Rightarrow> string \<Rightarrow> unit webhook" where
  "on_exhausted E job member e msg =
     thenP (log_permanent_failure job e)
     (thenP (write_delivery_record E job DFailed (job_attempts job) (Some msg))
     (thenP (record_delivery_event E job ''webhook_permanent_failed'' (Some msg))
       (clear_processing member)))"

definition on_retry :: "webhook_env \<Rightarrow> WebhookJob \<Rightarrow> string \<Rightarrow> string \<Rightarrow> unit webhook" where
  "on_retry E job member msg =
     thenP (write_delivery_record E job DRetrying (job_attempts job) (Some msg))
     (thenP (record_delivery_event E job ''webhook_retrying'' (Some msg))
     (bindP (getP clock) (\<lambda>t.
      let job' = job\<lparr>job_scheduled_at := t + int (retry_delay job)\<rparr> in
      case job_to_json E job' of
        None \<Rightarrow> errP (Raised (WSerialization (serde_error E)))
      | Some json \<Rightarrow> thenP (ready_add json (job_scheduled_at job')) (clear_processing member))))"

definition process_next_job :: "webhook_env \<Rightarrow> WebhookConfig \<Rightarrow> bool webhook" where
  "process_next_job E C =
     thenP connection
     (thenP reclaim_expired_jobs
     (bindP (getP clock) (\<lambda>t.
      bindP (call WRedis (\<lambda>s. (take 1 (zrangebyscore t (ready_queue s)), s))) (\<lambda>results.
      case results of
        [] \<Rightarrow> thenP update_queue_gauges (okP False)
      | json # _ \<Rightarrow>
          bindP (claim_job E json (t + int (visibility_timeout C))) (\<lambda>claimed.
          case claimed of
            None \<Rightarrow> okP False
          | Some member \<Rightarrow>
              (case job_from_json E json of
                 None \<Rightarrow> errP (Raised (WSerialization (serde_error E)))
               | Some job0 \<Rightarrow>
                   (let job = job0\<lparr>job_attempts := job_attempts job0 + 1\<rparr> in
                    bindP (tryW (deliver_webhook E job)) (\<lambda>result.
                    thenP
                      (case result of
                         Inr _ \<Rightarrow> on_delivered E job member
                       | Inl e \<Rightarrow>
                           (let msg = truncate_error (webhook_error_str e) 500 in
                            if is_exhausted job then on_exhausted E job member e msg
                            else on_retry E job member msg))
                      (thenP update_queue_gauges (okP True))))))))))"

definition log_process_error :: "WebhookError \<Rightarrow> unit webhook" where
  "log_process_error e =
     modP (\<lambda>s. s\<lparr>log_lines := log_lines s @ [Process_error (process_error_is_fault e (shutting_down s)) e]\<rparr>)"

definition webhook_sleep :: "nat \<Rightarrow> unit webhook" where
  "webhook_sleep d = modP (\<lambda>s. s\<lparr>clock := clock s + int d\<rparr>)"

definition webhook_turn :: "webhook_env \<Rightarrow> WebhookConfig \<Rightarrow> unit webhook" where
  "webhook_turn E C =
     bindP (tryW (process_next_job E C)) (\<lambda>r.
       case r of
         Inr True \<Rightarrow> okP ()
       | Inr False \<Rightarrow> webhook_sleep (poll_interval C)
       | Inl e \<Rightarrow> thenP (log_process_error e) (webhook_sleep (poll_interval C)))"

text \<open>The loop of \<^verbatim>\<open>run\<close> never ends by itself: this is its first \<^term>\<open>n\<close> turns, or fewer when it is killed.\<close>

primrec webhook_run :: "webhook_env \<Rightarrow> WebhookConfig \<Rightarrow> nat \<Rightarrow> unit webhook" where
  "webhook_run E C 0 = okP ()"
| "webhook_run E C (Suc n) = thenP (webhook_turn E C) (webhook_run E C n)"

section \<open>Sorted sets and claims\<close>

lemma set_zrangebyscore: "set (zrangebyscore hi z) = {k. \<exists>sc. (k, sc) \<in> set z \<and> sc \<le> hi}"
  by (force simp: zrangebyscore_def)

lemma fst_zadd [simp]: "fst ` set (zadd m sc z) = insert m (fst ` set z)"
  by (force simp: zadd_def)

lemma fst_zrem [simp]: "fst ` set (zrem m z) = fst ` set z - {m}"
  by (force simp: zrem_def)

lemma split_once_claim [simp]: "c \<notin> set u \<Longrightarrow> split_once c (u @ c # json) = Some (u, json)"
  by (induction u) (auto simp: split_once_def)

section \<open>What becomes of a job\<close>

text \<open>
  The jobs the service still holds, as the JSON texts of the ready queue and of the claims in the
  processing set.
\<close>

definition held :: "webhook_state \<Rightarrow> string set" where
  "held s = fst ` set (ready_queue s)
     \<union> {json. \<exists>member \<in> fst ` set (processing_set s). \<exists>c. split_once CHR '':'' member = Some (c, json)}"

definition retry_of :: "WebhookJob \<Rightarrow> WebhookJob \<Rightarrow> bool" where
  "retry_of job job' \<longleftrightarrow>
     job'\<lparr>job_attempts := job_attempts job, job_scheduled_at := job_scheduled_at job\<rparr> = job"

text \<open>A job is concluded when its endpoint accepted it, or when its last allowed attempt failed and the
  service reported so.\<close>

definition concluded :: "webhook_state \<Rightarrow> WebhookJob \<Rightarrow> bool" where
  "concluded s job \<longleftrightarrow>
     (\<exists>(rq, res) \<in> set (sent s). rq_job rq = job_id job \<and> is_success res)
   \<or> (\<exists>paged a. Gave_up paged (job_id job) a \<in> set (log_lines s) \<and> job_max_attempts job \<le> a)"

definition accounted :: "webhook_env \<Rightarrow> webhook_state \<Rightarrow> string \<Rightarrow> bool" where
  "accounted E s json \<longleftrightarrow> json \<in> held s
     \<or> (\<exists>job. job_from_json E json = Some job
          \<and> (concluded s job \<or> (\<exists>json' \<in> held s. \<exists>job'. job_from_json E json' = Some job' \<and> retry_of job job')))"

definition no_loss :: "webhook_env \<Rightarrow> webhook_state \<Rightarrow> webhook_state \<Rightarrow> bool" where
  "no_loss E s t \<longleftrightarrow> (\<forall>json \<in> held s. accounted E t json)
     \<and> set (sent s) \<subseteq> set (sent t) \<and> set (log_lines s) \<subseteq> set (log_lines t)"

lemma retry_of_trans: "retry_of a b \<Longrightarrow> retry_of b c \<Longrightarrow> retry_of a c"
  by (cases a; cases b; cases c) (simp add: retry_of_def)

lemma retry_of_id: "retry_of a b \<Longrightarrow> job_id b = job_id a \<and> job_max_attempts b = job_max_attempts a"
  by (cases a; cases b) (simp add: retry_of_def)

lemma concluded_mono:
  "concluded s job \<Longrightarrow> set (sent s) \<subseteq> set (sent t) \<Longrightarrow> set (log_lines s) \<subseteq> set (log_lines t) \<Longrightarrow> concluded t job"
  unfolding concluded_def by blast

lemma concluded_retry: "concluded s job' \<Longrightarrow> retry_of job job' \<Longrightarrow> concluded s job"
  unfolding concluded_def using retry_of_id[of job job'] by simp

lemma accounted_step:
  assumes "accounted E s json" "no_loss E s t"
  shows "accounted E t json"
proof (cases "json \<in> held s")
  case True
  then show ?thesis using assms(2) by (simp add: no_loss_def)
next
  case False
  then obtain job where job: "job_from_json E json = Some job"
    and or: "concluded s job \<or> (\<exists>json' \<in> held s. \<exists>job'. job_from_json E json' = Some job' \<and> retry_of job job')"
    using assms(1) by (auto simp: accounted_def)
  from or show ?thesis
  proof
    assume "concluded s job"
    then have "concluded t job" using assms(2) concluded_mono by (auto simp: no_loss_def)
    then show ?thesis using job by (auto simp: accounted_def)
  next
    assume "\<exists>json' \<in> held s. \<exists>job'. job_from_json E json' = Some job' \<and> retry_of job job'"
    then obtain json' job' where j: "json' \<in> held s" "job_from_json E json' = Some job'" "retry_of job job'"
      by blast
    then have "accounted E t json'" using assms(2) by (simp add: no_loss_def)
    then show ?thesis
      using job j(2,3) unfolding accounted_def by (metis concluded_retry option.inject retry_of_trans)
  qed
qed

interpretation no_loss: step_rel "no_loss E" for E
proof
  fix s :: webhook_state show "no_loss E s s" by (simp add: no_loss_def accounted_def)
next
  fix s t u assume "no_loss E s t" "no_loss E t u"
  moreover from this have "accounted E u json" if "json \<in> held s" for json
    using that accounted_step[of E t json u] by (simp add: no_loss_def)
  ultimately show "no_loss E s u" by (auto simp: no_loss_def)
qed

section \<open>Single calls\<close>

text \<open>What holds of a state after every call of the service, executed or not.\<close>

lemma wp_call:
  assumes "\<And>d cs. let s' = s\<lparr>call_schedule := cs, clock := clock s + int d\<rparr> in
      Q (Inr (fst (cmd s'))) (snd (cmd s')) \<and> (\<forall>e. Q (Inl e) s' \<and> Q (Inl e) (snd (cmd s')))"
  shows "wp (call err cmd) Q s"
proof (cases "call_schedule s")
  case Nil
  have "s\<lparr>call_schedule := [], clock := clock s + int 0\<rparr> = s" using Nil by (cases s) simp
  then show ?thesis using assms[of 0 "[]"] Nil unfolding Let_def by (simp only: wp_def call_def) simp
next
  case (Cons a cs)
  obtain out d where a: "a = (out, d)" by (cases a)
  show ?thesis
    using assms[of d cs] Cons a by (cases out) (auto simp: wp_def call_def Let_def)
qed

lemma wp_tryW: "wp (tryW m) Q s = wp m (\<lambda>r t. case r of Inr x \<Rightarrow> Q (Inr (Inr x)) t
    | Inl (Raised e) \<Rightarrow> Q (Inr (Inl e)) t | Inl Killed \<Rightarrow> Q (Inl Killed) t) s"
  by (auto simp: wp_def tryW_def split: prod.splits sum.splits stop.splits)

lemma wp_thenI:
  "wp m (\<lambda>r t. case r of Inl e \<Rightarrow> Q (Inl e) t | Inr _ \<Rightarrow> wp n Q t) s \<Longrightarrow> wp (thenP m n) Q s"
  by (simp add: wp_simps)

definition queue_view :: "webhook_state \<Rightarrow> zset \<times> zset \<times> (webhook_request \<times> http_result) list \<times> log_line list" where
  "queue_view s = (ready_queue s, processing_set s, sent s, log_lines s)"

lemma queue_view_sel:
  "queue_view t = queue_view s \<Longrightarrow> ready_queue t = ready_queue s \<and> processing_set t = processing_set s
     \<and> sent t = sent s \<and> log_lines t = log_lines s"
  by (simp add: queue_view_def)

lemma steps_tryW: "steps R m \<Longrightarrow> steps R (tryW m)"
  unfolding steps_def tryW_def by (auto split: prod.splits sum.splits stop.splits) (metis snd_conv)+

lemma steps_call_same:
  assumes "\<And>s. queue_view (snd (cmd s)) = queue_view s"
  shows "steps (same queue_view) (call err cmd)"
proof -
  have "wp (call err cmd) (\<lambda>_ t. same queue_view s t) s" for s
    by (rule wp_call) (auto simp: same_def Let_def assms, simp_all add: queue_view_def)
  then show ?thesis by (simp add: steps_wp)
qed

lemma records_same [steps_intros]:
  "steps (same queue_view) connection"
  "steps (same queue_view) (write_delivery_record E job st n err)"
  "steps (same queue_view) (record_delivery_event E job ty err)"
  "steps (same queue_view) update_queue_gauges"
  unfolding connection_def write_delivery_record_def record_delivery_event_def update_queue_gauges_def
  by (intro steps_intros steps_tryW steps_call_same same.steps_mod;
      simp add: queue_view_def upsert_delivery_def same_def)+

lemma held_cong: "queue_view t = queue_view s \<Longrightarrow> held t = held s"
  by (simp add: held_def queue_view_def)

lemma concluded_cong: "queue_view t = queue_view s \<Longrightarrow> concluded t job = concluded s job"
  by (simp add: concluded_def queue_view_def)

lemma no_loss_of_same: "same queue_view s t \<Longrightarrow> no_loss E s t"
  unfolding same_def no_loss_def by (auto simp: accounted_def dest: held_cong queue_view_sel)

lemma wp_then_same:
  assumes "steps (same queue_view) m" and "\<And>e t. queue_view t = queue_view s \<Longrightarrow> Q (Inl e) t"
    and "\<And>t. queue_view t = queue_view s \<Longrightarrow> wp n Q t"
  shows "wp (thenP m n) Q s"
  by (rule wp_thenI, rule wp_steps[OF assms(1)]) (auto simp: same_def assms(2,3) split: sum.split)

section \<open>Clearing a claim\<close>

text \<open>A claim may be cleared once its job is on the ready queue again, as itself or as its next attempt, or
  is concluded.\<close>

definition clearable :: "webhook_env \<Rightarrow> webhook_state \<Rightarrow> string \<Rightarrow> bool" where
  "clearable E s json \<longleftrightarrow> json \<in> fst ` set (ready_queue s)
     \<or> (\<exists>job. job_from_json E json = Some job \<and> (concluded s job
          \<or> (\<exists>json' \<in> fst ` set (ready_queue s). \<exists>job'. job_from_json E json' = Some job' \<and> retry_of job job')))"

lemma clearable_accounted:
  assumes "clearable E s json" "ready_queue t = ready_queue s" "sent t = sent s" "log_lines t = log_lines s"
  shows "accounted E t json"
proof -
  have c: "concluded t job = concluded s job" for job using assms(3,4) by (simp add: concluded_def)
  have h: "fst ` set (ready_queue s) \<subseteq> held t" using assms(2) by (auto simp: held_def)
  show ?thesis using assms(1) h unfolding clearable_def accounted_def c by blast
qed

lemma clear_no_loss:
  assumes m: "split_once CHR '':'' member = Some (c, json)" and ok: "clearable E s json"
  shows "wp (clear_processing member) (\<lambda>_ t. no_loss E s t) s"
proof -
  have keep: "no_loss E s t" if "queue_view t = queue_view s" for t
    using that by (simp add: no_loss_of_same same_def)
  have drop': "no_loss E s (t\<lparr>processing_set := zrem member (processing_set t)\<rparr>)"
    if t: "queue_view t = queue_view s" for t
  proof -
    let ?u = "t\<lparr>processing_set := zrem member (processing_set t)\<rparr>"
    have "accounted E ?u j" if "j \<in> held s" for j
    proof (cases "j = json")
      case True
      then show ?thesis using clearable_accounted[OF ok] queue_view_sel[OF t] by simp
    next
      case False
      then have "j \<in> held ?u" using that m queue_view_sel[OF t] by (auto simp: held_def)
      then show ?thesis by (simp add: accounted_def)
    qed
    then show ?thesis using queue_view_sel[OF t] by (simp add: no_loss_def)
  qed
  have "no_loss E s (s\<lparr>call_schedule := cs, clock := k\<rparr>)"
    "no_loss E s (s\<lparr>call_schedule := cs, clock := k, processing_set := zrem member (processing_set s)\<rparr>)" for cs k
    using keep[of "s\<lparr>call_schedule := cs, clock := k\<rparr>"] drop'[of "s\<lparr>call_schedule := cs, clock := k\<rparr>"]
    by (simp_all add: queue_view_def)
  then show ?thesis
    unfolding clear_processing_def
    by (intro wp_thenI, unfold wp_tryW, intro wp_call) (simp add: Let_def wp_simps split: stop.split)
qed

lemma clear_after:
  assumes "split_once CHR '':'' member = Some (c, json)" "clearable E t json" "no_loss E s t"
  shows "wp (clear_processing member) (\<lambda>_ u. no_loss E s u) t"
  by (rule wp_mono[OF clear_no_loss[OF assms(1,2)]]) (rule no_loss.R_trans[OF assms(3)])

lemma ready_add_no_loss: "wp (ready_add json sc) (\<lambda>r t. no_loss E s t
    \<and> (r = Inr () \<longrightarrow> json \<in> fst ` set (ready_queue t)) \<and> sent t = sent s \<and> log_lines t = log_lines s
    \<and> fst ` set (ready_queue s) \<subseteq> fst ` set (ready_queue t)) s"
  unfolding ready_add_def
  by (rule wp_call) (auto simp: Let_def no_loss_def accounted_def held_def)

section \<open>No job is lost\<close>

text \<open>What the service relies on: a serialised job reads back as itself, and a printed UUID has no colon.\<close>

definition texts_ok :: "webhook_env \<Rightarrow> bool" where
  "texts_ok E \<longleftrightarrow> (\<forall>job json. job_to_json E job = Some json \<longrightarrow> job_from_json E json = Some job)
     \<and> (\<forall>i. CHR '':'' \<notin> set (fmt_uuid E i))"

lemma reclaim_one_no_loss: "steps (no_loss E) (reclaim_one_expired_job t member)"
proof (cases "split_once CHR '':'' member")
  case None
  then show ?thesis by (simp add: reclaim_one_expired_job_def no_loss.steps_ok)
next
  case (Some z)
  then obtain c json where m: "split_once CHR '':'' member = Some (c, json)" by (cases z) auto
  have "wp (reclaim_one_expired_job t member) (\<lambda>_ u. no_loss E s u) s" for s
  proof -
    have clear: "wp (clear_processing member) (\<lambda>_ u. no_loss E s u) u"
      if "no_loss E s u" "json \<in> fst ` set (ready_queue u)" for u
      by (rule clear_after[OF m _ that(1)]) (simp add: clearable_def that(2))
    show ?thesis
      unfolding reclaim_one_expired_job_def m option.case prod.case wp_bind wp_tryW
      by (rule wp_mono[OF ready_add_no_loss[of json t E s]])
        (auto simp: wp_simps intro: clear split: sum.split stop.split)
  qed
  then show ?thesis by (simp add: steps_wp)
qed

lemma reclaim_no_loss: "steps (no_loss E) reclaim_expired_jobs"
  unfolding reclaim_expired_jobs_def
  by (intro steps_intros steps_tryW reclaim_one_no_loss
      steps_mono[OF steps_call_same no_loss_of_same]) simp

lemma claim_no_loss:
  assumes "texts_ok E"
  shows "wp (claim_job E json deadline) (\<lambda>r t. no_loss E s t
    \<and> (\<forall>member. r = Inr (Some member) \<longrightarrow> (\<exists>c. split_once CHR '':'' member = Some (c, json)))) s"
proof -
  have colon: "CHR '':'' \<notin> set (fmt_uuid E i)" for i using assms by (simp add: texts_ok_def)
  have script: "no_loss E s (snd (claim_script json (fmt_uuid E i @ CHR '':'' # json) deadline t))"
    if "queue_view t = queue_view s" for t i
  proof (cases "json \<in> fst ` set (ready_queue t)")
    case True
    let ?m = "fmt_uuid E i @ CHR '':'' # json"
    let ?u = "t\<lparr>ready_queue := zrem json (ready_queue t), processing_set := zadd ?m deadline (processing_set t)\<rparr>"
    have "split_once CHR '':'' ?m = Some (fmt_uuid E i, json)" using colon by simp
    then have "held s \<subseteq> held ?u" using queue_view_sel[OF that] unfolding held_def by simp blast
    then show ?thesis
      using True queue_view_sel[OF that] by (auto simp: claim_script_def no_loss_def accounted_def)
  next
    case False
    then show ?thesis using that by (simp add: claim_script_def no_loss_of_same same_def)
  qed
  have g: "\<exists>c. split_once CHR '':'' (fmt_uuid E i @ CHR '':'' # json) = Some (c, json)" for i
    using split_once_claim[OF colon] by blast
  let ?t = "\<lambda>cs k. s\<lparr>claims_drawn := Suc (claims_drawn s), call_schedule := cs, clock := k\<rparr>"
  have f: "no_loss E s (?t cs k)"
    "no_loss E s (snd (claim_script json (fmt_uuid E i @ CHR '':'' # json) deadline (?t cs k)))" for cs k i
    using script[of "?t cs k" i] by (simp_all add: no_loss_of_same same_def queue_view_def)
  show ?thesis
    unfolding claim_job_def Let_def wp_bind wp_get wp_mod sum.case
    apply (rule wp_call)
    apply (unfold Let_def sum.case wp_ok)
    apply (intro conjI allI impI f)
    by (auto simp only: g sum.inject sum.distinct option.inject option.distinct split: if_splits)
qed

lemma http_send_outcome:
  "\<exists>res d. http_send rq s = (if res = Cut then Inl Killed else Inr res,
     s\<lparr>http_schedule := tl (http_schedule s), clock := clock s + int d, sent := sent s @ [(rq, res)]\<rparr>)"
proof -
  obtain res d where "(case http_schedule s of [] \<Rightarrow> (Responded 200, 0) | x # _ \<Rightarrow> x) = (res, d)"
    by fastforce
  then show ?thesis by (intro exI[of _ res] exI[of _ d]) (simp add: http_send_def)
qed

lemma wp_http_send:
  assumes "\<And>res d. Q (if res = Cut then Inl Killed else Inr res)
     (s\<lparr>http_schedule := tl (http_schedule s), clock := clock s + int d, sent := sent s @ [(rq, res)]\<rparr>)"
  shows "wp (http_send rq) Q s"
  using http_send_outcome[of rq s] assms by (auto simp: wp_def)

lemma deliver_outcome:
  "wp (deliver_webhook E job) (\<lambda>r t. ready_queue t = ready_queue s \<and> processing_set t = processing_set s
    \<and> log_lines t = log_lines s \<and> set (sent s) \<subseteq> set (sent t)
    \<and> (r = Inr () \<longrightarrow> (\<exists>(rq, res) \<in> set (sent t). rq_job rq = job_id job \<and> is_success res))) s"
proof (cases "payload_to_json E (job_payload job)")
  case None
  then show ?thesis by (simp add: deliver_webhook_def wp_simps)
next
  case (Some body)
  show ?thesis
    unfolding deliver_webhook_def Some option.case wp_bind wp_get sum.case
    by (rule wp_http_send) (auto simp: wp_simps is_success_def split: http_result.split)
qed

lemma no_loss_of_queues:
  assumes "ready_queue t = ready_queue s" "processing_set t = processing_set s"
    "set (sent s) \<subseteq> set (sent t)" "set (log_lines s) \<subseteq> set (log_lines t)"
  shows "no_loss E s t"
proof -
  have "held t = held s" using assms(1,2) by (simp add: held_def)
  then show ?thesis using assms(3,4) by (simp add: no_loss_def accounted_def)
qed

lemma delivered_no_loss:
  assumes m: "split_once CHR '':'' member = Some (c, json)" and j: "job_from_json E json = Some job0"
    and ok: "concluded s job0"
  shows "wp (on_delivered E job member) (\<lambda>_ t. no_loss E s t) s"
  unfolding on_delivered_def
proof (intro wp_then_same records_same)
  fix t t' assume t: "queue_view t = queue_view s" "queue_view t' = queue_view t"
  have "concluded t' job0" using ok t by (metis concluded_cong)
  then have "clearable E t' json" using j by (simp add: clearable_def)
  moreover have "no_loss E s t'" using t by (simp add: no_loss_of_same same_def)
  ultimately show "wp (clear_processing member) (\<lambda>_ u. no_loss E s u) t'"
    by (rule clear_after[OF m])
qed (auto simp: no_loss_of_same same_def)

lemma wp_log_permanent:
  "wp (log_permanent_failure job e) (\<lambda>r t. r = Inr () \<and> ready_queue t = ready_queue s
     \<and> processing_set t = processing_set s \<and> sent t = sent s
     \<and> (\<exists>paged. log_lines t = log_lines s @ [Gave_up paged (job_id job) (job_attempts job)])) s"
  unfolding log_permanent_failure_def record_unreachable_and_check_isolated_def
  by (auto simp: wp_simps)

lemma exhausted_no_loss:
  assumes m: "split_once CHR '':'' member = Some (c, json)" and j: "job_from_json E json = Some job0"
    and same: "job_id job = job_id job0" "job_max_attempts job = job_max_attempts job0" and ex: "is_exhausted job"
  shows "wp (on_exhausted E job member e msg) (\<lambda>_ t. no_loss E s t) s"
  unfolding on_exhausted_def
proof (rule wp_thenI, rule wp_mono[OF wp_log_permanent])
  fix r :: "stop + unit" and u :: webhook_state
  assume u: "r = Inr () \<and> ready_queue u = ready_queue s \<and> processing_set u = processing_set s \<and> sent u = sent s
     \<and> (\<exists>paged. log_lines u = log_lines s @ [Gave_up paged (job_id job) (job_attempts job)])"
  then have su: "no_loss E s u" by (intro no_loss_of_queues) auto
  obtain paged where "log_lines u = log_lines s @ [Gave_up paged (job_id job) (job_attempts job)]"
    using u by blast
  then have done': "concluded u job0"
    unfolding concluded_def using ex same
    by (intro disjI2 exI[of _ paged] exI[of _ "job_attempts job"]) (simp add: is_exhausted_def)
  have "wp (thenP (write_delivery_record E job DFailed (job_attempts job) (Some msg))
       (thenP (record_delivery_event E job ''webhook_permanent_failed'' (Some msg)) (clear_processing member)))
     (\<lambda>_ t. no_loss E s t) u"
  proof (intro wp_then_same records_same)
    fix t t' assume t: "queue_view t = queue_view u" "queue_view t' = queue_view t"
    have "concluded t' job0" using done' t by (metis concluded_cong)
    then have "clearable E t' json" using j by (simp add: clearable_def)
    moreover have "no_loss E u t'" using t by (simp add: no_loss_of_same same_def)
    then have "no_loss E s t'" by (rule no_loss.R_trans[OF su])
    ultimately show "wp (clear_processing member) (\<lambda>_ t. no_loss E s t) t'"
      by (rule clear_after[OF m])
  qed (auto simp: no_loss_of_same same_def intro: no_loss.R_trans[OF su])
  then show "case r of Inl e \<Rightarrow> no_loss E s u | Inr _ \<Rightarrow> wp (thenP (write_delivery_record E job DFailed (job_attempts job) (Some msg))
       (thenP (record_delivery_event E job ''webhook_permanent_failed'' (Some msg)) (clear_processing member)))
     (\<lambda>_ t. no_loss E s t) u"
    using u by simp
qed

lemma retry_no_loss:
  assumes ok: "texts_ok E" and m: "split_once CHR '':'' member = Some (c, json)"
    and j: "job_from_json E json = Some job0" and same: "retry_of job0 job"
  shows "wp (on_retry E job member msg) (\<lambda>_ t. no_loss E s t) s"
  unfolding on_retry_def
proof (intro wp_then_same records_same)
  fix t t' assume t: "queue_view t = queue_view s" "queue_view t' = queue_view t"
  then have st': "no_loss E s t'" by (simp add: no_loss_of_same same_def)
  let ?job = "job\<lparr>job_scheduled_at := clock t' + int (retry_delay job)\<rparr>"
  have re: "retry_of job0 ?job" using same by (simp add: retry_of_def)
  have clear: "wp (clear_processing member) (\<lambda>_ v. no_loss E s v) u"
    if "no_loss E t' u" "json' \<in> fst ` set (ready_queue u)" "job_to_json E ?job = Some json'" for u json'
  proof -
    have "job_from_json E json' = Some ?job" using ok that(3) by (simp add: texts_ok_def)
    then have "clearable E u json" using j re that(2) by (auto simp: clearable_def)
    moreover have "no_loss E s u" using st' that(1) by (rule no_loss.R_trans)
    ultimately show ?thesis by (rule clear_after[OF m])
  qed
  show "wp (bindP (getP clock) (\<lambda>t. let job' = job\<lparr>job_scheduled_at := t + int (retry_delay job)\<rparr> in
      case job_to_json E job' of
        None \<Rightarrow> errP (Raised (WSerialization (serde_error E)))
      | Some json \<Rightarrow> thenP (ready_add json (job_scheduled_at job')) (clear_processing member)))
      (\<lambda>_ t. no_loss E s t) t'"
  proof (cases "job_to_json E ?job")
    case None
    then show ?thesis using st' by (simp add: wp_simps Let_def)
  next
    case (Some json')
    show ?thesis
      unfolding wp_bind wp_get sum.case Let_def Some option.case
      by (rule wp_mono[OF ready_add_no_loss[of json' _ E t']])
        (auto intro: clear[OF _ _ Some] no_loss.R_trans[OF st'] split: sum.split)
  qed
qed (auto simp: no_loss_of_same same_def)

lemma settle_no_loss:
  assumes ok: "texts_ok E" and m: "split_once CHR '':'' member = Some (c, json)"
    and j: "job_from_json E json = Some job0" and job: "job = job0\<lparr>job_attempts := job_attempts job0 + 1\<rparr>"
  shows "wp (bindP (tryW (deliver_webhook E job)) (\<lambda>result.
      thenP (case result of Inr _ \<Rightarrow> on_delivered E job member
         | Inl e \<Rightarrow> (let msg = truncate_error (webhook_error_str e) 500 in
             if is_exhausted job then on_exhausted E job member e msg else on_retry E job member msg))
        (thenP update_queue_gauges (okP True)))) (\<lambda>_ t. no_loss E s t) s"
proof -
  have re: "retry_of job0 job" by (simp add: job retry_of_def)
  have gauges: "wp (thenP update_queue_gauges (okP True)) (\<lambda>_ t. no_loss E s t) u" if "no_loss E s u" for u
    by (rule wp_then_same[OF records_same(4)])
      (auto simp: wp_simps intro: no_loss.R_trans[OF that] no_loss_of_same[unfolded same_def])
  have settle: "wp (thenP n (thenP update_queue_gauges (okP True))) (\<lambda>_ t. no_loss E s t) u"
    if "wp n (\<lambda>_ t. no_loss E u t) u" "no_loss E s u" for n :: "unit webhook" and u
    by (rule wp_thenI, rule wp_mono[OF that(1)])
      (auto intro: gauges no_loss.R_trans[OF that(2)] split: sum.split)
  show ?thesis
  proof (subst wp_bind, subst wp_tryW, rule wp_mono[OF deliver_outcome[of E job s]], goal_cases)
    case (1 r u)
    then have su: "no_loss E s u" by (intro no_loss_of_queues) auto
    have done': "concluded u job0" if "r = Inr ()"
      using 1 that unfolding concluded_def by (simp add: job)
    have fail: "wp (let msg = truncate_error (webhook_error_str e) 500 in
        if is_exhausted job then on_exhausted E job member e msg else on_retry E job member msg)
        (\<lambda>_ t. no_loss E u t) u" for e
      using exhausted_no_loss[OF m j, of job] retry_no_loss[OF ok m j re] by (simp add: Let_def job)
    show ?case
      using su settle[OF delivered_no_loss[OF m j done'] su] settle[OF fail su]
      by (cases r) (auto split: stop.split)
  qed
qed

lemma process_no_loss:
  assumes ok: "texts_ok E"
  shows "steps (no_loss E) (process_next_job E C)"
proof -
  note same = steps_mono[OF _ no_loss_of_same]
  have claimed: "steps (no_loss E) (bindP (claim_job E json k) (\<lambda>claimed.
      case claimed of None \<Rightarrow> okP False
      | Some member \<Rightarrow> (case job_from_json E json of
          None \<Rightarrow> errP (Raised (WSerialization (serde_error E)))
        | Some job0 \<Rightarrow> (let job = job0\<lparr>job_attempts := job_attempts job0 + 1\<rparr> in
            bindP (tryW (deliver_webhook E job)) (\<lambda>result.
            thenP (case result of Inr _ \<Rightarrow> on_delivered E job member
              | Inl e \<Rightarrow> (let msg = truncate_error (webhook_error_str e) 500 in
                  if is_exhausted job then on_exhausted E job member e msg else on_retry E job member msg))
              (thenP update_queue_gauges (okP True)))))))" for json k
    unfolding steps_wp
  proof (intro allI, subst wp_bind, rule wp_mono[OF claim_no_loss[OF ok]], goal_cases)
    case (1 s r u)
    show ?case
    proof (cases r)
      case (Inl e)
      then show ?thesis using 1 by simp
    next
      case (Inr c)
      show ?thesis
      proof (cases "c = None \<or> job_from_json E json = None")
        case True
        then show ?thesis using 1 Inr by (auto simp: wp_simps split: option.split)
      next
        case False
        then obtain member job0 where c: "c = Some member" "job_from_json E json = Some job0" by auto
        then obtain k where "split_once CHR '':'' member = Some (k, json)" using 1 Inr by auto
        note settled = wp_mono[OF settle_no_loss[OF ok this c(2) refl, of u], where Q' = "\<lambda>_. no_loss E s"]
        have "no_loss E s u" using 1 by simp
        then show ?thesis
          unfolding Inr c sum.case option.case Let_def
          using settled[unfolded Let_def] no_loss.R_trans by blast
      qed
    qed
  qed
  show ?thesis
    unfolding process_next_job_def
    by (intro no_loss.steps_bind no_loss.steps_get reclaim_no_loss same[OF records_same(1)])
       (auto intro!: claimed no_loss.steps_bind no_loss.steps_ok same[OF records_same(4)] same[OF steps_call_same]
          split: list.split)
qed

lemma run_no_loss: "texts_ok E \<Longrightarrow> steps (no_loss E) (webhook_run E C n)"
proof (induction n)
  case 0
  then show ?case by (simp add: no_loss.steps_ok)
next
  case (Suc n)
  have "steps (no_loss E) (webhook_turn E C)"
    unfolding webhook_turn_def webhook_sleep_def log_process_error_def
    by (intro no_loss.steps_bind steps_tryW process_no_loss[OF Suc.prems] steps_sum steps_bool no_loss.steps_ok
        no_loss.steps_mod no_loss_of_queues) auto
  then show ?case using Suc by (simp add: no_loss.steps_bind)
qed

end
