(* ===== verification/Webhook_Delivery.thy ===== *)
theory Webhook_Delivery
  imports Webhook_Queue Example
begin

text \<open>
  Properties of the webhook delivery service: no queued job is lost whatever fails and wherever the
  worker is killed, every job is attempted at most as often as it allows, a job on a healthy queue reaches
  an outcome, repeated failures are reported, and error messages are cut cleanly.
\<close>

section \<open>An example service\<close>

text \<open>A job announcing that the example's invoice expired, and a serialiser for its attempts.\<close>

definition ex_job :: WebhookJob where
  "ex_job =
     \<lparr> job_id = 200, job_store_webhook = 8, job_url = ''https://shop'', job_secret = ''s'',
       job_payload = Invoice_event EvInvoiceExpired
         \<lparr> inv_id = ''1'', inv_store = 5, inv_currency = ''USD'', inv_status = Expired, inv_amount = ''100'',
           inv_received = ''0'', inv_created_at = 100, inv_expires_at = 1000, inv_metadata = None,
           inv_email = None, inv_extra = None \<rparr>, job_attempts = 0, job_max_attempts = 7,
       job_created_at = 500, job_scheduled_at = 500 \<rparr>"

definition ex_int :: "string \<Rightarrow> int option" where
  "ex_int t =
     (if t \<noteq> [] \<and> hd t = CHR ''-'' then map_option (\<lambda>n. - int n) (unsigned_digits (tl t))
      else map_option int (unsigned_digits t))"

definition ex_write :: "WebhookJob \<Rightarrow> string option" where
  "ex_write job =
     (if retry_of ex_job job
      then Some (show_nat (unat (job_attempts job)) @ CHR '','' # show_int (job_scheduled_at job)) else None)"

definition ex_read :: "string \<Rightarrow> WebhookJob option" where
  "ex_read json =
     (case split_on CHR '','' json of
        [a, t] \<Rightarrow>
          (case (unsigned_digits a, ex_int t) of
             (Some n, Some i) \<Rightarrow> Some (ex_job\<lparr>job_attempts := of_nat n, job_scheduled_at := i\<rparr>)
           | _ \<Rightarrow> None)
      | _ \<Rightarrow> None)"

definition ex_webhook_env :: webhook_env where
  "ex_webhook_env =
     env.extend ex_env (webhook_env.fields ex_write ex_read (\<lambda>_. Some ''{}'') (\<lambda>_. Some (JBool True))
       (\<lambda>_. ''1'') (\<lambda>_. ''9'') (\<lambda>_. ''k'') ''bad json'' (\<lambda>k m. k @ m) show_nat)"

definition ex_queue :: webhook_state where
  "ex_queue =
     \<lparr> ready_queue = [], processing_set = [], redis_connected = False, webhook_deliveries = [],
       delivery_events = [], recent_unreachable = [], demotion_streak = 0, shutting_down = False,
       queue_depth = 0, ready_depth = 0, clock = 500, claim_ids = (\<lambda>n. n + 300), claims_drawn = 0,
       call_schedule = [], http_schedule = [], sent = [], log_lines = [] \<rparr>"

lemma ex_int_show: "ex_int (show_int i) = Some i"
  by (auto simp: ex_int_def show_int_def unsigned_digits_show_nat hd_show_nat_sign)

lemma retry_of_expand:
  "retry_of a b \<Longrightarrow> b = a\<lparr>job_attempts := job_attempts b, job_scheduled_at := job_scheduled_at b\<rparr>"
  by (cases a; cases b) (simp add: retry_of_def)

lemma ex_read_write: "ex_write job = Some json \<Longrightarrow> ex_read json = Some job"
proof -
  assume w: "ex_write job = Some json"
  have comma: "CHR '','' \<notin> set (show_nat n)" "CHR '','' \<notin> set (show_int i)" for n i
    using digits_not_sep[of "CHR '',''"] by (auto simp: is_digit_def show_int_def)
  have "retry_of ex_job job" "json = show_nat (unat (job_attempts job)) @ CHR '','' # show_int (job_scheduled_at job)"
    using w by (auto simp: ex_write_def split: if_splits)
  then show ?thesis
    using retry_of_expand[of ex_job job] comma
    by (simp add: ex_read_def split_on_sep split_on_no_sep unsigned_digits_show_nat ex_int_show)
qed

lemma texts_ok_ex: "texts_ok ex_webhook_env"
  unfolding texts_ok_def
  using ex_read_write digits_not_sep[of "CHR '':''"]
  by (auto simp: ex_webhook_env_def env.extend_def webhook_env.fields_def ex_env_def is_digit_def)

section \<open>No job is lost\<close>

lemma queued_is_held:
  assumes "enqueue_webhook E job s = (Inr (), t)"
  shows "\<exists>json \<in> held t. job_to_json E job = Some json"
proof -
  have "wp (enqueue_webhook E job)
      (\<lambda>r t. r = Inr () \<longrightarrow> (\<exists>json \<in> held t. job_to_json E job = Some json)) s"
  proof (cases "job_to_json E job")
    case None
    show ?thesis
      unfolding enqueue_webhook_def None option.case
      by (intro wp_then_same records_same) (auto simp: wp_simps)
  next
    case (Some json)
    have w: "wp (write_delivery_record E job DPending 0 None) (\<lambda>r v. r = Inr () \<longrightarrow> json \<in> held v) u"
      if "json \<in> fst ` set (ready_queue u)" for u
      by (rule wp_steps[OF records_same(2)]) (use that in \<open>simp add: same_def held_def queue_view_def\<close>)
    have q: "wp (thenP (ready_add json (job_scheduled_at job)) (write_delivery_record E job DPending 0 None))
        (\<lambda>r v. r = Inr () \<longrightarrow> json \<in> held v) u" for u
      by (intro wp_thenI wp_mono[OF ready_add_no_loss[of json _ E]])
        (simp add: w split: sum.split)
    show ?thesis
      unfolding enqueue_webhook_def Some option.case
      by (rule wp_then_same[OF records_same(1)]) (simp_all add: q)
  qed
  then show ?thesis using assms by (auto dest: wpD)
qed

text \<open>
  C12 (safety): Once a webhook job has been queued it is never lost.  However many turns the delivery loop
  takes, whichever calls to Redis or the database fail before or after taking effect, and wherever the
  worker is killed, the job is still on the queue or in a claim, up to its attempt count and next attempt
  time, or its endpoint accepted it, or its last allowed attempt failed and that was reported.
\<close>

theorem queued_job_never_lost:
  assumes "texts_ok E" "enqueue_webhook E job s = (Inr (), u)" "webhook_run E C n u = (r, t)"
  shows "(\<exists>json \<in> held t. \<exists>job'. job_from_json E json = Some job' \<and> retry_of job job') \<or> concluded t job"
proof -
  obtain json where json: "json \<in> held u" "job_to_json E job = Some json"
    using queued_is_held[OF assms(2)] by blast
  then have "job_from_json E json = Some job" using assms(1) by (simp add: texts_ok_def)
  moreover have "accounted E t json"
    using stepsD[OF run_no_loss[OF assms(1)] assms(3)] json(1) by (simp add: no_loss_def)
  moreover have "retry_of job job" by (simp add: retry_of_def)
  ultimately show ?thesis unfolding accounted_def by auto
qed

text \<open>The job is queued; its worker claims it and is killed while the endpoint holds the request.\<close>

definition ex_killed :: webhook_state where
  "ex_killed = snd (thenP (enqueue_webhook ex_webhook_env ex_job)
     (webhook_run ex_webhook_env webhook_config_default 3) (ex_queue\<lparr>http_schedule := [(Cut, 1)]\<rparr>))"

theorem queued_job_never_lost_witness:
  "(\<exists>json \<in> held ex_killed. \<exists>job'. job_from_json ex_webhook_env json = Some job' \<and> retry_of ex_job job')
    \<or> concluded ex_killed ex_job"
proof -
  let ?q = "enqueue_webhook ex_webhook_env ex_job (ex_queue\<lparr>http_schedule := [(Cut, 1)]\<rparr>)"
  have "fst ?q = Inr ()" by code_simp
  then have q: "?q = (Inr (), snd ?q)" by (metis prod.collapse)
  let ?r = "webhook_run ex_webhook_env webhook_config_default 3 (snd ?q)"
  have r: "?r = (fst ?r, ex_killed)"
    unfolding ex_killed_def by (subst bindP_ok, rule q) simp
  show ?thesis by (rule queued_job_never_lost[OF texts_ok_ex q r])
qed

section \<open>A healthy queue\<close>

text \<open>One job, nothing in flight, and no call that fails.\<close>

definition lone :: "webhook_state \<Rightarrow> string \<Rightarrow> int \<Rightarrow> bool" where
  "lone s json due \<longleftrightarrow> ready_queue s = [(json, due)] \<and> processing_set s = [] \<and> call_schedule s = []"

definition drained :: "webhook_state \<Rightarrow> bool" where
  "drained s \<longleftrightarrow> ready_queue s = [] \<and> processing_set s = [] \<and> call_schedule s = []"

lemma call_healthy: "call_schedule s = [] \<Longrightarrow> call err cmd s = (Inr (fst (cmd s)), snd (cmd s))"
  by (simp add: call_def)

lemma connection_healthy:
  "call_schedule s = [] \<Longrightarrow> connection s = (Inr (), s\<lparr>redis_connected := True\<rparr>)"
  by (cases s) (simp add: connection_def bindP_def getP_def okP_def modP_def call_def)

lemma tryW_ok: "m s = (Inr x, t) \<Longrightarrow> tryW m s = (Inr (Inr x), t)"
  by (simp add: tryW_def)

lemma tryW_raised: "m s = (Inl (Raised e), t) \<Longrightarrow> tryW m s = (Inr (Inl e), t)"
  by (simp add: tryW_def)

lemma reclaim_healthy:
  "call_schedule s = [] \<Longrightarrow> processing_set s = [] \<Longrightarrow> reclaim_expired_jobs s = (Inr (), s)"
  by (simp add: reclaim_expired_jobs_def bindP_def getP_def tryW_def call_def zrangebyscore_def okP_def)

lemma gauges_healthy:
  "call_schedule s = [] \<Longrightarrow> \<exists>a b. update_queue_gauges s = (Inr (), s\<lparr>queue_depth := a, ready_depth := b\<rparr>)"
  unfolding update_queue_gauges_def
  by (rule exI[of _ "length (ready_queue s)"], rule exI[of _ "length (filter (\<lambda>(_, sc). sc \<le> clock s) (ready_queue s))"])
    (simp add: bindP_def getP_def tryW_def call_def modP_def)

lemma event_healthy:
  "call_schedule s = [] \<Longrightarrow> \<exists>es. record_delivery_event E job ty err s = (Inr (), s\<lparr>delivery_events := es\<rparr>)"
  by (simp add: record_delivery_event_def bindP_def tryW_def call_def okP_def) blast

lemma record_healthy:
  "call_schedule s = [] \<Longrightarrow> \<exists>ds. write_delivery_record E job st n err s = (Inr (), s\<lparr>webhook_deliveries := ds\<rparr>)"
proof (cases "payload_to_value E (job_payload job)")
  case None
  then show ?thesis by (intro exI[of _ "webhook_deliveries s"]) (simp add: write_delivery_record_def okP_def)
next
  case (Some v)
  assume "call_schedule s = []"
  with Some show ?thesis
    by (simp add: write_delivery_record_def bindP_def tryW_def call_def okP_def upsert_delivery_def) blast
qed

lemma clear_healthy:
  "call_schedule s = [] \<Longrightarrow>
     clear_processing m s = (Inr (), s\<lparr>processing_set := zrem m (processing_set s)\<rparr>)"
  by (simp add: clear_processing_def bindP_def tryW_def call_def okP_def)

lemma zrange_lone: "zrangebyscore t [(json, due)] = (if due \<le> t then [json] else [])"
  by (simp add: zrangebyscore_def)

lemma idle_turn:
  assumes "lone s json due" "clock s < due"
  shows "\<exists>t. webhook_turn E C s = (Inr (), t) \<and> lone t json due \<and> clock t = clock s + int (poll_interval C)
    \<and> http_schedule t = http_schedule s \<and> sent t = sent s \<and> log_lines t = log_lines s"
proof -
  let ?s = "s\<lparr>redis_connected := True\<rparr>"
  have s: "ready_queue s = [(json, due)]" "processing_set s = []" "call_schedule s = []"
    using assms(1) by (auto simp: lone_def)
  obtain a b where g: "update_queue_gauges ?s = (Inr (), ?s\<lparr>queue_depth := a, ready_depth := b\<rparr>)"
    using gauges_healthy[of ?s] s by auto
  have "process_next_job E C s = (Inr False, ?s\<lparr>queue_depth := a, ready_depth := b\<rparr>)"
    unfolding process_next_job_def
    using assms(2) s g
    by (simp add: bindP_def connection_healthy reclaim_healthy getP_def call_healthy zrange_lone okP_def)
  then show ?thesis
    using s by (simp add: webhook_turn_def bindP_def tryW_def webhook_sleep_def modP_def lone_def)
qed

lemma run_Suc: "webhook_turn E C s = (Inr (), t) \<Longrightarrow> webhook_run E C (Suc n) s = webhook_run E C n t"
  by (simp add: bindP_def)

lemma run_add:
  "webhook_run E C n s = (Inr (), t) \<Longrightarrow> webhook_run E C (n + k) s = webhook_run E C k t"
  by (induction n arbitrary: s) (auto simp: okP_def bindP_Inr_iff, simp add: bindP_def)

lemma wait_until_due:
  assumes "lone s json due" "0 < poll_interval C"
  shows "\<exists>n t. webhook_run E C n s = (Inr (), t) \<and> lone t json due \<and> due \<le> clock t
    \<and> http_schedule t = http_schedule s \<and> sent t = sent s \<and> log_lines t = log_lines s"
  using assms(1)
proof (induction "nat (due - clock s)" arbitrary: s rule: less_induct)
  case less
  show ?case
  proof (cases "due \<le> clock s")
    case True
    then show ?thesis using less.prems by (intro exI[of _ 0] exI[of _ s]) (simp add: okP_def)
  next
    case False
    then obtain u where u: "webhook_turn E C s = (Inr (), u)" "lone u json due"
      "clock u = clock s + int (poll_interval C)" "http_schedule u = http_schedule s" "sent u = sent s"
      "log_lines u = log_lines s"
      using idle_turn[OF less.prems, of E C] by auto
    then have "nat (due - clock u) < nat (due - clock s)" using assms(2) False by simp
    from less.hyps[OF this u(2)] obtain n t where "webhook_run E C n u = (Inr (), t) \<and> lone t json due \<and> due \<le> clock t
      \<and> http_schedule t = http_schedule u \<and> sent t = sent u \<and> log_lines t = log_lines u" by blast
    then show ?thesis using u run_Suc[OF u(1)] by (intro exI[of _ "Suc n"] exI[of _ t]) simp
  qed
qed

lemma claim_healthy:
  assumes "lone s json due"
  shows "\<exists>member k. claim_job E json deadline s = (Inr (Some member),
    s\<lparr>claims_drawn := k, ready_queue := [], processing_set := [(member, deadline)]\<rparr>)"
  using assms
  by (intro exI[of _ "fmt_uuid E (claim_ids s (claims_drawn s)) @ CHR '':'' # json"]
      exI[of _ "Suc (claims_drawn s)"])
    (simp add: claim_job_def lone_def bindP_def getP_def modP_def call_def claim_script_def zrem_def zadd_def
      okP_def Let_def)

text \<open>What is left of a claimed job once its result is known.\<close>

definition in_claim :: "webhook_state \<Rightarrow> string \<Rightarrow> bool" where
  "in_claim s member \<longleftrightarrow> ready_queue s = [] \<and> (\<exists>k. processing_set s = [(member, k)]) \<and> call_schedule s = []"

lemma clear_in_claim:
  assumes "call_schedule s = []" "processing_set s = [(member, k)]"
  shows "clear_processing member s = (Inr (), s\<lparr>processing_set := []\<rparr>)"
  using assms by (simp add: clear_healthy zrem_def)

lemma delivered_healthy:
  assumes "in_claim s member"
  shows "\<exists>t. on_delivered E job member s = (Inr (), t) \<and> drained t
    \<and> sent t = sent s \<and> log_lines t = log_lines s \<and> http_schedule t = http_schedule s"
proof -
  obtain k where s: "ready_queue s = []" "processing_set s = [(member, k)]" "call_schedule s = []"
    using assms by (auto simp: in_claim_def)
  obtain es where e: "record_delivery_event E job ''webhook_delivered'' None s = (Inr (), s\<lparr>delivery_events := es\<rparr>)"
    using event_healthy[OF s(3)] by blast
  obtain ds where "write_delivery_record E job DDelivered (job_attempts job) None (s\<lparr>delivery_events := es\<rparr>)
      = (Inr (), s\<lparr>delivery_events := es, webhook_deliveries := ds\<rparr>)"
    using record_healthy[of "s\<lparr>delivery_events := es\<rparr>" E job DDelivered "job_attempts job" None] s(3) by auto
  with e s show ?thesis
    by (simp add: on_delivered_def bindP_def clear_in_claim[where k = k] drained_def)
qed

lemma exhausted_healthy:
  assumes "in_claim s member"
  shows "\<exists>t paged. on_exhausted E job member e msg s = (Inr (), t) \<and> drained t \<and> sent t = sent s
    \<and> log_lines t = log_lines s @ [Gave_up paged (job_id job) (job_attempts job)]
    \<and> http_schedule t = http_schedule s"
proof -
  obtain k where s: "ready_queue s = []" "processing_set s = [(member, k)]" "call_schedule s = []"
    using assms by (auto simp: in_claim_def)
  have "wp (log_permanent_failure job e) (\<lambda>r u. r = Inr () \<and> ready_queue u = [] \<and> processing_set u = [(member, k)]
      \<and> call_schedule u = [] \<and> http_schedule u = http_schedule s \<and> sent u = sent s
      \<and> (\<exists>paged. log_lines u = log_lines s @ [Gave_up paged (job_id job) (job_attempts job)])) s"
    unfolding log_permanent_failure_def record_unreachable_and_check_isolated_def
    using s by (auto simp: wp_simps)
  then obtain u paged where u: "log_permanent_failure job e s = (Inr (), u)" "ready_queue u = []"
    "processing_set u = [(member, k)]" "call_schedule u = []" "http_schedule u = http_schedule s" "sent u = sent s"
    "log_lines u = log_lines s @ [Gave_up paged (job_id job) (job_attempts job)]"
    by (auto simp: wp_def split: prod.splits)
  obtain ds where d: "write_delivery_record E job DFailed (job_attempts job) (Some msg) u
      = (Inr (), u\<lparr>webhook_deliveries := ds\<rparr>)"
    using record_healthy[OF u(4)] by blast
  obtain es where "record_delivery_event E job ''webhook_permanent_failed'' (Some msg) (u\<lparr>webhook_deliveries := ds\<rparr>)
      = (Inr (), u\<lparr>webhook_deliveries := ds, delivery_events := es\<rparr>)"
    using event_healthy[of "u\<lparr>webhook_deliveries := ds\<rparr>" E job "''webhook_permanent_failed''" "Some msg"] u(4) by auto
  with d u show ?thesis
    by (simp add: on_exhausted_def bindP_def clear_in_claim[where k = k] drained_def)
qed

lemma retry_healthy:
  assumes "in_claim s member" and js: "\<And>t. \<exists>json. job_to_json E (job\<lparr>job_scheduled_at := t\<rparr>) = Some json"
  shows "\<exists>t json due. on_retry E job member msg s = (Inr (), t) \<and> lone t json due
    \<and> job_to_json E (job\<lparr>job_scheduled_at := due\<rparr>) = Some json
    \<and> sent t = sent s \<and> log_lines t = log_lines s \<and> http_schedule t = http_schedule s"
proof -
  obtain k where s: "ready_queue s = []" "processing_set s = [(member, k)]" "call_schedule s = []"
    using assms(1) by (auto simp: in_claim_def)
  obtain ds where d: "write_delivery_record E job DRetrying (job_attempts job) (Some msg) s
      = (Inr (), s\<lparr>webhook_deliveries := ds\<rparr>)"
    using record_healthy[OF s(3)] by blast
  obtain es where e: "record_delivery_event E job ''webhook_retrying'' (Some msg) (s\<lparr>webhook_deliveries := ds\<rparr>)
      = (Inr (), s\<lparr>webhook_deliveries := ds, delivery_events := es\<rparr>)"
    using event_healthy[of "s\<lparr>webhook_deliveries := ds\<rparr>" E job "''webhook_retrying''" "Some msg"] s(3) by auto
  let ?due = "clock s + int (retry_delay job)"
  obtain json where "job_to_json E (job\<lparr>job_scheduled_at := ?due\<rparr>) = Some json" using js by blast
  with d e s show ?thesis
    by (simp add: on_retry_def bindP_def getP_def Let_def ready_add_def call_healthy zadd_def
        clear_in_claim[where k = k] lone_def)
qed

text \<open>What the endpoint answers next.\<close>

definition next_answer :: "webhook_state \<Rightarrow> http_result" where
  "next_answer s = (case http_schedule s of [] \<Rightarrow> Responded 200 | (res, _) # _ \<Rightarrow> res)"

lemma deliver_healthy:
  assumes "payload_to_json E (job_payload job) = Some body" "next_answer s \<noteq> Cut"
  shows "\<exists>rq e d. deliver_webhook E job s = (if is_success (next_answer s) then Inr () else Inl (Raised e),
      s\<lparr>http_schedule := tl (http_schedule s), clock := clock s + int d, sent := sent s @ [(rq, next_answer s)]\<rparr>)
    \<and> rq_job rq = job_id job \<and> rq_attempt rq = job_attempts job"
proof -
  obtain d where n: "(case http_schedule s of [] \<Rightarrow> (Responded 200, 0) | x # _ \<Rightarrow> x) = (next_answer s, d)"
    by (cases "http_schedule s") (auto simp: next_answer_def)
  have send: "http_send rq s = (Inr (next_answer s), s\<lparr>http_schedule := tl (http_schedule s),
      clock := clock s + int d, sent := sent s @ [(rq, next_answer s)]\<rparr>)" for rq
    using assms(2) n by (simp add: http_send_def)
  show ?thesis
    unfolding deliver_webhook_def assms(1) option.case bindP_def getP_def prod.case sum.case send
    by (cases "next_answer s"; cases "is_success (next_answer s)"; intro exI conjI)
      (auto simp: okP_def errP_def is_success_def assms(2))
qed

definition after_delivery :: "webhook_env \<Rightarrow> WebhookJob \<Rightarrow> string \<Rightarrow> WebhookError + unit \<Rightarrow> unit webhook" where
  "after_delivery E job member result =
     (case result of
        Inr _ \<Rightarrow> on_delivered E job member
      | Inl e \<Rightarrow>
          (let msg = truncate_error (webhook_error_str e) 500 in
           if is_exhausted job then on_exhausted E job member e msg else on_retry E job member msg))"

lemma after_delivery_healthy:
  assumes ok: "texts_ok E" and d: "in_claim s member"
    and won: "\<And>x. result = Inr x \<Longrightarrow> concluded s job"
    and js: "\<And>t. \<exists>json. job_to_json E (job\<lparr>job_scheduled_at := t\<rparr>) = Some json"
  shows "\<exists>u. after_delivery E job member result s = (Inr (), u) \<and> http_schedule u = http_schedule s
    \<and> call_schedule u = [] \<and> sent u = sent s
    \<and> (drained u \<and> concluded u job \<or> job_attempts job < job_max_attempts job
      \<and> (\<exists>json due. lone u json due \<and> job_from_json E json = Some (job\<lparr>job_scheduled_at := due\<rparr>)))"
proof (cases result)
  case (Inr x)
  then obtain u where "on_delivered E job member s = (Inr (), u) \<and> drained u
    \<and> sent u = sent s \<and> log_lines u = log_lines s \<and> http_schedule u = http_schedule s"
    using delivered_healthy[OF d] by blast
  then show ?thesis using won[OF Inr] Inr by (auto simp: after_delivery_def concluded_def drained_def)
next
  case (Inl e)
  show ?thesis
  proof (cases "is_exhausted job")
    case True
    obtain u paged where u: "on_exhausted E job member e (truncate_error (webhook_error_str e) 500) s = (Inr (), u)"
      "drained u" "sent u = sent s" "http_schedule u = http_schedule s"
      "log_lines u = log_lines s @ [Gave_up paged (job_id job) (job_attempts job)]"
      using exhausted_healthy[OF d] by blast
    then have "concluded u job"
      unfolding concluded_def using True
      by (intro disjI2 exI[of _ paged] exI[of _ "job_attempts job"]) (simp add: is_exhausted_def)
    then show ?thesis using u Inl True by (simp add: after_delivery_def drained_def)
  next
    case False
    obtain u json due where u: "on_retry E job member (truncate_error (webhook_error_str e) 500) s = (Inr (), u)"
      "lone u json due" "job_to_json E (job\<lparr>job_scheduled_at := due\<rparr>) = Some json" "sent u = sent s"
      "http_schedule u = http_schedule s"
      using retry_healthy[OF d js] by blast
    then have "job_from_json E json = Some (job\<lparr>job_scheduled_at := due\<rparr>)" using ok by (simp add: texts_ok_def)
    then show ?thesis
      using u Inl False by (intro exI[of _ u]) (auto simp: after_delivery_def lone_def is_exhausted_def)
  qed
qed

text \<open>One attempt ends the job or puts its next attempt on the queue.\<close>

lemma attempt_turn:
  assumes ok: "texts_ok E" and s: "lone s json due" "due \<le> clock s" "next_answer s \<noteq> Cut"
    and j: "job_from_json E json = Some job" "payload_to_json E (job_payload job) = Some body"
    and js: "\<And>a t. \<exists>json. job_to_json E (job\<lparr>job_attempts := a, job_scheduled_at := t\<rparr>) = Some json"
  shows "\<exists>t. webhook_turn E C s = (Inr (), t) \<and> http_schedule t = tl (http_schedule s)
    \<and> length (sent t) = Suc (length (sent s))
    \<and> (drained t \<and> concluded t job
      \<or> job_attempts job + 1 < job_max_attempts job
        \<and> (\<exists>json' due'. lone t json' due' \<and> job_from_json E json' =
              Some (job\<lparr>job_attempts := job_attempts job + 1, job_scheduled_at := due'\<rparr>)))"
proof -
  let ?job = "job\<lparr>job_attempts := job_attempts job + 1\<rparr>"
  let ?s = "s\<lparr>redis_connected := True\<rparr>"
  obtain member k where c: "claim_job E json (clock s + int (visibility_timeout C)) ?s = (Inr (Some member),
      ?s\<lparr>claims_drawn := k, ready_queue := [], processing_set := [(member, clock s + int (visibility_timeout C))]\<rparr>)"
    using claim_healthy[of ?s json due E "clock s + int (visibility_timeout C)"] s(1) by (auto simp: lone_def)
  let ?c = "?s\<lparr>claims_drawn := k, ready_queue := [], processing_set := [(member, clock s + int (visibility_timeout C))]\<rparr>"
  have n: "next_answer ?c = next_answer s" by (simp add: next_answer_def)
  obtain rq e d where dl: "deliver_webhook E ?job ?c = (if is_success (next_answer s) then Inr () else Inl (Raised e),
      ?c\<lparr>http_schedule := tl (http_schedule s), clock := clock s + int d, sent := sent s @ [(rq, next_answer s)]\<rparr>)"
    "rq_job rq = job_id job"
    using deliver_healthy[of E ?job body ?c] j(2) s(3) n by auto
  let ?d = "?c\<lparr>http_schedule := tl (http_schedule s), clock := clock s + int d, sent := sent s @ [(rq, next_answer s)]\<rparr>"
  have d: "in_claim ?d member" using s(1) by (simp add: in_claim_def lone_def)
  let ?r = "if is_success (next_answer s) then Inr () else Inl e"
  have "concluded ?d ?job" if "?r = Inr x" for x
    using that dl(2) by (auto simp: concluded_def split: if_splits)
  moreover have "\<exists>json. job_to_json E (?job\<lparr>job_scheduled_at := t\<rparr>) = Some json" for t
    using js by simp
  ultimately obtain u where u: "after_delivery E ?job member ?r ?d = (Inr (), u)"
    "http_schedule u = tl (http_schedule s)" "call_schedule u = []" "sent u = sent s @ [(rq, next_answer s)]"
    "drained u \<and> concluded u ?job \<or> job_attempts job + 1 < job_max_attempts job
      \<and> (\<exists>json' due'. lone u json' due' \<and> job_from_json E json' = Some (?job\<lparr>job_scheduled_at := due'\<rparr>))"
    using after_delivery_healthy[OF ok d, of ?r ?job] by auto
  obtain a b where g: "update_queue_gauges u = (Inr (), u\<lparr>queue_depth := a, ready_depth := b\<rparr>)"
    using gauges_healthy[OF u(3)] by blast
  have "process_next_job E C s = (Inr True, u\<lparr>queue_depth := a, ready_depth := b\<rparr>)"
    unfolding process_next_job_def
    using s(1,2) c j(1) dl(1) u(1) g
    by (cases "is_success (next_answer s)")
      (simp_all add: bindP_def connection_healthy reclaim_healthy getP_def call_healthy zrange_lone lone_def
        tryW_def after_delivery_def okP_def Let_def)
  then show ?thesis
    using u by (auto simp: webhook_turn_def bindP_def tryW_def okP_def drained_def concluded_def lone_def)
qed

lemma job_concludes:
  assumes ok: "texts_ok E" and poll: "0 < poll_interval C"
    and body: "payload_to_json E (job_payload job) = Some body"
    and js: "\<And>a t. \<exists>json. job_to_json E (job\<lparr>job_attempts := a, job_scheduled_at := t\<rparr>) = Some json"
    and s: "lone s json due" "job_from_json E json = Some (job\<lparr>job_attempts := a, job_scheduled_at := due'\<rparr>)"
      "a < job_max_attempts job" "Cut \<notin> fst ` set (http_schedule s)"
  shows "\<exists>n t. webhook_run E C n s = (Inr (), t) \<and> drained t \<and> concluded t job
    \<and> length (sent t) \<le> length (sent s) + (unat (job_max_attempts job) - unat a)"
  using s
proof (induction "unat (job_max_attempts job) - unat a" arbitrary: s json due a due' rule: less_induct)
  case less
  let ?job = "job\<lparr>job_attempts := a, job_scheduled_at := due'\<rparr>"
  obtain n u where u: "webhook_run E C n s = (Inr (), u)" "lone u json due" "due \<le> clock u"
    "http_schedule u = http_schedule s" "sent u = sent s" "log_lines u = log_lines s"
    using wait_until_due[OF less.prems(1) poll] by blast
  have "next_answer u \<noteq> Cut"
    using less.prems(4) u(4) by (force simp: next_answer_def split: list.splits)
  then obtain v where v: "webhook_turn E C u = (Inr (), v)" "http_schedule v = tl (http_schedule s)"
    "length (sent v) = Suc (length (sent s))"
    "drained v \<and> concluded v ?job \<or> a + 1 < job_max_attempts job
        \<and> (\<exists>json' due''. lone v json' due'' \<and> job_from_json E json' =
              Some (job\<lparr>job_attempts := a + 1, job_scheduled_at := due''\<rparr>))"
    using attempt_turn[OF ok u(2,3) _ less.prems(2), of body C] body js u(4,5) by auto
  have nv: "webhook_run E C (n + 1) s = (Inr (), v)"
    using run_add[OF u(1), of 1] v(1) by (simp add: bindP_def okP_def)
  have a: "unat a < unat (job_max_attempts job)" using less.prems(3) by (simp add: word_less_nat_alt)
  from v(4) show ?case
  proof
    assume "drained v \<and> concluded v ?job"
    then show ?thesis
      using nv v(3) a by (intro exI[of _ "n + 1"] exI[of _ v]) (auto simp: concluded_def)
  next
    assume "a + 1 < job_max_attempts job
        \<and> (\<exists>json' due''. lone v json' due'' \<and> job_from_json E json' =
              Some (job\<lparr>job_attempts := a + 1, job_scheduled_at := due''\<rparr>))"
    then obtain json' due'' where more: "a + 1 < job_max_attempts job" "lone v json' due''"
      "job_from_json E json' = Some (job\<lparr>job_attempts := a + 1, job_scheduled_at := due''\<rparr>)" by blast
    have "unat (job_max_attempts job) < 2 ^ 32" using unsigned_less[of "job_max_attempts job"] by simp
    then have suc: "unat (a + 1) = Suc (unat a)" using a by (simp add: unat_word_ariths(1))
    have cut: "Cut \<notin> fst ` set (http_schedule v)"
      using less.prems(4) v(2) by (cases "http_schedule s") auto
    have "unat (job_max_attempts job) - unat (a + 1) < unat (job_max_attempts job) - unat a"
      using suc a by simp
    from less.hyps[OF this more(2,3,1) cut] obtain m t where
      t: "webhook_run E C m v = (Inr (), t)" "drained t" "concluded t job"
        "length (sent t) \<le> length (sent v) + (unat (job_max_attempts job) - Suc (unat a))"
      unfolding suc by blast
    then show ?thesis
      using run_add[OF nv, of m] v(3) a by (intro exI[of _ "n + 1 + m"] exI[of _ t]) simp
  qed
qed

lemma enqueue_healthy:
  assumes "drained s" "job_to_json E job = Some json"
  shows "\<exists>t. enqueue_webhook E job s = (Inr (), t) \<and> lone t json (job_scheduled_at job)
    \<and> http_schedule t = http_schedule s \<and> sent t = sent s"
proof -
  let ?t = "s\<lparr>redis_connected := True, ready_queue := [(json, job_scheduled_at job)]\<rparr>"
  have s: "ready_queue s = []" "processing_set s = []" "call_schedule s = []"
    using assms(1) by (auto simp: drained_def)
  obtain ds where "write_delivery_record E job DPending 0 None ?t = (Inr (), ?t\<lparr>webhook_deliveries := ds\<rparr>)"
    using record_healthy[of ?t E job DPending 0 None] s by auto
  then show ?thesis
    using s assms(2)
    by (simp add: enqueue_webhook_def bindP_def connection_healthy ready_add_def call_healthy zadd_def lone_def)
qed


definition ex_failing :: webhook_state where
  "ex_failing = ex_queue\<lparr>http_schedule := replicate 7 (Responded 503, 1)\<rparr>"


section \<open>Reporting\<close>

text \<open>The answers to a series of permanent failures of unreachable endpoints: may each be demoted?\<close>

primrec demotions :: "uuid list \<Rightarrow> webhook_state \<Rightarrow> bool list" where
  "demotions [] s = []"
| "demotions (w # ws) s =
     (case record_unreachable_and_check_isolated w s of
        (Inr b, t) \<Rightarrow> b # demotions ws t | (Inl _, t) \<Rightarrow> demotions ws t)"

lemma pop_to_capacity_suffix: "pop_to_capacity xs = drop (length xs - 8) xs"
  by (induction xs) (auto simp: RECENT_UNREACHABLE_CAPACITY_def drop_Cons')

lemma record_unreachable_eq:
  "record_unreachable_and_check_isolated w s =
     (let recent = pop_to_capacity (recent_unreachable s @ [w]);
          demote = recent_unreachable_are_one_merchant recent \<and> demotion_streak s < 5 in
      (Inr demote, s\<lparr>recent_unreachable := recent,
         demotion_streak := if demote then demotion_streak s + 1 else 0\<rparr>))"
  by (simp add: record_unreachable_and_check_isolated_def bindP_def modP_def getP_def okP_def
      MAX_CONSECUTIVE_DEMOTIONS_def Let_def)

lemma all_demoted:
  assumes "demotion_streak s \<le> 5" "set (demotions ws s) \<subseteq> {True}"
  shows "unat (demotion_streak s) + length ws \<le> 5"
  using assms
proof (induction ws arbitrary: s)
  case Nil
  then show ?case by (simp add: word_le_nat_alt)
next
  case (Cons w ws)
  let ?t = "snd (record_unreachable_and_check_isolated w s)"
  have lt: "demotion_streak s < 5" and t: "demotion_streak ?t = demotion_streak s + 1"
    and rest: "set (demotions ws ?t) \<subseteq> {True}"
    using Cons.prems by (auto simp: record_unreachable_eq Let_def split: if_splits)
  have u: "unat (demotion_streak s + 1) = unat (demotion_streak s) + 1"
    using lt by (simp add: word_less_nat_alt unat_word_ariths(1))
  then have "demotion_streak ?t \<le> 5" using lt t by (simp add: word_less_nat_alt word_le_nat_alt)
  from Cons.IH[OF this rest] t u show ?case by simp
qed

text \<open>
  C28 (bounds): Of any six consecutive permanent failures of unreachable endpoints at least one is reported
  in full, and a failure is demoted only when the endpoint concerned is the only one among the last eight.
\<close>

theorem repeated_failures_are_reported:
  "(demotion_streak s \<le> 5 \<and> length ws = 6 \<longrightarrow> False \<in> set (demotions ws s))
   \<and> (fst (record_unreachable_and_check_isolated w s) = Inr True \<longrightarrow>
        set (drop (length (recent_unreachable s) - 7) (recent_unreachable s)) \<subseteq> {w})"
proof (intro conjI impI)
  assume a: "demotion_streak s \<le> 5 \<and> length ws = 6"
  show "False \<in> set (demotions ws s)"
  proof (rule ccontr)
    assume "False \<notin> set (demotions ws s)"
    then have "set (demotions ws s) \<subseteq> {True}" by auto (metis (full_types))
    from all_demoted[OF _ this] a show False by simp
  qed
next
  assume "fst (record_unreachable_and_check_isolated w s) = Inr True"
  then have "list_all (\<lambda>i. i = w) (drop (length (recent_unreachable s) - 7) (recent_unreachable s) @ [w])"
    by (simp add: record_unreachable_eq Let_def pop_to_capacity_suffix recent_unreachable_are_one_merchant_def
        split: if_splits)
  then show "set (drop (length (recent_unreachable s) - 7) (recent_unreachable s)) \<subseteq> {w}"
    by (auto simp: list_all_iff)
qed

theorem repeated_failures_are_reported_witness:
  "False \<in> set (demotions (replicate 6 8) ex_queue)
    \<and> set (drop (length (recent_unreachable ex_queue) - 7) (recent_unreachable ex_queue)) \<subseteq> {8}"
proof -
  have "demotion_streak ex_queue \<le> 5 \<and> length (replicate 6 (8 :: nat)) = 6" by code_simp
  moreover have "fst (record_unreachable_and_check_isolated 8 ex_queue) = Inr True" by code_simp
  ultimately show ?thesis using repeated_failures_are_reported[of ex_queue "replicate 6 8" 8] by blast
qed

section \<open>Error messages\<close>

lemma boundary_below_spec:
  "boundary_below s i \<le> i \<and> is_char_boundary s (boundary_below s i)
    \<and> (\<forall>j. boundary_below s i < j \<and> j \<le> i \<longrightarrow> \<not> is_char_boundary s j)"
proof (induction i)
  case 0
  then show ?case by (auto simp: is_char_boundary_def)
next
  case (Suc i)
  then show ?case by (auto simp: le_Suc_eq)
qed

text \<open>
  C29 (bounds): A truncated error message fits its limit and never splits a character: a message within
  the limit is unchanged, a longer one is cut at the last character boundary that leaves room for the dots.
\<close>

theorem truncate_error_spec:
  assumes "3 \<le> n"
  shows "length (truncate_error e n) \<le> n
    \<and> (if length e \<le> n then truncate_error e n = e
       else \<exists>k. truncate_error e n = take k e @ ''...'' \<and> k \<le> n - 3 \<and> is_char_boundary e k
         \<and> (\<forall>j. k < j \<and> j \<le> n - 3 \<longrightarrow> \<not> is_char_boundary e j))"
proof (cases "length e \<le> n")
  case True
  then show ?thesis by (simp add: truncate_error_def)
next
  case False
  have "boundary_below e (n - 3) \<le> n - 3" using boundary_below_spec by blast
  then have "length (truncate_error e n) \<le> n" using assms False by (simp add: truncate_error_def)
  then show ?thesis
    using False boundary_below_spec[of e "n - 3"]
    by (auto simp: truncate_error_def intro!: exI[of _ "boundary_below e (n - 3)"])
qed

theorem truncate_error_spec_witness:
  "length (truncate_error ''connection refused'' 10) \<le> 10
    \<and> (if length ''connection refused'' \<le> 10 then truncate_error ''connection refused'' 10 = ''connection refused''
       else \<exists>k. truncate_error ''connection refused'' 10 = take k ''connection refused'' @ ''...'' \<and> k \<le> 10 - 3
         \<and> is_char_boundary ''connection refused'' k)"
  using truncate_error_spec[of 10 "''connection refused''"] by auto

end
