(* ===== verification/Block_Source.thy ===== *)
theory Block_Source
  imports Monitor_Events Rust_Text
begin

text \<open>
  Reading a chain through a node: the \<^verbatim>\<open>BlockSource\<close> interface of \<^verbatim>\<open>evm/src/monitor/source/mod.rs\<close> and its JSON-RPC
  implementation \<^verbatim>\<open>evm/src/monitor/source/rpc.rs\<close>.  The node is outside the repository: it is a function from
  block numbers to blocks and logs.  A call can fail, and the node can switch to another chain between two
  calls; both are in the schedule of the state.  The locale \<^verbatim>\<open>block_source\<close> is what the chain monitor relies
  on.
\<close>

datatype EvmError = EvmRpc string | EvmMonitor string | EvmConnection string | EvmInvalidChainConfig string | EvmPanic

section \<open>Blocks, transactions and logs\<close>

record Transaction =
  txn_hash :: b256
  txn_from :: address
  txn_to :: "address option"
  txn_value :: u256

datatype BlockTransactions = Full "Transaction list" | Hashes "b256 list" | Uncle

primrec txns :: "BlockTransactions \<Rightarrow> Transaction list" where
  "txns (Full ts) = ts"
| "txns (Hashes _) = []"
| "txns Uncle = []"

record BlockNotification =
  bn_number :: u64
  bn_hash :: b256
  bn_parent :: b256
  bn_timestamp :: u64

record Block = BlockNotification +
  blk_transactions :: BlockTransactions

definition notification_of :: "Block \<Rightarrow> BlockNotification" where
  "notification_of b =
     \<lparr> bn_number = bn_number b, bn_hash = bn_hash b, bn_parent = bn_parent b, bn_timestamp = bn_timestamp b \<rparr>"

record NativeTransfer =
  nt_tx_hash :: b256
  nt_from :: address
  nt_to :: address
  nt_value :: u256
  nt_tx_index :: nat

record Log =
  log_address :: address
  log_topics :: "b256 list"
  log_data :: "u8 list"
  log_block :: "u64 option"
  log_block_hash :: "b256 option"
  log_tx_hash :: "b256 option"
  log_idx :: "u64 option"

record LogFilter =
  lf_addresses :: "address list"
  lf_topics :: "b256 option list"
  lf_from :: "u64 option"
  lf_to :: "u64 option"

definition TRANSFER_TOPIC :: b256 where
  "TRANSFER_TOPIC = 0xddf252ad1be2c89b69c2b068fc378daa952ba7f163c4a11628f55a4df523b3ef"

definition erc20_transfers_to :: "address list \<Rightarrow> LogFilter" where
  "erc20_transfers_to _ =
     \<lparr> lf_addresses = [], lf_topics = [Some TRANSFER_TOPIC, None], lf_from = None, lf_to = None \<rparr>"

definition with_block_range :: "u64 \<Rightarrow> u64 \<Rightarrow> LogFilter \<Rightarrow> LogFilter" where
  "with_block_range from to f = f\<lparr>lf_from := Some from, lf_to := Some to\<rparr>"

datatype SourceStatus = Connected | Connecting | Disconnected | SFailed string

section \<open>The node\<close>

record node =
  node_head :: u64
  node_block :: "u64 \<Rightarrow> Block option"
  node_logs :: "u64 \<Rightarrow> Log list"

definition block_range :: "u64 \<Rightarrow> u64 \<Rightarrow> u64 list" where
  "block_range a b = map of_nat [unat a ..< Suc (unat b)]"

definition topics_match :: "b256 option list \<Rightarrow> Log \<Rightarrow> bool" where
  "topics_match ts l \<longleftrightarrow>
     list_all (\<lambda>i. case ts ! i of None \<Rightarrow> True
       | Some t \<Rightarrow> i < length (log_topics l) \<and> log_topics l ! i = t) [0..<min 4 (length ts)]"

text \<open>\<^verbatim>\<open>eth_getLogs\<close>: the logs of the blocks in range that match, in block order.\<close>

definition eth_get_logs :: "node \<Rightarrow> LogFilter \<Rightarrow> Log list" where
  "eth_get_logs n f =
     filter (\<lambda>l. (lf_addresses f = [] \<or> log_address l \<in> set (lf_addresses f)) \<and> topics_match (lf_topics f) l)
       (concat (map (node_logs n)
          (block_range (case lf_from f of None \<Rightarrow> node_head n | Some a \<Rightarrow> a)
                       (case lf_to f of None \<Rightarrow> node_head n | Some b \<Rightarrow> b))))"

datatype rpc_step = Rpc_ok | Rpc_fail string | Rpc_moved node

record rpc_state =
  chain_node :: node
  rpc_schedule :: "rpc_step list"

definition rpc :: "(node \<Rightarrow> EvmError + 'a) \<Rightarrow> (EvmError, 'z rpc_state_scheme, 'a) prog" where
  "rpc f s =
     (case rpc_schedule s of
        [] \<Rightarrow> (f (chain_node s), s)
      | Rpc_ok # r \<Rightarrow> (f (chain_node s), s\<lparr>rpc_schedule := r\<rparr>)
      | Rpc_fail e # r \<Rightarrow> (Inl (EvmRpc e), s\<lparr>rpc_schedule := r\<rparr>)
      | Rpc_moved n # r \<Rightarrow> (f n, s\<lparr>rpc_schedule := r, chain_node := n\<rparr>))"

section \<open>The RPC source\<close>

definition get_logs :: "LogFilter \<Rightarrow> (EvmError, 'z rpc_state_scheme, Log list) prog" where
  "get_logs f = rpc (\<lambda>n. Inr (eth_get_logs n f))"

definition get_block_number :: "(EvmError, 'z rpc_state_scheme, u64) prog" where
  "get_block_number = rpc (\<lambda>n. Inr (node_head n))"

definition get_block :: "u64 \<Rightarrow> (EvmError, 'z rpc_state_scheme, Block option) prog" where
  "get_block num = rpc (\<lambda>n. Inr (node_block n num))"

definition get_block_hash :: "u64 \<Rightarrow> (EvmError, 'z rpc_state_scheme, b256 option) prog" where
  "get_block_hash num = bindP (get_block num) (\<lambda>b. okP (map_option bn_hash b))"

definition get_confirmations :: "u64 \<Rightarrow> (EvmError, 'z rpc_state_scheme, u64) prog" where
  "get_confirmations num =
     bindP get_block_number (\<lambda>current. okP (if current < num then 0 else current - num + 1))"

primrec native_transfers :: "address list \<Rightarrow> nat \<Rightarrow> Transaction list \<Rightarrow> NativeTransfer list" where
  "native_transfers ws i [] = []"
| "native_transfers ws i (t # ts) =
     (case txn_to t of
        None \<Rightarrow> native_transfers ws (Suc i) ts
      | Some a \<Rightarrow>
          if a \<notin> set ws \<or> txn_value t = 0 then native_transfers ws (Suc i) ts
          else \<lparr> nt_tx_hash = txn_hash t, nt_from = txn_from t, nt_to = a, nt_value = txn_value t,
                 nt_tx_index = i \<rparr> # native_transfers ws (Suc i) ts)"

definition extract_native_transfers :: "Block \<Rightarrow> address list \<Rightarrow> EvmError + NativeTransfer list" where
  "extract_native_transfers b ws =
     (case blk_transactions b of
        Hashes _ \<Rightarrow> Inl (EvmRpc ''block came back with transaction hashes instead of full transactions'')
      | _ \<Rightarrow> Inr (native_transfers ws 0 (txns (blk_transactions b))))"

definition find_native_transfers_to ::
    "u64 \<Rightarrow> address list \<Rightarrow> (EvmError, 'z rpc_state_scheme, NativeTransfer list) prog" where
  "find_native_transfers_to num addresses =
     (if addresses = [] then okP []
      else rpc (\<lambda>n. case node_block n num of
             None \<Rightarrow> Inl (EvmRpc ''block was announced but this endpoint has not imported it yet'')
           | Some b \<Rightarrow> extract_native_transfers b addresses))"

section \<open>Reading a range in chunks\<close>

lemma u64_bound: "unat x < 18446744073709551616" for x :: u64
  using unsigned_less[of x] by simp

lemma unat_Suc: "unat b < unat c \<Longrightarrow> unat (b + 1) = Suc (unat b)" for b c :: u64
proof -
  assume "unat b < unat c"
  moreover have "unat c < 2 ^ 64" using unsigned_less[of c] by simp
  ultimately show ?thesis by (simp add: unat_word_ariths(1))
qed

lemma chunk_end:
  fixes a b c :: u64
  assumes "0 < c" "a \<le> b" "min (sat_add a (c - 1)) b \<noteq> b"
  shows "unat a \<le> unat (min (sat_add a (c - 1)) b) \<and> unat (min (sat_add a (c - 1)) b) < unat b"
proof -
  have "sat_add a (c - 1) < b" using assms(3) unfolding min_def by (metis order_le_less)
  moreover have "unat a \<le> unat (sat_add a (c - 1))"
    using u64_bound[of a] by (simp add: unat_sat_add)
  ultimately show ?thesis using assms(2) by (auto simp: min_def word_less_nat_alt word_le_nat_alt)
qed

text \<open>The ranges a scan of \<^term>\<open>a\<close> to \<^term>\<open>b\<close> asks for, \<^term>\<open>c\<close> blocks at a time.\<close>

function chunks :: "u64 \<Rightarrow> u64 \<Rightarrow> u64 \<Rightarrow> (u64 \<times> u64) list" where
  "chunks c a b =
     (if b < a \<or> c = 0 then []
      else let e = min (sat_add a (c - 1)) b in
        if e = b then [(a, e)] else (a, e) # chunks c (e + 1) b)"
  by pat_completeness auto
termination
proof (relation "measure (\<lambda>(c, a, b). Suc (unat b) - unat a)", goal_cases)
  case (2 c a b e)
  then have "unat a \<le> unat e" "unat e < unat b"
    using chunk_end[of c a b] by (auto simp: not_less word_neq_0_conv)
  then show ?case using unat_Suc by simp
qed simp

declare chunks.simps [simp del]

section \<open>What a source promises\<close>

text \<open>
  The answers of a source to a client, for one state of the chain: the logs of a range are those of its
  parts, and the native transfers of a block are the transfers of value to the addresses asked for.
\<close>

locale block_source =
  fixes logs :: "'n \<Rightarrow> u64 \<Rightarrow> u64 \<Rightarrow> 'l list"
    and natives :: "'n \<Rightarrow> u64 \<Rightarrow> address list \<Rightarrow> ('e + 't list)"
    and payee :: "'t \<Rightarrow> address"
  assumes logs_split: "unat a \<le> unat b \<Longrightarrow> unat b < unat c \<Longrightarrow> logs n a c = logs n a b @ logs n (b + 1) c"
    and natives_asked: "natives n k as = Inr ts \<Longrightarrow> t \<in> set ts \<Longrightarrow> payee t \<in> set as"
    and natives_set: "natives n k as = Inr ts \<Longrightarrow> set bs = set as \<Longrightarrow> natives n k bs = Inr ts"
begin

lemma chunks_cover: "0 < c \<Longrightarrow> a \<le> b \<Longrightarrow> concat (map (\<lambda>(x, y). logs n x y) (chunks c a b)) = logs n a b"
proof (induction c a b rule: chunks.induct)
  case (1 c a b)
  let ?e = "min (sat_add a (c - 1)) b"
  show ?case
  proof (cases "?e = b")
    case True
    then show ?thesis using 1(2,3) by (subst chunks.simps) (auto simp: Let_def)
  next
    case False
    have e: "unat a \<le> unat ?e" "unat ?e < unat b" using chunk_end[OF 1(2,3) False] by auto
    then have "?e + 1 \<le> b" using unat_Suc[OF e(2)] by (simp add: word_le_nat_alt)
    then have "concat (map (\<lambda>(x, y). logs n x y) (chunks c (?e + 1) b)) = logs n (?e + 1) b"
      using 1(1)[OF _ refl False] 1(2,3) by (auto simp: not_less)
    then show ?thesis
      using 1(2,3) False logs_split[OF e] by (subst chunks.simps) (auto simp: Let_def)
  qed
qed

end

definition node_range_logs :: "b256 option list \<Rightarrow> node \<Rightarrow> u64 \<Rightarrow> u64 \<Rightarrow> Log list" where
  "node_range_logs ts n a b = eth_get_logs n \<lparr> lf_addresses = [], lf_topics = ts, lf_from = Some a, lf_to = Some b \<rparr>"

definition node_natives :: "node \<Rightarrow> u64 \<Rightarrow> address list \<Rightarrow> EvmError + NativeTransfer list" where
  "node_natives n k as =
     (case node_block n k of
        None \<Rightarrow> Inl (EvmRpc ''block was announced but this endpoint has not imported it yet'')
      | Some b \<Rightarrow> extract_native_transfers b as)"

lemma block_range_split:
  assumes "unat a \<le> unat b" "unat b < unat c"
  shows "block_range a c = block_range a b @ block_range (b + 1) c"
proof -
  have "[unat a ..< Suc (unat c)] = [unat a ..< Suc (unat b)] @ [Suc (unat b) ..< Suc (unat c)]"
    using assms upt_add_eq_append[of "unat a" "Suc (unat b)" "unat c - unat b"] by (simp del: upt_Suc)
  then show ?thesis using unat_Suc[OF assms(2)] by (simp add: block_range_def del: upt_Suc)
qed

lemma set_block_range: "set (block_range a b) = {k. a \<le> k \<and> k \<le> b}"
proof -
  have "k \<in> of_nat ` {unat a ..< Suc (unat b)}" if "a \<le> k" "k \<le> b" for k :: u64
    using that by (intro image_eqI[of _ _ "unat k"]) (auto simp: word_le_nat_alt)
  moreover have "a \<le> of_nat i \<and> (of_nat i :: u64) \<le> b" if "unat a \<le> i" "i < Suc (unat b)" for i
  proof -
    have "unat (of_nat i :: u64) = i" using that u64_bound[of b] by (simp add: unat_of_nat)
    then show ?thesis using that by (simp add: word_le_nat_alt)
  qed
  ultimately show ?thesis by (auto simp: block_range_def simp del: upt_Suc)
qed

lemma native_transfers_payee: "t \<in> set (native_transfers ws i ts) \<Longrightarrow> nt_to t \<in> set ws"
  by (induction ts arbitrary: i) (auto split: option.splits if_splits)

lemma native_transfers_set: "set ws = set vs \<Longrightarrow> native_transfers ws i ts = native_transfers vs i ts"
  by (induction ts arbitrary: i) (auto split: option.splits)

interpretation rpc_source: block_source "node_range_logs ts" node_natives nt_to for ts
proof
  fix a b c :: u64 and n
  assume "unat a \<le> unat b" "unat b < unat c"
  then show "node_range_logs ts n a c = node_range_logs ts n a b @ node_range_logs ts n (b + 1) c"
    by (simp add: node_range_logs_def eth_get_logs_def block_range_split)
next
  fix n k as xs t
  assume "node_natives n k as = Inr xs" "t \<in> set xs"
  then show "nt_to t \<in> set as"
    by (auto simp: node_natives_def extract_native_transfers_def dest: native_transfers_payee
        split: option.splits BlockTransactions.splits)
next
  fix n k as xs and bs :: "address list"
  assume "node_natives n k as = Inr xs" "set bs = set as"
  then show "node_natives n k bs = Inr xs"
    using native_transfers_set[of bs as]
    by (auto simp: node_natives_def extract_native_transfers_def split: option.splits BlockTransactions.splits)
qed

end
