(* ===== verification/Chain_Monitor.thy ===== *)
theory Chain_Monitor
  imports Block_Source Chains "HOL-Library.AList"
begin

text \<open>
  The monitor of one chain (\<^verbatim>\<open>evm/src/monitor/chain/\<close>): the watched set, block processing with gap backfill,
  reorganisation checks, confirmation tracking, health and the event loop.  The hash maps are association
  lists with distinct keys; their iteration order is the order of the list.  A broadcast to the monitor's
  subscribers is an entry appended to \<^verbatim>\<open>cm_events\<close>.  The decoder of big-endian amounts is an argument
  (\<^term>\<open>None\<close> where the library panics).
\<close>

type_synonym watch_key = "address \<times> address option"

record WatchedAddress =
  wd_address :: address
  wd_invoice :: uuid
  wd_expected :: "u256 option"
  wd_token :: "address option"
  wd_created_at :: timestamp

record ChainMonitorConfig =
  required_confirmations :: u64
  max_blocks_per_scan :: u64
  confirmation_check_interval_secs :: u64
  stall_timeout_secs :: u64
  loop_hang_timeout_secs :: u64
  monitor_native :: bool
  monitor_erc20 :: bool

definition monitor_config_default :: ChainMonitorConfig where
  "monitor_config_default =
     \<lparr> required_confirmations = 12, max_blocks_per_scan = 100, confirmation_check_interval_secs = 30,
       stall_timeout_secs = 120, loop_hang_timeout_secs = 300, monitor_native = True, monitor_erc20 = True \<rparr>"

definition monitor_config_from_chain :: "ChainConfig \<Rightarrow> ChainMonitorConfig" where
  "monitor_config_from_chain chain =
     monitor_config_default\<lparr>required_confirmations := ucast (confirmations_required chain)\<rparr>"

record PendingPayment =
  pp_event :: PaymentDetected
  pp_last_check :: u64

record chain_monitor = rpc_state +
  cm_chain :: ChainConfig
  cm_config :: ChainMonitorConfig
  cm_watched :: "(watch_key \<times> WatchedAddress) list"
  cm_pending :: "((b256 \<times> i32) \<times> PendingPayment) list"
  cm_last_block :: "u64 option"
  cm_last_hash :: "b256 option"
  cm_last_block_at :: timestamp
  cm_loop_alive_at :: timestamp
  cm_status :: SourceStatus
  cm_started :: bool
  cm_events :: "MonitorEvent list"
  cm_now :: timestamp

type_synonym 'a monitor = "(EvmError, chain_monitor, 'a) prog"

definition monitor_new :: "ChainConfig \<Rightarrow> node \<Rightarrow> ChainMonitorConfig \<Rightarrow> timestamp \<Rightarrow> chain_monitor" where
  "monitor_new chain n cfg t =
     \<lparr> chain_node = n, rpc_schedule = [], cm_chain = chain, cm_config = cfg, cm_watched = [], cm_pending = [],
       cm_last_block = None, cm_last_hash = None, cm_last_block_at = t, cm_loop_alive_at = t,
       cm_status = Disconnected, cm_started = False, cm_events = [], cm_now = t \<rparr>"

definition broadcast :: "MonitorEvent \<Rightarrow> 'a \<Rightarrow> ('e, chain_monitor, 'a) prog" where
  "broadcast e x s = (Inr x, s\<lparr>cm_events := cm_events s @ [e]\<rparr>)"

definition monitor_watch :: "WatchedAddress \<Rightarrow> unit monitor" where
  "monitor_watch w =
     modP (\<lambda>s. s\<lparr>cm_watched := AList.update (wd_address w, wd_token w) w (cm_watched s)\<rparr>)"

definition monitor_unwatch :: "address \<Rightarrow> address option \<Rightarrow> WatchedAddress option monitor" where
  "monitor_unwatch a token s =
     (Inr (map_of (cm_watched s) (a, token)), s\<lparr>cm_watched := AList.delete (a, token) (cm_watched s)\<rparr>)"

definition watched_list :: "chain_monitor \<Rightarrow> WatchedAddress list" where
  "watched_list s = map snd (cm_watched s)"

section \<open>Detection\<close>

definition native_watches :: "(watch_key \<times> WatchedAddress) list \<Rightarrow> (address \<times> uuid) list" where
  "native_watches w = map (\<lambda>((a, _), x). (a, wd_invoice x)) (filter (\<lambda>((_, token), _). token = None) w)"

definition token_watches :: "(watch_key \<times> WatchedAddress) list \<Rightarrow> address list" where
  "token_watches w = map (\<lambda>((a, _), _). a) (filter (\<lambda>((_, token), _). token \<noteq> None) w)"

definition native_event :: "chain_monitor \<Rightarrow> u64 \<Rightarrow> b256 \<Rightarrow> uuid \<Rightarrow> NativeTransfer \<Rightarrow> PaymentDetected" where
  "native_event s num h i t =
     \<lparr> pd_chain = chain_id (cm_chain s), pd_invoice = i, pd_address = nt_to t, pd_amount = nt_value t,
       pd_tx_hash = nt_tx_hash t, pd_block = num, pd_block_hash = h, pd_log_index = None, pd_native = True,
       pd_token = None, pd_from = nt_from t, pd_confirmations = 1,
       pd_required = required_confirmations (cm_config s), pd_detected_at = cm_now s \<rparr>"

primrec native_events ::
    "chain_monitor \<Rightarrow> (address \<times> uuid) list \<Rightarrow> u64 \<Rightarrow> b256 \<Rightarrow> NativeTransfer list \<Rightarrow> PaymentDetected list" where
  "native_events s m num h [] = []"
| "native_events s m num h (t # ts) =
     (case map_of m (nt_to t) of
        None \<Rightarrow> native_events s m num h ts
      | Some i \<Rightarrow> native_event s num h i t # native_events s m num h ts)"

definition check_native_payments ::
    "(watch_key \<times> WatchedAddress) list \<Rightarrow> u64 \<Rightarrow> b256 \<Rightarrow> PaymentDetected list monitor" where
  "check_native_payments w num h =
     (let m = native_watches w in
      if m = [] then okP []
      else bindP (find_native_transfers_to num (map fst m)) (\<lambda>ts.
        getP (\<lambda>s. native_events s m num h ts)))"

text \<open>The last twenty bytes of a topic.\<close>

definition topic_address :: "b256 \<Rightarrow> address" where
  "topic_address t = ucast t"

definition decode_transfer ::
    "(u8 list \<Rightarrow> u256 option) \<Rightarrow> chain_monitor \<Rightarrow> (watch_key \<times> WatchedAddress) list \<Rightarrow> Log
      \<Rightarrow> EvmError + PaymentDetected option" where
  "decode_transfer be s w l =
     (if length (log_topics l) < 3 then Inr None
      else
        (let payee = topic_address (log_topics l ! 2); token = log_address l in
         case map_of w (payee, Some token) of
           None \<Rightarrow> Inr None
         | Some x \<Rightarrow>
             (case be (log_data l) of
                None \<Rightarrow> Inl EvmPanic
              | Some amount \<Rightarrow>
                  (case log_block l of
                     None \<Rightarrow> Inl (EvmRpc ''transfer log has no block number'')
                   | Some num \<Rightarrow>
                       Inr (Some
                         \<lparr> pd_chain = chain_id (cm_chain s), pd_invoice = wd_invoice x, pd_address = payee,
                           pd_amount = amount,
                           pd_tx_hash = (case log_tx_hash l of None \<Rightarrow> 0 | Some h \<Rightarrow> h), pd_block = num,
                           pd_block_hash = (case log_block_hash l of None \<Rightarrow> 0 | Some h \<Rightarrow> h),
                           pd_log_index = map_option ucast (log_idx l), pd_native = False,
                           pd_token = Some token, pd_from = topic_address (log_topics l ! 1),
                           pd_confirmations = 1, pd_required = required_confirmations (cm_config s),
                           pd_detected_at = cm_now s \<rparr>)))))"

primrec decode_transfers ::
    "(u8 list \<Rightarrow> u256 option) \<Rightarrow> chain_monitor \<Rightarrow> (watch_key \<times> WatchedAddress) list \<Rightarrow> Log list
      \<Rightarrow> EvmError + PaymentDetected list" where
  "decode_transfers be s w [] = Inr []"
| "decode_transfers be s w (l # ls) =
     (case decode_transfer be s w l of
        Inl e \<Rightarrow> Inl e
      | Inr None \<Rightarrow> decode_transfers be s w ls
      | Inr (Some ev) \<Rightarrow>
          (case decode_transfers be s w ls of Inl e \<Rightarrow> Inl e | Inr evs \<Rightarrow> Inr (ev # evs)))"

definition check_erc20_payments ::
    "(u8 list \<Rightarrow> u256 option) \<Rightarrow> (watch_key \<times> WatchedAddress) list \<Rightarrow> u64 \<Rightarrow> u64 \<Rightarrow> PaymentDetected list monitor" where
  "check_erc20_payments be w from to =
     (let addrs = token_watches w in
      if addrs = [] then okP []
      else bindP (get_logs (with_block_range from to (erc20_transfers_to addrs))) (\<lambda>logs s.
        (decode_transfers be s w logs, s)))"

definition record_detected :: "PaymentDetected \<Rightarrow> unit monitor" where
  "record_detected ev =
     thenP
       (case tx_index ev of
          Some i \<Rightarrow> modP (\<lambda>s. s\<lparr>cm_pending :=
            AList.update (pd_tx_hash ev, i) \<lparr> pp_event = ev, pp_last_check = pd_block ev \<rparr> (cm_pending s)\<rparr>)
        | None \<Rightarrow> okP ())
       (broadcast (EPaymentDetected ev) ())"

section \<open>Backfill\<close>

definition BACKFILL_MAX_BLOCKS :: u64 where
  "BACKFILL_MAX_BLOCKS = 200"

definition block_hash_or_err :: "u64 \<Rightarrow> b256 monitor" where
  "block_hash_or_err num =
     bindP (get_block_hash num) (\<lambda>h. case h of
       None \<Rightarrow> errP (EvmRpc ''block not available while backfilling a gap'') | Some x \<Rightarrow> okP x)"

primrec native_of_blocks :: "(watch_key \<times> WatchedAddress) list \<Rightarrow> u64 list \<Rightarrow> PaymentDetected list monitor" where
  "native_of_blocks w [] = okP []"
| "native_of_blocks w (k # ks) =
     bindP (block_hash_or_err k) (\<lambda>h.
     bindP (check_native_payments w k h) (\<lambda>evs.
     bindP (native_of_blocks w ks) (\<lambda>rest. okP (evs @ rest))))"

definition backfill_missed_blocks ::
    "(u8 list \<Rightarrow> u256 option) \<Rightarrow> (watch_key \<times> WatchedAddress) list \<Rightarrow> u64 \<Rightarrow> u64 \<Rightarrow> (PaymentDetected list \<times> b256) monitor" where
  "backfill_missed_blocks be w from to =
     bindP (getP cm_config) (\<lambda>cfg.
     bindP (if monitor_native cfg then native_of_blocks w (block_range from to) else okP []) (\<lambda>natives.
     bindP (if monitor_erc20 cfg then check_erc20_payments be w from to else okP []) (\<lambda>erc20s.
     bindP (block_hash_or_err to) (\<lambda>h. okP (natives @ erc20s, h)))))"

definition set_cursor :: "u64 \<Rightarrow> b256 \<Rightarrow> unit monitor" where
  "set_cursor num h = modP (\<lambda>s. s\<lparr>cm_last_block := Some num, cm_last_hash := Some h\<rparr>)"

definition backfill_chunk ::
    "(u8 list \<Rightarrow> u256 option) \<Rightarrow> (watch_key \<times> WatchedAddress) list \<Rightarrow> u64 \<Rightarrow> u64 \<Rightarrow> bool monitor" where
  "backfill_chunk be w from to =
     (let chunk_to = min to (from + BACKFILL_MAX_BLOCKS - 1) in
      bindP (backfill_missed_blocks be w from chunk_to) (\<lambda>(detected, chunk_hash).
      thenP (iterP record_detected detected)
      (thenP (set_cursor chunk_to chunk_hash)
        (okP (\<not> chunk_to < to)))))"

section \<open>Confirmations\<close>

definition confirm_event :: "chain_monitor \<Rightarrow> u64 \<Rightarrow> i32 \<Rightarrow> PaymentDetected \<Rightarrow> PaymentConfirmed" where
  "confirm_event s depth i ev =
     \<lparr> pc_tx_index = i, pc_chain = pd_chain ev, pc_invoice = pd_invoice ev, pc_address = pd_address ev,
       pc_amount = pd_amount ev, pc_tx_hash = pd_tx_hash ev, pc_block = pd_block ev, pc_confirmations = depth,
       pc_confirmed_at = cm_now s \<rparr>"

text \<open>One pending payment: its updated entry, and the confirmation when it is deep enough.\<close>

definition confirm_one ::
    "chain_monitor \<Rightarrow> u64 \<Rightarrow> (b256 \<times> i32) \<times> PendingPayment \<Rightarrow> ((b256 \<times> i32) \<times> PendingPayment) \<times> PaymentConfirmed option" where
  "confirm_one s current e =
     (let (k, p) = e; depth = sat_sub current (pd_block (pp_event p)) + 1;
          ev = (pp_event p)\<lparr>pd_confirmations := depth\<rparr> in
      ((k, p\<lparr>pp_event := ev\<rparr>),
       if pd_required ev \<le> depth then Some (confirm_event s depth (snd k) ev) else None))"

definition check_confirmations :: "unit monitor" where
  "check_confirmations =
     bindP get_block_number (\<lambda>current.
     modP (\<lambda>s.
       let done' = map (confirm_one s current) (cm_pending s) in
       s\<lparr>cm_pending := map fst (filter (\<lambda>(_, c). c = None) done'),
         cm_events := cm_events s @ map EPaymentConfirmed (List.map_filter snd done')\<rparr>))"

section \<open>Reorganisations\<close>

primrec survived_natives :: "address list \<Rightarrow> u64 list \<Rightarrow> b256 list monitor" where
  "survived_natives as [] = okP []"
| "survived_natives as (k # ks) =
     bindP (find_native_transfers_to k as) (\<lambda>ts.
     bindP (survived_natives as ks) (\<lambda>rest. okP (map nt_tx_hash ts @ rest)))"

primrec survived_logs :: "address list \<Rightarrow> (u64 \<times> u64) list \<Rightarrow> b256 list monitor" where
  "survived_logs as [] = okP []"
| "survived_logs as (r # rs) =
     bindP (get_logs (with_block_range (fst r) (snd r) (erc20_transfers_to as))) (\<lambda>ls.
     bindP (survived_logs as rs) (\<lambda>rest. okP (List.map_filter log_tx_hash ls @ rest)))"

definition find_survived_tx_hashes :: "u64 \<Rightarrow> u64 \<Rightarrow> (b256 list \<times> bool) monitor" where
  "find_survived_tx_hashes from to =
     bindP (getP cm_watched) (\<lambda>w.
     if w = [] then okP ([], False)
     else
       (let natives = map fst (native_watches w); tokens = token_watches w in
        bindP (getP (\<lambda>s. max (max_blocks_per_scan (cm_config s)) 1)) (\<lambda>chunk.
        bindP (if natives = [] then okP [] else survived_natives natives (block_range from to)) (\<lambda>a.
        bindP (if tokens = [] then okP [] else survived_logs tokens (chunks chunk from to)) (\<lambda>b.
          okP (a @ b, True))))))"

definition handle_reorg :: "u64 \<Rightarrow> b256 \<Rightarrow> BlockNotification \<Rightarrow> unit monitor" where
  "handle_reorg fork_block old_hash new_block =
     bindP (getP (\<lambda>s. map (\<lambda>(_, p). pd_invoice (pp_event p))
       (filter (\<lambda>(_, p). fork_block \<le> pd_block (pp_event p)) (cm_pending s)))) (\<lambda>affected.
     bindP (find_survived_tx_hashes fork_block (bn_number new_block)) (\<lambda>(survived, verifiable).
     bindP (getP id) (\<lambda>s.
       broadcast (EReorgDetected
         \<lparr> rd_chain = chain_id (cm_chain s), rd_fork_block = fork_block, rd_old_hash = old_hash,
           rd_new_hash = bn_hash new_block, rd_depth = sat_sub (bn_number new_block) fork_block + 1,
           rd_affected = affected, rd_survived = survived, rd_verifiable = verifiable,
           rd_detected_at = cm_now s \<rparr>) ())))"

section \<open>Processing a block\<close>

definition find_fork :: "BlockNotification \<Rightarrow> u64 \<Rightarrow> b256 \<Rightarrow> u64 option monitor" where
  "find_fork block last_num last_hash =
     (if bn_number block = last_num + 1 then
        okP (if bn_parent block \<noteq> last_hash then Some last_num else None)
      else bindP (get_block_hash last_num) (\<lambda>h.
        okP (case h of
               Some x \<Rightarrow> if x \<noteq> last_hash then Some (min last_num (bn_number block)) else None
             | None \<Rightarrow> None)))"

definition check_reorg :: "BlockNotification \<Rightarrow> unit monitor" where
  "check_reorg block =
     bindP (getP (\<lambda>s. (cm_last_hash s, cm_last_block s))) (\<lambda>last.
     case last of
       (Some last_hash, Some last_num) \<Rightarrow>
         bindP (find_fork block last_num last_hash) (\<lambda>fork.
         case fork of None \<Rightarrow> okP () | Some f \<Rightarrow> handle_reorg f last_hash block)
     | _ \<Rightarrow> okP ())"

definition scan_block ::
    "(u8 list \<Rightarrow> u256 option) \<Rightarrow> (watch_key \<times> WatchedAddress) list \<Rightarrow> BlockNotification \<Rightarrow> unit monitor" where
  "scan_block be w block =
     bindP (getP cm_config) (\<lambda>cfg.
     bindP (if monitor_native cfg then check_native_payments w (bn_number block) (bn_hash block) else okP []) (\<lambda>natives.
     bindP (if monitor_erc20 cfg then check_erc20_payments be w (bn_number block) (bn_number block) else okP []) (\<lambda>erc20s.
     thenP (iterP record_detected (natives @ erc20s))
       (set_cursor (bn_number block) (bn_hash block)))))"

definition process_block :: "(u8 list \<Rightarrow> u256 option) \<Rightarrow> BlockNotification \<Rightarrow> unit monitor" where
  "process_block be block =
     thenP (check_reorg block)
     (bindP (getP cm_last_block) (\<lambda>last.
      let missed = (case last of
            Some last_num \<Rightarrow>
              if last_num + 1 < bn_number block then Some (last_num + 1, bn_number block - 1) else None
          | None \<Rightarrow> None) in
      bindP (getP cm_watched) (\<lambda>w.
      if w = [] then set_cursor (bn_number block) (bn_hash block)
      else
        bindP (case missed of None \<Rightarrow> okP True | Some (from, to) \<Rightarrow> backfill_chunk be w from to) (\<lambda>caught_up.
        if caught_up then scan_block be w block else okP ()))))"

section \<open>Health and the event loop\<close>

record ChainHealth =
  ch_chain :: u64
  ch_name :: string
  ch_status :: SourceStatus
  ch_current :: "u64 option"
  ch_last :: "u64 option"
  ch_watched :: nat
  ch_healthy :: bool

definition get_health :: "ChainHealth monitor" where
  "get_health =
     bindP (getP cm_status) (\<lambda>status.
     bindP (tryP get_block_number) (\<lambda>r.
     let current = (case r of Inl _ \<Rightarrow> None | Inr n \<Rightarrow> Some n) in
     getP (\<lambda>s.
       \<lparr> ch_chain = chain_id (cm_chain s), ch_name = name (cm_chain s), ch_status = status, ch_current = current,
         ch_last = cm_last_block s, ch_watched = length (cm_watched s),
         ch_healthy = (status = Connected \<and>
           (case (current, cm_last_block s) of
              (Some c, Some l) \<Rightarrow> sat_sub c l \<le> 10
            | (Some _, None) \<Rightarrow> True
            | _ \<Rightarrow> False)) \<rparr>)))"

text \<open>Subscribing again either fails or leaves the source in the state it reports.\<close>

definition resubscribe_if_stalled :: "(EvmError + SourceStatus) \<Rightarrow> unit monitor" where
  "resubscribe_if_stalled subscribed =
     bindP get_health (\<lambda>health.
     bindP (getP (\<lambda>s. cm_now s - cm_last_block_at s)) (\<lambda>silent.
     bindP (getP (\<lambda>s. uint (stall_timeout_secs (cm_config s)))) (\<lambda>limit.
     if ch_status health = Connected \<and> silent < limit then okP ()
     else case subscribed of
            Inl e \<Rightarrow> errP e
          | Inr st \<Rightarrow> modP (\<lambda>s. s\<lparr>cm_status := st, cm_last_block_at := cm_now s\<rparr>))))"

definition loop_stalled_for :: "chain_monitor \<Rightarrow> int" where
  "loop_stalled_for s = cm_now s - cm_loop_alive_at s"

definition evm_error_str :: "EvmError \<Rightarrow> string" where
  "evm_error_str e =
     (case e of EvmRpc m \<Rightarrow> ''RPC error: '' @ m | EvmMonitor m \<Rightarrow> ''monitor error: '' @ m
      | EvmConnection m \<Rightarrow> ''connection error: '' @ m
      | EvmInvalidChainConfig m \<Rightarrow> ''invalid chain config: '' @ m | EvmPanic \<Rightarrow> ''panic'')"

text \<open>What the event loop selects: a block or an error of the stream, a tick of the timer, or the stop
  signal.  A panic ends the task.\<close>

datatype selected = Block_arrived BlockNotification | Stream_error | Timer_tick "EvmError + SourceStatus" | Stop_signal

definition on_block :: "(u8 list \<Rightarrow> u256 option) \<Rightarrow> BlockNotification \<Rightarrow> unit monitor" where
  "on_block be block =
     thenP (modP (\<lambda>s. s\<lparr>cm_last_block_at := cm_now s\<rparr>))
     (bindP (tryP (process_block be block)) (\<lambda>r.
      case r of
        Inr _ \<Rightarrow> okP ()
      | Inl EvmPanic \<Rightarrow> errP EvmPanic
      | Inl e \<Rightarrow> bindP (getP (\<lambda>s. chain_id (cm_chain s))) (\<lambda>c. broadcast (EMonitorError c (evm_error_str e)) ())))"

definition on_tick :: "(EvmError + SourceStatus) \<Rightarrow> unit monitor" where
  "on_tick subscribed =
     thenP (tryP check_confirmations :: (EvmError + unit) monitor)
       (thenP (tryP (resubscribe_if_stalled subscribed) :: (EvmError + unit) monitor) (okP ()))"

text \<open>The loop consumes what it selects; it answers whether it was stopped.\<close>

primrec monitor_loop :: "(u8 list \<Rightarrow> u256 option) \<Rightarrow> (timestamp \<times> selected) list \<Rightarrow> bool monitor" where
  "monitor_loop be [] = okP False"
| "monitor_loop be (x # xs) =
     thenP (modP (\<lambda>s. s\<lparr>cm_loop_alive_at := cm_now s\<rparr>))
     (thenP (modP (\<lambda>s. s\<lparr>cm_now := fst x\<rparr>))
     (case snd x of
        Stop_signal \<Rightarrow> bindP (getP (\<lambda>s. chain_id (cm_chain s))) (\<lambda>c. broadcast (EMonitorStopped c) True)
      | Block_arrived b \<Rightarrow> thenP (on_block be b) (monitor_loop be xs)
      | Stream_error \<Rightarrow> monitor_loop be xs
      | Timer_tick subscribed \<Rightarrow> thenP (on_tick subscribed) (monitor_loop be xs)))"

definition start :: "(u8 list \<Rightarrow> u256 option) \<Rightarrow> (EvmError + SourceStatus) \<Rightarrow> (timestamp \<times> selected) list \<Rightarrow> bool monitor" where
  "start be subscribed xs =
     bindP (getP cm_started) (\<lambda>started.
     if started then errP (EvmMonitor ''monitor already started'')
     else
       thenP (modP (\<lambda>s. s\<lparr>cm_started := True\<rparr>))
       (case subscribed of
          Inl e \<Rightarrow> errP e
        | Inr st \<Rightarrow>
            thenP (modP (\<lambda>s. s\<lparr>cm_status := st, cm_last_block_at := cm_now s\<rparr>))
            (bindP (getP (\<lambda>s. chain_id (cm_chain s))) (\<lambda>c.
             thenP (broadcast (EMonitorStarted c) ()) (monitor_loop be xs)))))"

section \<open>What no step changes\<close>

definition steady :: "chain_monitor \<Rightarrow> bool" where
  "steady s \<longleftrightarrow> list_all (\<lambda>x. case x of Rpc_moved _ \<Rightarrow> False | _ \<Rightarrow> True) (rpc_schedule s)"

text \<open>A step keeps the configuration and the watched set, only adds events, and leaves a steady chain as
  it is.\<close>

definition still :: "chain_monitor \<Rightarrow> chain_monitor \<Rightarrow> bool" where
  "still s t \<longleftrightarrow> cm_chain t = cm_chain s \<and> cm_config t = cm_config s \<and> cm_watched t = cm_watched s
     \<and> set (cm_events s) \<subseteq> set (cm_events t)
     \<and> (steady s \<longrightarrow> steady t \<and> chain_node t = chain_node s)"

interpretation still: step_rel still
  by unfold_locales (auto simp: still_def)

definition cursor :: "chain_monitor \<Rightarrow> u64 option \<times> b256 option" where
  "cursor s = (cm_last_block s, cm_last_hash s)"

lemma rpc_still [steps_intros]: "steps still (rpc f)"
  unfolding steps_def still_def rpc_def steady_def
  by (auto split: list.split rpc_step.split)

lemma rpc_cursor [steps_intros]: "steps (same cursor) (rpc f)"
  unfolding steps_def same_def rpc_def cursor_def
  by (auto split: list.split rpc_step.split)

lemma rpc_events [steps_intros]: "steps (same cm_events) (rpc f)"
  unfolding steps_def same_def rpc_def by (auto split: list.split rpc_step.split)

lemma broadcast_still [steps_intros]: "steps still (broadcast e x)"
  unfolding steps_def still_def broadcast_def steady_def by auto

lemma broadcast_cursor [steps_intros]: "steps (same cursor) (broadcast e x)"
  unfolding steps_def same_def broadcast_def cursor_def by simp

lemma record_still [steps_intros]: "steps still (record_detected ev)"
  unfolding record_detected_def
  by (intro steps_intros still.steps_mod) (simp add: still_def steady_def)

lemma record_cursor [steps_intros]: "steps (same cursor) (record_detected ev)"
  unfolding record_detected_def
  by (intro steps_intros same.steps_mod) (simp add: same_def cursor_def)

lemmas source_defs = get_logs_def get_block_number_def get_block_def get_block_hash_def find_native_transfers_to_def

lemma source_still [steps_intros]:
  "steps still (get_logs f :: Log list monitor)" "steps still (get_block_number :: u64 monitor)"
  "steps still (get_block_hash k :: b256 option monitor)"
  "steps still (find_native_transfers_to k as :: NativeTransfer list monitor)"
  unfolding source_defs by (intro steps_intros)+

lemma source_cursor [steps_intros]:
  "steps (same cursor) (get_logs f :: Log list monitor)" "steps (same cursor) (get_block_number :: u64 monitor)"
  "steps (same cursor) (get_block_hash k :: b256 option monitor)"
  "steps (same cursor) (find_native_transfers_to k as :: NativeTransfer list monitor)"
  unfolding source_defs by (intro steps_intros)+

end
