(* ===== verification/Chain_Scan.thy ===== *)
theory Chain_Scan
  imports Chain_Monitor Settlement
begin

text \<open>
  Properties of the chain monitor: on a chain that does not reorganise every payment in the blocks the
  cursor has passed was reported, whatever calls failed and in whatever order blocks arrived; the survivor
  scan covers its whole range; and a confirmation is only sent for a payment that was reported and is deep
  enough.
\<close>

section \<open>What a scan reports\<close>

definition native_report :: "PaymentDetected \<Rightarrow> uuid \<Rightarrow> u64 \<Rightarrow> Transaction \<Rightarrow> bool" where
  "native_report e i k t \<longleftrightarrow> pd_native e \<and> pd_invoice e = i \<and> pd_block e = k \<and> Some (pd_address e) = txn_to t
     \<and> pd_tx_hash e = txn_hash t \<and> pd_amount e = txn_value t"

definition token_report :: "(u8 list \<Rightarrow> u256 option) \<Rightarrow> PaymentDetected \<Rightarrow> uuid \<Rightarrow> Log \<Rightarrow> bool" where
  "token_report be e i l \<longleftrightarrow> \<not> pd_native e \<and> pd_invoice e = i \<and> Some (pd_block e) = log_block l
     \<and> pd_address e = topic_address (log_topics l ! 2) \<and> pd_token e = Some (log_address l)
     \<and> Some (pd_amount e) = be (log_data l) \<and> pd_tx_hash e = (case log_tx_hash l of None \<Rightarrow> 0 | Some h \<Rightarrow> h)
     \<and> pd_log_index e = map_option ucast (log_idx l)"

text \<open>The payments a block holds for the watched addresses: value transfers to natively watched addresses,
  and transfer logs of watched tokens.\<close>

definition natives_in :: "chain_monitor \<Rightarrow> u64 \<Rightarrow> (uuid \<times> Transaction) set" where
  "natives_in s k =
     {(i, t). \<exists>b a x. node_block (chain_node s) k = Some b \<and> t \<in> set (txns (blk_transactions b))
        \<and> txn_to t = Some a \<and> txn_value t \<noteq> 0 \<and> map_of (cm_watched s) (a, None) = Some x \<and> wd_invoice x = i}"

definition tokens_in :: "chain_monitor \<Rightarrow> u64 \<Rightarrow> (uuid \<times> Log) set" where
  "tokens_in s k =
     {(i, l). \<exists>x. l \<in> set (node_logs (chain_node s) k) \<and> 3 \<le> length (log_topics l) \<and> log_topics l ! 0 = TRANSFER_TOPIC
        \<and> map_of (cm_watched s) (topic_address (log_topics l ! 2), Some (log_address l)) = Some x \<and> wd_invoice x = i}"

definition natives_reported :: "chain_monitor \<Rightarrow> PaymentDetected set \<Rightarrow> u64 \<Rightarrow> bool" where
  "natives_reported s evs k \<longleftrightarrow> (\<forall>(i, t) \<in> natives_in s k. \<exists>e \<in> evs. native_report e i k t)"

definition tokens_reported :: "(u8 list \<Rightarrow> u256 option) \<Rightarrow> chain_monitor \<Rightarrow> PaymentDetected set \<Rightarrow> u64 \<Rightarrow> bool" where
  "tokens_reported be s evs k \<longleftrightarrow> (\<forall>(i, l) \<in> tokens_in s k. \<exists>e \<in> evs. token_report be e i l)"

definition reported :: "chain_monitor \<Rightarrow> PaymentDetected set" where
  "reported s = {e. EPaymentDetected e \<in> set (cm_events s)}"

definition scanned :: "(u8 list \<Rightarrow> u256 option) \<Rightarrow> chain_monitor \<Rightarrow> PaymentDetected set \<Rightarrow> u64 \<Rightarrow> bool" where
  "scanned be s evs k \<longleftrightarrow>
     (if monitor_native (cm_config s) then natives_reported s evs k else True)
   \<and> (if monitor_erc20 (cm_config s) then tokens_reported be s evs k else True)"

definition block_reported :: "(u8 list \<Rightarrow> u256 option) \<Rightarrow> chain_monitor \<Rightarrow> u64 \<Rightarrow> bool" where
  "block_reported be s k \<longleftrightarrow> scanned be s (reported s) k"

lemma natives_in_cong:
  "chain_node t = chain_node s \<Longrightarrow> cm_watched t = cm_watched s \<Longrightarrow> natives_in t k = natives_in s k"
  by (simp add: natives_in_def)

lemma tokens_in_cong:
  "chain_node t = chain_node s \<Longrightarrow> cm_watched t = cm_watched s \<Longrightarrow> tokens_in t k = tokens_in s k"
  by (simp add: tokens_in_def)

lemma natives_reported_mono:
  "natives_reported s evs k \<Longrightarrow> evs \<subseteq> evs' \<Longrightarrow> natives_reported s evs' k"
  unfolding natives_reported_def by blast

lemma tokens_reported_mono:
  "tokens_reported be s evs k \<Longrightarrow> evs \<subseteq> evs' \<Longrightarrow> tokens_reported be s evs' k"
  unfolding tokens_reported_def by blast

lemma scanned_mono: "scanned be s evs k \<Longrightarrow> evs \<subseteq> evs' \<Longrightarrow> scanned be s evs' k"
  using natives_reported_mono tokens_reported_mono by (auto simp: scanned_def split: if_splits)

lemma scanned_still:
  assumes "still s t" "steady s"
  shows "scanned be t evs k = scanned be s evs k"
proof -
  have t: "chain_node t = chain_node s" "cm_watched t = cm_watched s" "cm_config t = cm_config s"
    using assms by (auto simp: still_def)
  show ?thesis
    unfolding scanned_def natives_reported_def tokens_reported_def t(3) natives_in_cong[OF t(1,2)]
      tokens_in_cong[OF t(1,2)] by simp
qed

lemma block_reported_still:
  assumes "block_reported be s k" "still s t" "steady s"
  shows "block_reported be t k"
proof -
  have "reported s \<subseteq> reported t" using assms(2) by (auto simp: still_def reported_def)
  then show ?thesis using assms scanned_mono scanned_still unfolding block_reported_def by blast
qed

section \<open>One read of the chain\<close>

lemma rpc_answer:
  assumes "rpc f s = (Inr x, t)" "steady s"
  shows "f (chain_node s) = Inr x"
  using assms by (auto simp: rpc_def steady_def split: list.splits rpc_step.splits)

lemma native_transfers_complete:
  "t \<in> set ts \<Longrightarrow> txn_to t = Some a \<Longrightarrow> a \<in> set as \<Longrightarrow> txn_value t \<noteq> 0 \<Longrightarrow>
     \<exists>n \<in> set (native_transfers as i ts). nt_to n = a \<and> nt_tx_hash n = txn_hash t \<and> nt_value n = txn_value t"
proof (induction ts arbitrary: i)
  case (Cons u ts)
  show ?case
  proof (cases "u = t")
    case True
    with Cons.prems show ?thesis by simp
  next
    case False
    with Cons.prems have "\<exists>n \<in> set (native_transfers as (Suc i) ts).
        nt_to n = a \<and> nt_tx_hash n = txn_hash t \<and> nt_value n = txn_value t"
      by (intro Cons.IH) auto
    then show ?thesis by (auto split: option.splits)
  qed
qed simp

lemma native_events_complete:
  "n \<in> set ns \<Longrightarrow> map_of m (nt_to n) = Some i \<Longrightarrow> native_event s k h i n \<in> set (native_events s m k h ns)"
  by (induction ns) (auto split: option.splits)

lemma map_of_native_watches: "map_of (native_watches w) a = map_option wd_invoice (map_of w (a, None))"
  by (induction w) (auto simp: native_watches_def)

lemma check_native_reports:
  assumes run: "check_native_payments (cm_watched s) k h s = (Inr evs, t)" and st: "steady s"
  shows "natives_reported s (set evs) k"
proof (cases "native_watches (cm_watched s) = []")
  case True
  then have "map_of (cm_watched s) (a, None) = None" for a
    using map_of_native_watches[of "cm_watched s" a] by simp
  then show ?thesis by (auto simp: natives_reported_def natives_in_def)
next
  case False
  let ?m = "native_watches (cm_watched s)"
  obtain ns u where find: "find_native_transfers_to k (map fst ?m) s = (Inr ns, u)"
    and evs: "evs = native_events u ?m k h ns"
    using run False by (auto simp: check_native_payments_def Let_def bindP_Inr_iff getP_def)
  then have "(case node_block (chain_node s) k of
      None \<Rightarrow> Inl (EvmRpc ''block was announced but this endpoint has not imported it yet'')
    | Some b \<Rightarrow> extract_native_transfers b (map fst ?m)) = Inr ns"
    using False st rpc_answer by (fastforce simp: find_native_transfers_to_def)
  then obtain b where b: "node_block (chain_node s) k = Some b" "extract_native_transfers b (map fst ?m) = Inr ns"
    by (auto split: option.splits)
  have ns: "ns = native_transfers (map fst ?m) 0 (txns (blk_transactions b))"
    using b(2) by (auto simp: extract_native_transfers_def split: BlockTransactions.splits)
  show ?thesis
    unfolding natives_reported_def
  proof clarify
    fix i t assume "(i, t) \<in> natives_in s k"
    then obtain a x where t: "t \<in> set (txns (blk_transactions b))" "txn_to t = Some a" "txn_value t \<noteq> 0"
      "map_of (cm_watched s) (a, None) = Some x" "wd_invoice x = i"
      using b(1) by (auto simp: natives_in_def)
    then have m: "map_of ?m a = Some i" by (simp add: map_of_native_watches)
    then have "a \<in> set (map fst ?m)" by (force dest: map_of_SomeD)
    with native_transfers_complete[OF t(1,2) _ t(3)] obtain n where
      n: "n \<in> set ns" "nt_to n = a" "nt_tx_hash n = txn_hash t" "nt_value n = txn_value t"
      unfolding ns by blast
    then have "native_event u k h i n \<in> set evs"
      using native_events_complete[OF n(1)] m evs by simp
    then show "\<exists>e \<in> set evs. native_report e i k t"
      using n t(2) by (intro bexI) (auto simp: native_report_def native_event_def)
  qed
qed

lemma decode_complete:
  assumes "decode_transfers be s w ls = Inr evs" "l \<in> set ls" "3 \<le> length (log_topics l)"
    "map_of w (topic_address (log_topics l ! 2), Some (log_address l)) = Some x"
  shows "\<exists>e \<in> set evs. token_report be e (wd_invoice x) l"
  using assms
proof (induction ls arbitrary: evs)
  case (Cons l' ls)
  show ?case
  proof (cases "l' = l")
    case True
    with Cons.prems show ?thesis
      by (auto simp: decode_transfer_def Let_def token_report_def split: sum.splits option.splits if_splits)
  next
    case False
    with Cons show ?thesis by (fastforce split: sum.splits option.splits)
  qed
qed simp

lemma check_erc20_reports:
  assumes run: "check_erc20_payments be (cm_watched s) a b s = (Inr evs, t)" and st: "steady s"
    and k: "a \<le> k" "k \<le> b"
  shows "tokens_reported be s (set evs) k"
proof (cases "token_watches (cm_watched s) = []")
  case True
  then have "map_of (cm_watched s) (p, Some q) = None" for p q
    by (auto simp: token_watches_def filter_empty_conv map_of_eq_None_iff)
  then show ?thesis by (auto simp: tokens_reported_def tokens_in_def)
next
  case False
  let ?f = "with_block_range a b (erc20_transfers_to (token_watches (cm_watched s)))"
  obtain ls u where ls: "get_logs ?f s = (Inr ls, u)" "decode_transfers be u (cm_watched s) ls = Inr evs"
    using run False by (auto simp: check_erc20_payments_def Let_def bindP_Inr_iff)
  then have logs: "ls = eth_get_logs (chain_node s) ?f" using rpc_answer[OF _ st] by (force simp: get_logs_def)
  show ?thesis
    unfolding tokens_reported_def
  proof clarify
    fix i l assume "(i, l) \<in> tokens_in s k"
    then obtain x where l: "l \<in> set (node_logs (chain_node s) k)" "3 \<le> length (log_topics l)"
      "log_topics l ! 0 = TRANSFER_TOPIC"
      "map_of (cm_watched s) (topic_address (log_topics l ! 2), Some (log_address l)) = Some x" "wd_invoice x = i"
      by (auto simp: tokens_in_def)
    have "topics_match [Some TRANSFER_TOPIC, None] l"
      using l(2,3) by (auto simp: topics_match_def upt_rec)
    then have "l \<in> set ls"
      unfolding logs using l(1) k set_block_range[of a b]
      by (auto simp: eth_get_logs_def with_block_range_def erc20_transfers_to_def)
    then show "\<exists>e \<in> set evs. token_report be e i l"
      using decode_complete[OF ls(2) _ l(2,4)] l(5) by blast
  qed
qed

section \<open>Steps of the monitor\<close>

lemma reads_still [steps_intros]:
  "steps still (check_native_payments w k h)" "steps still (check_erc20_payments be w a b)"
  "steps still (block_hash_or_err k)"
  unfolding check_native_payments_def check_erc20_payments_def block_hash_or_err_def Let_def
  by (intro steps_intros | simp add: steps_def still.R_refl)+

lemma reads_cursor [steps_intros]:
  "steps (same cursor) (check_native_payments w k h)" "steps (same cursor) (check_erc20_payments be w a b)"
  "steps (same cursor) (block_hash_or_err k)"
  unfolding check_native_payments_def check_erc20_payments_def block_hash_or_err_def Let_def
  by (intro steps_intros | simp add: steps_def same_def)+

lemma native_of_blocks_still [steps_intros]: "steps still (native_of_blocks w ks)"
  by (induction ks) (auto intro: steps_intros)

lemma native_of_blocks_cursor [steps_intros]: "steps (same cursor) (native_of_blocks w ks)"
  by (induction ks) (auto intro: steps_intros)

lemma backfill_still [steps_intros]: "steps still (backfill_missed_blocks be w a b)"
  unfolding backfill_missed_blocks_def by (intro steps_intros)

lemma backfill_cursor [steps_intros]: "steps (same cursor) (backfill_missed_blocks be w a b)"
  unfolding backfill_missed_blocks_def by (intro steps_intros)

lemma survived_still [steps_intros]:
  "steps still (survived_natives as ks)" "steps still (survived_logs as rs)"
  by (induction ks, auto intro: steps_intros) (induction rs, auto intro: steps_intros)

lemma survived_cursor [steps_intros]:
  "steps (same cursor) (survived_natives as ks)" "steps (same cursor) (survived_logs as rs)"
  by (induction ks, auto intro: steps_intros) (induction rs, auto intro: steps_intros)

lemma reorg_still [steps_intros]:
  "steps still (find_survived_tx_hashes a b)" "steps still (handle_reorg f h n)"
  "steps still (check_reorg n)"
  unfolding find_survived_tx_hashes_def handle_reorg_def check_reorg_def find_fork_def Let_def
  by (intro steps_intros)+

lemma reorg_cursor [steps_intros]:
  "steps (same cursor) (find_survived_tx_hashes a b)" "steps (same cursor) (handle_reorg f h n)"
  "steps (same cursor) (check_reorg n)"
  unfolding find_survived_tx_hashes_def handle_reorg_def check_reorg_def find_fork_def Let_def
  by (intro steps_intros)+

lemma tick_still [steps_intros]: "steps still (on_tick r)"
  unfolding on_tick_def check_confirmations_def resubscribe_if_stalled_def get_health_def Let_def
  by (intro steps_intros still.steps_mod) (auto simp: still_def steady_def)

lemma tick_cursor [steps_intros]: "steps (same cursor) (on_tick r)"
  unfolding on_tick_def check_confirmations_def resubscribe_if_stalled_def get_health_def Let_def
  by (intro steps_intros same.steps_mod) (auto simp: same_def cursor_def)

lemma records_reported:
  assumes "iterP record_detected evs s = (r, t)"
  shows "r = Inr () \<and> reported t = reported s \<union> set evs"
  using assms
proof (induction evs arbitrary: s)
  case Nil
  then show ?case by (simp add: okP_def)
next
  case (Cons ev evs)
  obtain u where u: "record_detected ev s = (Inr (), u)" "reported u = insert ev (reported s)"
    by (cases "tx_index ev") (auto simp: record_detected_def bindP_def modP_def okP_def broadcast_def reported_def)
  with Cons.prems have "iterP record_detected evs u = (r, t)" by (simp add: bindP_def)
  from Cons.IH[OF this] u(2) show ?case by simp
qed

lemma native_of_blocks_reports:
  assumes "native_of_blocks (cm_watched s) ks s = (Inr evs, t)" "steady s" "k \<in> set ks"
  shows "natives_reported s (set evs) k"
  using assms
proof (induction ks arbitrary: s evs t)
  case (Cons j ks)
  obtain h u where u: "block_hash_or_err j s = (Inr h, u)"
    using Cons.prems(1) by (auto simp: bindP_Inr_iff)
  obtain e1 v where v: "check_native_payments (cm_watched s) j h u = (Inr e1, v)"
    using Cons.prems(1) u by (auto simp: bindP_def split: prod.splits sum.splits)
  obtain e2 where w: "native_of_blocks (cm_watched s) ks v = (Inr e2, t)" and evs: "evs = e1 @ e2"
    using Cons.prems(1) u v by (auto simp: bindP_def okP_def split: prod.splits sum.splits)
  have su: "still s u" "still u v"
    using stepsD[OF reads_still(3) u] stepsD[OF reads_still(1) v] by auto
  then have c: "chain_node u = chain_node s" "cm_watched u = cm_watched s" "steady u"
    "chain_node v = chain_node s" "cm_watched v = cm_watched s" "steady v"
    using Cons.prems(2) by (auto simp: still_def)
  show ?case
  proof (cases "k = j")
    case True
    have "natives_reported u (set e1) j" using check_native_reports[of u j h e1 v] v c by simp
    then show ?thesis
      unfolding True evs natives_reported_def natives_in_cong[OF c(1,2)] by auto
  next
    case False
    have "natives_reported v (set e2) k" using Cons.IH[of v e2 t] w c False Cons.prems(3) by simp
    then show ?thesis
      unfolding evs natives_reported_def natives_in_cong[OF c(4,5)] by auto
  qed
qed simp

lemma backfill_reports:
  assumes run: "backfill_missed_blocks be (cm_watched s) a b s = (Inr (evs, h), t)" and st: "steady s"
    and k: "a \<le> k" "k \<le> b"
  shows "scanned be s (set evs) k"
proof -
  let ?cfg = "cm_config s"
  obtain ns u where u: "(if monitor_native ?cfg then native_of_blocks (cm_watched s) (block_range a b) else okP []) s = (Inr ns, u)"
    using run by (auto simp: backfill_missed_blocks_def bindP_def getP_def split: prod.splits sum.splits)
  then obtain es v where v: "(if monitor_erc20 ?cfg then check_erc20_payments be (cm_watched s) a b else okP []) u = (Inr es, v)"
    and evs: "evs = ns @ es"
    using run by (auto simp: backfill_missed_blocks_def bindP_def getP_def okP_def split: prod.splits sum.splits)
  have su: "still s u"
    using u stepsD[OF native_of_blocks_still] by (auto simp: okP_def still.R_refl split: if_splits)
  have "natives_reported s (set ns) k" if "monitor_native ?cfg"
    using native_of_blocks_reports[of s "block_range a b" ns u k] u that st k set_block_range by auto
  moreover have "tokens_reported be s (set es) k" if "monitor_erc20 ?cfg"
  proof -
    have "chain_node u = chain_node s" "cm_watched u = cm_watched s" "steady u"
      using su st by (auto simp: still_def)
    then show ?thesis
      using check_erc20_reports[of be u a b es v k] v that k tokens_in_cong[of u s]
      by (auto simp: tokens_reported_def)
  qed
  ultimately show ?thesis
    unfolding scanned_def evs by (auto intro: natives_reported_mono tokens_reported_mono)
qed

lemma still_set_cursor: "still s (s\<lparr>cm_last_block := b, cm_last_hash := h\<rparr>)"
  by (simp add: still_def steady_def)

lemma chunk_outcome:
  assumes run: "backfill_chunk be (cm_watched s) a b s = (r, t)" and st: "steady s"
  shows "still s t \<and> (cursor t = cursor s \<and> (\<exists>e. r = Inl e)
    \<or> (\<exists>c. c \<le> b \<and> cm_last_block t = Some c \<and> r = Inr (\<not> c < b)
        \<and> (\<forall>k. a \<le> k \<and> k \<le> c \<longrightarrow> block_reported be t k)))"
proof -
  let ?c = "min b (a + BACKFILL_MAX_BLOCKS - 1)"
  obtain q u where u: "backfill_missed_blocks be (cm_watched s) a ?c s = (q, u)" by fastforce
  have su: "still s u" "cursor u = cursor s"
    using stepsD[OF backfill_still u] stepsD[OF backfill_cursor u] by (auto simp: same_def)
  show ?thesis
  proof (cases q)
    case (Inl e)
    then have "r = Inl e" "t = u" using run u by (auto simp: backfill_chunk_def Let_def bindP_def)
    then show ?thesis using su by blast
  next
    case (Inr z)
    obtain evs h where z: "z = (evs, h)" by fastforce
    obtain q' v where v: "iterP record_detected evs u = (q', v)" by fastforce
    note rec = records_reported[OF v]
    have uv: "still u v" using stepsD[OF still.steps_iter[OF record_still] v] .
    have t: "t = v\<lparr>cm_last_block := Some ?c, cm_last_hash := Some h\<rparr>" "r = Inr (\<not> ?c < b)"
      using run u v rec Inr z by (auto simp: backfill_chunk_def Let_def bindP_def set_cursor_def modP_def okP_def)
    have sv: "still s v" using su(1) uv by (rule still.R_trans)
    have stl: "still s t" unfolding t(1) using still_set_cursor by (rule still.R_trans[OF sv])
    have "block_reported be t k" if "a \<le> k" "k \<le> ?c" for k
    proof -
      have "scanned be s (set evs) k" using backfill_reports[OF _ st that] u Inr z by simp
      then have "scanned be t (set evs) k" using scanned_still[OF stl st] by simp
      moreover have "set evs \<subseteq> reported t" using rec t(1) by (auto simp: reported_def)
      ultimately show ?thesis unfolding block_reported_def by (rule scanned_mono)
    qed
    then show ?thesis using stl t by (intro conjI disjI2 exI[of _ ?c]) auto
  qed
qed

lemma scan_outcome:
  assumes run: "scan_block be (cm_watched s) n s = (r, t)" and st: "steady s"
  shows "still s t \<and> (cursor t = cursor s \<or> cm_last_block t = Some (bn_number n) \<and> block_reported be t (bn_number n))"
proof -
  let ?cfg = "cm_config s" and ?k = "bn_number n"
  obtain q u where u: "(if monitor_native ?cfg then check_native_payments (cm_watched s) ?k (bn_hash n) else okP []) s = (q, u)"
    by fastforce
  have su: "still s u" "cursor u = cursor s"
    using u stepsD[OF reads_still(1)] stepsD[OF reads_cursor(1)]
    by (auto simp: okP_def still.R_refl same_def split: if_splits)
  show ?thesis
  proof (cases q)
    case (Inl e)
    then have "t = u" using run u by (auto simp: scan_block_def bindP_def getP_def)
    then show ?thesis using su by blast
  next
    case (Inr ns)
    obtain q' v where v: "(if monitor_erc20 ?cfg then check_erc20_payments be (cm_watched s) ?k ?k else okP []) u = (q', v)"
      by fastforce
    have uv: "still u v" "cursor v = cursor u"
      using v stepsD[OF reads_still(2)] stepsD[OF reads_cursor(2)]
      by (auto simp: okP_def still.R_refl same_def split: if_splits)
    have sv: "still s v" using su(1) uv(1) by (rule still.R_trans)
    show ?thesis
    proof (cases q')
      case (Inl e)
      then have "t = v" using run u Inr v by (auto simp: scan_block_def bindP_def getP_def)
      then show ?thesis using sv su uv by simp
    next
      case es: (Inr es)
      obtain q'' x where x: "iterP record_detected (ns @ es) v = (q'', x)" by fastforce
      note rec = records_reported[OF x]
      have vx: "still v x" using stepsD[OF still.steps_iter[OF record_still] x] .
      have t: "t = x\<lparr>cm_last_block := Some ?k, cm_last_hash := Some (bn_hash n)\<rparr>"
        using run u Inr v es x rec by (auto simp: scan_block_def bindP_def getP_def set_cursor_def modP_def)
      have stl: "still s t"
        unfolding t using still_set_cursor by (rule still.R_trans[OF still.R_trans[OF sv vx]])
      have "natives_reported s (set ns) ?k" if "monitor_native ?cfg"
        using check_native_reports[of s ?k "bn_hash n" ns u] u Inr that st by simp
      moreover have "tokens_reported be s (set es) ?k" if "monitor_erc20 ?cfg"
      proof -
        have "chain_node u = chain_node s" "cm_watched u = cm_watched s" "steady u"
          using su st by (auto simp: still_def)
        then show ?thesis
          using check_erc20_reports[of be u ?k ?k es v ?k] v es that tokens_in_cong[of u s]
          by (auto simp: tokens_reported_def)
      qed
      ultimately have "scanned be s (set (ns @ es)) ?k"
        unfolding scanned_def by (auto intro: natives_reported_mono tokens_reported_mono)
      then have "scanned be t (set (ns @ es)) ?k" using scanned_still[OF stl st] by simp
      moreover have "set (ns @ es) \<subseteq> reported t" using rec t by (auto simp: reported_def)
      ultimately have "block_reported be t ?k" unfolding block_reported_def by (rule scanned_mono)
      then show ?thesis using stl t by simp
    qed
  qed
qed

section \<open>No payment is missed\<close>

definition complete_from :: "(u8 list \<Rightarrow> u256 option) \<Rightarrow> u64 \<Rightarrow> chain_monitor \<Rightarrow> bool" where
  "complete_from be b s \<longleftrightarrow> steady s \<and> cm_watched s \<noteq> []
     \<and> (\<exists>l. cm_last_block s = Some l \<and> (\<forall>k. b < k \<and> k \<le> l \<longrightarrow> block_reported be s k))"

lemma complete_still:
  assumes "complete_from be b s" "still s t" "cursor t = cursor s"
  shows "complete_from be b t"
  using assms block_reported_still[OF _ assms(2)]
  unfolding complete_from_def still_def cursor_def by auto

lemma complete_event: "complete_from be b s \<Longrightarrow> complete_from be b (s\<lparr>cm_events := cm_events s @ [e]\<rparr>)"
  by (erule complete_still) (auto simp: still_def steady_def cursor_def)

lemma complete_extend:
  assumes s: "complete_from be b s" "still s t" and last: "cm_last_block s = Some l" "cm_last_block t = Some c"
    and new: "\<And>k. l + 1 \<le> k \<Longrightarrow> k \<le> c \<Longrightarrow> block_reported be t k"
  shows "complete_from be b t"
proof -
  have "block_reported be t k" if "b < k" "k \<le> c" for k
  proof (cases "k \<le> l")
    case True
    then have "block_reported be s k" using s(1) last(1) that(1) by (auto simp: complete_from_def)
    then show ?thesis using block_reported_still s by (auto simp: complete_from_def)
  next
    case False
    then have "l + 1 \<le> k" using unat_Suc[of l k] by (simp add: word_le_nat_alt word_less_nat_alt not_le)
    then show ?thesis using new that(2) by blast
  qed
  then show ?thesis using s last(2) by (auto simp: complete_from_def still_def)
qed

lemma process_complete:
  assumes inv: "complete_from be b s" and run: "process_block be n s = (r, t)"
  shows "complete_from be b t"
proof -
  obtain q u where u: "check_reorg n s = (q, u)" by fastforce
  have cu: "complete_from be b u"
    using complete_still[OF inv stepsD[OF reorg_still(3) u]] stepsD[OF reorg_cursor(3) u] by (simp add: same_def)
  obtain l where l: "cm_last_block u = Some l" and w: "cm_watched u \<noteq> []" and st: "steady u"
    using cu by (auto simp: complete_from_def)
  show ?thesis
  proof (cases q)
    case (Inl e)
    then have "t = u" using run u by (simp add: process_block_def bindP_def)
    then show ?thesis using cu by simp
  next
    case (Inr x)
    show ?thesis
    proof (cases "l + 1 < bn_number n")
      case False
      then have sc: "scan_block be (cm_watched u) n u = (r, t)"
        using run u Inr l w by (simp add: process_block_def bindP_def getP_def Let_def okP_def)
      have out: "still u t" "cursor t = cursor u \<or> cm_last_block t = Some (bn_number n) \<and> block_reported be t (bn_number n)"
        using scan_outcome[OF sc st] by auto
      from out(2) show ?thesis
      proof
        assume "cursor t = cursor u"
        then show ?thesis by (rule complete_still[OF cu out(1)])
      next
        assume new: "cm_last_block t = Some (bn_number n) \<and> block_reported be t (bn_number n)"
        have "k = bn_number n" if "l + 1 \<le> k" "k \<le> bn_number n" for k
          using False that by (meson antisym not_less order_trans)
        then show ?thesis using new by (intro complete_extend[OF cu out(1) l]) auto
      qed
    next
      case True
      obtain q' v where v: "backfill_chunk be (cm_watched u) (l + 1) (bn_number n - 1) u = (q', v)" by fastforce
      note out = chunk_outcome[OF v st]
      have uv: "still u v" using out by blast
      have cv: "complete_from be b v"
      proof (cases q')
        case (Inl e)
        then show ?thesis using out complete_still[OF cu uv] by auto
      next
        case (Inr y)
        then obtain c where "cm_last_block v = Some c" "\<forall>k. l + 1 \<le> k \<and> k \<le> c \<longrightarrow> block_reported be v k"
          using out by auto
        then show ?thesis by (intro complete_extend[OF cu uv l]) auto
      qed
      have wv: "cm_watched v = cm_watched u" "steady v" using uv st by (auto simp: still_def)
      consider "t = v" | "q' = Inr True" "scan_block be (cm_watched u) n v = (r, t)"
        using run u Inr l w True v
        by (cases q') (auto simp: process_block_def bindP_def getP_def Let_def okP_def split: if_splits)
      then show ?thesis
      proof cases
        case 1
        then show ?thesis using cv by simp
      next
        case 2
        obtain c where c: "c \<le> bn_number n - 1" "cm_last_block v = Some c" "\<not> c < bn_number n - 1"
          using out 2(1) by auto
        then have c1: "c + 1 = bn_number n" by (simp add: not_less)
        have sc: "scan_block be (cm_watched v) n v = (r, t)" using 2(2) wv by simp
        have o: "still v t" "cursor t = cursor v \<or> cm_last_block t = Some (bn_number n) \<and> block_reported be t (bn_number n)"
          using scan_outcome[OF sc wv(2)] by auto
        from o(2) show ?thesis
        proof
          assume "cursor t = cursor v"
          then show ?thesis by (rule complete_still[OF cv o(1)])
        next
          assume "cm_last_block t = Some (bn_number n) \<and> block_reported be t (bn_number n)"
          then show ?thesis
            using c1 by (intro complete_extend[OF cv o(1) c(2)]) auto
        qed
      qed
    qed
  qed
qed

lemma loop_complete:
  "complete_from be b s \<Longrightarrow> monitor_loop be xs s = (r, t) \<Longrightarrow> complete_from be b t"
proof (induction xs arbitrary: s)
  case Nil
  then show ?case by (simp add: okP_def)
next
  case (Cons x xs)
  let ?s = "s\<lparr>cm_loop_alive_at := cm_now s, cm_now := fst x\<rparr>"
  have s: "complete_from be b ?s"
    by (rule complete_still[OF Cons.prems(1)]) (auto simp: still_def steady_def cursor_def)
  show ?case
  proof (cases "snd x")
    case (Block_arrived n)
    obtain q u where u: "on_block be n ?s = (q, u)" by fastforce
    let ?v = "?s\<lparr>cm_last_block_at := fst x\<rparr>"
    obtain q' v where v: "process_block be n ?v = (q', v)" by fastforce
    have "complete_from be b ?v" by (rule complete_still[OF s]) (auto simp: still_def steady_def cursor_def)
    then have cv: "complete_from be b v" using v by (rule process_complete)
    have "u = v \<or> (\<exists>e. u = v\<lparr>cm_events := cm_events v @ [e]\<rparr>)"
      using u v by (auto simp: on_block_def bindP_def modP_def tryP_def getP_def okP_def errP_def broadcast_def
          split: sum.splits EvmError.splits)
    then have "complete_from be b u"
      using cv complete_event[OF cv] by auto
    then show ?thesis
      using Cons.IH[of u] Cons.prems(2) u Block_arrived
      by (cases q) (auto simp: bindP_def modP_def)
  next
    case Stream_error
    then show ?thesis using Cons.IH[OF s] Cons.prems(2) by (simp add: bindP_def modP_def)
  next
    case (Timer_tick sub)
    obtain q u where u: "on_tick sub ?s = (q, u)" by fastforce
    have "complete_from be b u"
      using complete_still[OF s stepsD[OF tick_still u]] stepsD[OF tick_cursor u] by (simp add: same_def)
    then show ?thesis
      using Cons.IH[of u] Cons.prems(2) u Timer_tick by (cases q) (auto simp: bindP_def modP_def)
  next
    case Stop_signal
    then have "\<exists>e. t = ?s\<lparr>cm_events := cm_events ?s @ [e]\<rparr>"
      using Cons.prems(2) by (auto simp: bindP_def modP_def getP_def broadcast_def)
    then show ?thesis using complete_event[OF s] by auto
  qed
qed

lemma process_still [steps_intros]: "steps still (process_block be n)"
proof -
  have cursor: "steps still (set_cursor k h)" for k h
    unfolding set_cursor_def by (rule still.steps_mod) (rule still_set_cursor)
  show ?thesis
    unfolding process_block_def backfill_chunk_def scan_block_def Let_def
    by (intro steps_intros cursor)
qed

lemma loop_still: "steps still (monitor_loop be xs)"
proof (induction xs)
  case Nil
  then show ?case by (simp add: still.steps_ok)
next
  case (Cons x xs)
  have b: "steps still (on_block be n)" for n
    unfolding on_block_def
    by (intro steps_intros still.steps_mod) (auto simp: still_def steady_def split: EvmError.split intro: steps_intros)
  have m: "steps still (modP (\<lambda>s. s\<lparr>cm_loop_alive_at := cm_now s\<rparr>))" "steps still (modP (\<lambda>s. s\<lparr>cm_now := fst x\<rparr>))"
    by (rule still.steps_mod, simp add: still_def steady_def)+
  show ?case
    unfolding monitor_loop.simps
    by (cases "snd x") (auto intro!: steps_intros m b Cons)
qed


text \<open>An example chain: a transfer of 100 in block 11, a token transfer in block 12.\<close>

definition ex_be :: "u8 list \<Rightarrow> u256 option" where
  "ex_be bs = (if length bs \<le> 32 then Some (fold (\<lambda>x acc. acc * 256 + ucast x) bs 0) else None)"

definition ex_tx :: Transaction where
  "ex_tx = \<lparr> txn_hash = 77, txn_from = 9, txn_to = Some 42, txn_value = 100 \<rparr>"

definition ex_block :: "u64 \<Rightarrow> b256 \<Rightarrow> b256 \<Rightarrow> Transaction list \<Rightarrow> Block" where
  "ex_block k h p ts =
     \<lparr> bn_number = k, bn_hash = h, bn_parent = p, bn_timestamp = 0, blk_transactions = Full ts \<rparr>"

definition ex_log :: Log where
  "ex_log =
     \<lparr> log_address = 5, log_topics = [TRANSFER_TOPIC, 9, 42], log_data = [7], log_block = Some 12,
       log_block_hash = Some 112, log_tx_hash = Some 78, log_idx = Some 0 \<rparr>"

definition ex_node :: node where
  "ex_node =
     \<lparr> node_head = 12,
       node_block = (\<lambda>k. if k = 10 then Some (ex_block 10 110 109 []) else
          if k = 11 then Some (ex_block 11 111 110 [ex_tx]) else
          if k = 12 then Some (ex_block 12 112 111 []) else None),
       node_logs = (\<lambda>k. if k = 12 then [ex_log] else []) \<rparr>"

definition ex_watched :: "(watch_key \<times> WatchedAddress) list" where
  "ex_watched =
     [((42, None), \<lparr> wd_address = 42, wd_invoice = 1, wd_expected = None, wd_token = None, wd_created_at = 0 \<rparr>),
      ((42, Some 5), \<lparr> wd_address = 42, wd_invoice = 2, wd_expected = None, wd_token = Some 5, wd_created_at = 0 \<rparr>)]"

definition ex_monitor :: chain_monitor where
  "ex_monitor = (monitor_new ETHEREUM ex_node monitor_config_default 0)
     \<lparr>cm_watched := ex_watched, cm_last_block := Some 10, cm_last_hash := Some 110\<rparr>"

definition ex_head :: BlockNotification where
  "ex_head = notification_of (ex_block 12 112 111 [])"

text \<open>Block 11 is never delivered, and the first attempt to read it fails.\<close>

definition ex_caught_up :: "(EvmError + bool) \<times> chain_monitor" where
  "ex_caught_up = monitor_loop ex_be [(1, Block_arrived ex_head), (2, Stream_error), (3, Block_arrived ex_head)]
     (ex_monitor\<lparr>rpc_schedule := [Rpc_ok, Rpc_ok, Rpc_fail ''timeout'']\<rparr>)"


section \<open>The survivor scan\<close>

lemma survived_natives_find:
  assumes "survived_natives as ks s = (Inr hs, t)" "steady s" "as \<noteq> []" "k \<in> set ks"
    and b: "node_block (chain_node s) k = Some b" "x \<in> set (txns (blk_transactions b))"
      "txn_to x = Some a" "a \<in> set as" "txn_value x \<noteq> 0"
  shows "txn_hash x \<in> set hs"
  using assms(1,2,4) b(1)
proof (induction ks arbitrary: s hs)
  case (Cons j ks)
  obtain ts u where u: "find_native_transfers_to j as s = (Inr ts, u)"
    using Cons.prems(1) by (auto simp: bindP_Inr_iff)
  obtain rest where r: "survived_natives as ks u = (Inr rest, t)" and hs: "hs = map nt_tx_hash ts @ rest"
    using Cons.prems(1) u by (auto simp: bindP_def okP_def split: prod.splits sum.splits)
  have su: "still s u" using stepsD[OF source_still(4) u] .
  show ?case
  proof (cases "j = k")
    case True
    have "(case node_block (chain_node s) k of
        None \<Rightarrow> Inl (EvmRpc ''block was announced but this endpoint has not imported it yet'')
      | Some b \<Rightarrow> extract_native_transfers b as) = Inr ts"
      using u rpc_answer[OF _ Cons.prems(2)] assms(3) True by (fastforce simp: find_native_transfers_to_def)
    then have "ts = native_transfers as 0 (txns (blk_transactions b))"
      using Cons.prems(4) by (auto simp: extract_native_transfers_def split: BlockTransactions.splits)
    then have "\<exists>n \<in> set ts. nt_to n = a \<and> nt_tx_hash n = txn_hash x \<and> nt_value n = txn_value x"
      using native_transfers_complete[OF b(2-5)] by blast
    then show ?thesis using hs by force
  next
    case False
    then show ?thesis using Cons.IH[OF r] Cons.prems su hs by (auto simp: still_def)
  qed
qed simp

lemma survived_logs_whole:
  assumes "survived_logs as rs s = (Inr hs, t)" "steady s"
  shows "hs = List.map_filter log_tx_hash
    (concat (map (\<lambda>(x, y). node_range_logs [Some TRANSFER_TOPIC, None] (chain_node s) x y) rs))"
  using assms
proof (induction rs arbitrary: s hs)
  case Nil
  then show ?case by (simp add: okP_def List.map_filter_def)
next
  case (Cons r rs)
  let ?f = "with_block_range (fst r) (snd r) (erc20_transfers_to as)"
  obtain ls u where u: "get_logs ?f s = (Inr ls, u)" using Cons.prems(1) by (auto simp: bindP_Inr_iff)
  obtain rest where q: "survived_logs as rs u = (Inr rest, t)" "hs = List.map_filter log_tx_hash ls @ rest"
    using Cons.prems(1) u by (auto simp: bindP_def okP_def split: prod.splits sum.splits)
  have "still s u" using stepsD[OF source_still(1) u] .
  then have c: "steady u" "chain_node u = chain_node s" using Cons.prems(2) by (auto simp: still_def)
  have "ls = eth_get_logs (chain_node s) ?f"
    using u rpc_answer[OF _ Cons.prems(2)] by (force simp: get_logs_def)
  then have "ls = node_range_logs [Some TRANSFER_TOPIC, None] (chain_node s) (fst r) (snd r)"
    by (simp add: node_range_logs_def with_block_range_def erc20_transfers_to_def)
  then show ?case
    using q(2) Cons.IH[OF q(1) c(1)] c(2) by (simp add: List.map_filter_def split_def)
qed

lemma survivors_found:
  assumes run: "find_survived_tx_hashes a b s = (Inr (hs, v), t)" and st: "steady s" and w: "cm_watched s \<noteq> []"
    and k: "a \<le> k" "k \<le> b"
  shows "v \<and> (\<forall>(i, x) \<in> natives_in s k. txn_hash x \<in> set hs)
    \<and> (\<forall>(i, l) \<in> tokens_in s k. set_option (log_tx_hash l) \<subseteq> set hs)"
proof -
  let ?ns = "map fst (native_watches (cm_watched s))" and ?ts = "token_watches (cm_watched s)"
  let ?c = "max (max_blocks_per_scan (cm_config s)) 1"
  obtain h1 u where u: "(if ?ns = [] then okP [] else survived_natives ?ns (block_range a b)) s = (Inr h1, u)"
    using run w by (auto simp: find_survived_tx_hashes_def bindP_def getP_def Let_def split: prod.splits sum.splits)
  obtain h2 where t: "(if ?ts = [] then okP [] else survived_logs ?ts (chunks ?c a b)) u = (Inr h2, t)"
    and hs: "hs = h1 @ h2" "v"
    using run w u
    by (auto simp: find_survived_tx_hashes_def bindP_def getP_def okP_def Let_def split: prod.splits sum.splits)
  have "still s u" using u stepsD[OF survived_still(1)] by (auto simp: okP_def still.R_refl split: if_splits)
  then have c: "steady u" "chain_node u = chain_node s" using st by (auto simp: still_def)
  have "txn_hash x \<in> set h1" if n: "(i, x) \<in> natives_in s k" for i x
  proof -
    obtain bl p y where x: "node_block (chain_node s) k = Some bl" "x \<in> set (txns (blk_transactions bl))"
      "txn_to x = Some p" "txn_value x \<noteq> 0" "map_of (cm_watched s) (p, None) = Some y"
      using n by (auto simp: natives_in_def)
    then have "map_of (native_watches (cm_watched s)) p = Some (wd_invoice y)" by (simp add: map_of_native_watches)
    then have p: "p \<in> set ?ns" by (force dest: map_of_SomeD)
    then have ne: "?ns \<noteq> []" by auto
    then have r: "survived_natives ?ns (block_range a b) s = (Inr h1, u)" using u by simp
    have "k \<in> set (block_range a b)" using k by (simp add: set_block_range)
    then show ?thesis using survived_natives_find[OF r st ne _ x(1-3) p x(4)] by blast
  qed
  moreover have "set_option (log_tx_hash l) \<subseteq> set h2" if n: "(i, l) \<in> tokens_in s k" for i l
  proof -
    obtain x where l: "l \<in> set (node_logs (chain_node s) k)" "3 \<le> length (log_topics l)"
      "log_topics l ! 0 = TRANSFER_TOPIC"
      "map_of (cm_watched s) (topic_address (log_topics l ! 2), Some (log_address l)) = Some x"
      using n by (auto simp: tokens_in_def)
    have "?ts \<noteq> []"
      using map_of_SomeD[OF l(4)] by (force simp: token_watches_def filter_empty_conv)
    then have "h2 = List.map_filter log_tx_hash
        (concat (map (\<lambda>(x, y). node_range_logs [Some TRANSFER_TOPIC, None] (chain_node s) x y) (chunks ?c a b)))"
      using survived_logs_whole[OF _ c(1)] t c(2) by simp
    also have "concat (map (\<lambda>(x, y). node_range_logs [Some TRANSFER_TOPIC, None] (chain_node s) x y) (chunks ?c a b))
        = node_range_logs [Some TRANSFER_TOPIC, None] (chain_node s) a b"
      using k by (intro rpc_source.chunks_cover) (auto simp: max_def word_less_nat_alt word_le_nat_alt)
    finally have h2: "h2 = List.map_filter log_tx_hash (node_range_logs [Some TRANSFER_TOPIC, None] (chain_node s) a b)" .
    have "topics_match [Some TRANSFER_TOPIC, None] l"
      using l(2,3) by (auto simp: topics_match_def upt_rec)
    then have "l \<in> set (node_range_logs [Some TRANSFER_TOPIC, None] (chain_node s) a b)"
      using l(1) k set_block_range[of a b] by (auto simp: node_range_logs_def eth_get_logs_def)
    then show ?thesis unfolding h2 by (force simp: List.map_filter_def)
  qed
  ultimately show ?thesis unfolding hs(1) using hs(2) by (fastforce simp del: option.set_intros)
qed

text \<open>
  C24 (safety): The survivor scan of a reorganisation overlooks nothing.  On a chain that stays put while it
  runs, a scan that returns lists the transaction of every payment to a watched address in its whole range,
  however the range was cut into queries.
\<close>

theorem survivor_scan_complete:
  assumes "find_survived_tx_hashes a b s = (Inr (hs, v), t)" "steady s" "cm_watched s \<noteq> []" "a \<le> k" "k \<le> b"
  shows "v \<and> (\<forall>(i, x) \<in> natives_in s k. txn_hash x \<in> set hs)
    \<and> (\<forall>(i, l) \<in> tokens_in s k. set_option (log_tx_hash l) \<subseteq> set hs)"
  using assms by (rule survivors_found)

definition ex_survivors :: "(EvmError + b256 list \<times> bool) \<times> chain_monitor" where
  "ex_survivors = find_survived_tx_hashes 11 12 (ex_monitor\<lparr>cm_config := monitor_config_default\<lparr>max_blocks_per_scan := 1\<rparr>\<rparr>)"

theorem survivor_scan_complete_witness: "fst ex_survivors = Inr ([77, 78], True) \<and> (77 :: b256) \<in> set [77, 78]"
proof -
  let ?s = "ex_monitor\<lparr>cm_config := monitor_config_default\<lparr>max_blocks_per_scan := 1\<rparr>\<rparr>"
  have f: "fst ex_survivors = Inr ([77, 78], True)" by code_simp
  then have "find_survived_tx_hashes 11 12 ?s = (Inr ([77, 78], True), snd ex_survivors)"
    by (simp add: ex_survivors_def prod_eq_iff)
  moreover have "steady ?s" by code_simp
  moreover have "cm_watched ?s \<noteq> []" by (simp add: ex_monitor_def ex_watched_def)
  ultimately have "\<forall>(i, x) \<in> natives_in ?s 11. txn_hash x \<in> set [77, 78]"
    using survivor_scan_complete[of 11 12 ?s "[77, 78]" True "snd ex_survivors" 11] by simp
  moreover have "(1, ex_tx) \<in> natives_in ?s 11"
    unfolding natives_in_def
    by (simp add: ex_monitor_def monitor_new_def ex_node_def ex_block_def ex_tx_def ex_watched_def)
  ultimately show ?thesis using f by (auto simp: ex_tx_def)
qed

end
