(* ===== verification/Chain_Confirm.thy ===== *)
theory Chain_Confirm
  imports Chain_Scan
begin

text \<open>
  The chain monitor over time, with the watched set and the chain changing under it: every confirmation it
  sends stands for a payment it reported before, at sufficient depth.  After a reorganisation the monitor
  goes on with the new block; what the replaced blocks hold is not reported.
\<close>

section \<open>Confirmations\<close>

text \<open>Everything that can happen to a monitor: a turn of its loop, a change of the watched set, and a change of
  the chain it reads or of the outcomes of its calls.\<close>

inductive monitor_step :: "(u8 list \<Rightarrow> u256 option) \<Rightarrow> chain_monitor \<Rightarrow> chain_monitor \<Rightarrow> bool" for be where
  turns: "monitor_loop be xs s = (r, t) \<Longrightarrow> monitor_step be s t"
| watches: "monitor_watch w s = (r, t) \<Longrightarrow> monitor_step be s t"
| unwatches: "monitor_unwatch a token s = (r, t) \<Longrightarrow> monitor_step be s t"
| chain: "monitor_step be s (s\<lparr>chain_node := n, rpc_schedule := sch\<rparr>)"

inductive monitor_reach :: "(u8 list \<Rightarrow> u256 option) \<Rightarrow> chain_monitor \<Rightarrow> bool" for be where
  fresh: "monitor_reach be (monitor_new chain n cfg t)"
| step: "monitor_reach be s \<Longrightarrow> monitor_step be s t \<Longrightarrow> monitor_reach be t"

inductive_cases monitor_stepE: "monitor_step be s t"

definition backed :: "PaymentDetected set \<Rightarrow> PaymentConfirmed \<Rightarrow> bool" where
  "backed evs c \<longleftrightarrow> (\<exists>e \<in> evs. tx_index e = Some (pc_tx_index c) \<and> pd_tx_hash e = pc_tx_hash c
     \<and> pd_chain e = pc_chain c \<and> pd_invoice e = pc_invoice c \<and> pd_address e = pc_address c \<and> pd_amount e = pc_amount c
     \<and> pd_block e = pc_block c \<and> pd_required e \<le> pc_confirmations c)"

definition pending_ok :: "PaymentDetected set \<Rightarrow> (b256 \<times> i32) \<times> PendingPayment \<Rightarrow> bool" where
  "pending_ok evs x \<longleftrightarrow> (\<exists>e \<in> evs. tx_index e = Some (snd (fst x)) \<and> pd_tx_hash e = fst (fst x)
     \<and> (\<exists>d. pp_event (snd x) = e\<lparr>pd_confirmations := d\<rparr>))"

definition confirm_inv :: "chain_monitor \<Rightarrow> bool" where
  "confirm_inv s \<longleftrightarrow> (\<forall>x \<in> set (cm_pending s). pending_ok (reported s) x)
     \<and> (\<forall>c. EPaymentConfirmed c \<in> set (cm_events s) \<longrightarrow> backed (reported s) c)"

lemma pending_ok_mono: "pending_ok evs x \<Longrightarrow> evs \<subseteq> evs' \<Longrightarrow> pending_ok evs' x"
  unfolding pending_ok_def by blast

lemma backed_mono: "backed evs c \<Longrightarrow> evs \<subseteq> evs' \<Longrightarrow> backed evs' c"
  unfolding backed_def by blast

interpretation confirm: step_rel "kept confirm_inv"
  by (rule step_rel_kept)

lemma confirm_frame:
  assumes "cm_pending t = cm_pending s" "cm_events t = cm_events s"
  shows "kept confirm_inv s t"
  using assms by (simp add: kept_def confirm_inv_def reported_def)

lemma confirm_broadcast:
  assumes "\<And>c. e \<noteq> EPaymentConfirmed c"
  shows "steps (kept confirm_inv) (broadcast e x)"
proof -
  have "confirm_inv (s\<lparr>cm_events := cm_events s @ [e]\<rparr>)" if "confirm_inv s" for s
  proof -
    have "reported s \<subseteq> reported (s\<lparr>cm_events := cm_events s @ [e]\<rparr>)" by (auto simp: reported_def)
    then show ?thesis
      using that assms pending_ok_mono backed_mono unfolding confirm_inv_def by fastforce
  qed
  then show ?thesis by (auto simp: steps_def kept_def broadcast_def)
qed

lemma confirm_rpc [steps_intros]: "steps (kept confirm_inv) (rpc f)"
  unfolding steps_def
proof
  fix s
  show "kept confirm_inv s (snd (rpc f s))"
    by (rule confirm_frame) (auto simp: rpc_def split: list.split rpc_step.split)
qed

lemma confirm_same:
  assumes "steps (same (\<lambda>s. (cm_pending s, cm_events s))) m"
  shows "steps (kept confirm_inv) m"
  using assms by (rule steps_mono) (auto simp: same_def intro: confirm_frame)

lemma confirm_reads [steps_intros]:
  "steps (kept confirm_inv) (get_logs f :: Log list monitor)" "steps (kept confirm_inv) (get_block_number :: u64 monitor)"
  "steps (kept confirm_inv) (get_block_hash k :: b256 option monitor)"
  "steps (kept confirm_inv) (find_native_transfers_to k as :: NativeTransfer list monitor)"
  unfolding source_defs by (intro steps_intros)+

lemma confirm_checks [steps_intros]:
  "steps (kept confirm_inv) (check_native_payments w k h)" "steps (kept confirm_inv) (check_erc20_payments be w a b)"
  "steps (kept confirm_inv) (block_hash_or_err k)"
  unfolding check_native_payments_def check_erc20_payments_def block_hash_or_err_def Let_def
  by (intro steps_intros | simp add: steps_def confirm.R_refl)+

lemma confirm_scans [steps_intros]:
  "steps (kept confirm_inv) (native_of_blocks w ks)" "steps (kept confirm_inv) (survived_natives as ks)"
  "steps (kept confirm_inv) (survived_logs as rs)"
  by (induction ks, auto intro: steps_intros) (induction ks, auto intro: steps_intros, induction rs, auto intro: steps_intros)

lemma update_subset: "x \<in> set (AList.update k v m) \<Longrightarrow> x = (k, v) \<or> x \<in> set m"
  by (induction m) (auto split: if_splits)

lemma confirm_record [steps_intros]: "steps (kept confirm_inv) (record_detected ev)"
proof -
  have "confirm_inv (snd (record_detected ev s))" if "confirm_inv s" for s
  proof -
    let ?t = "snd (record_detected ev s)"
    have ev: "reported ?t = insert ev (reported s)" "\<And>c. EPaymentConfirmed c \<in> set (cm_events ?t) \<longleftrightarrow> EPaymentConfirmed c \<in> set (cm_events s)"
      by (cases "tx_index ev";
          auto simp: record_detected_def bindP_def modP_def okP_def broadcast_def reported_def)+
    have p: "pending_ok (reported ?t) x" if new: "x \<in> set (cm_pending ?t)" for x
    proof (cases "x \<in> set (cm_pending s)")
      case True
      then show ?thesis using \<open>confirm_inv s\<close> ev(1) pending_ok_mono unfolding confirm_inv_def by blast
    next
      case False
      then obtain i where "tx_index ev = Some i" "x = ((pd_tx_hash ev, i), \<lparr> pp_event = ev, pp_last_check = pd_block ev \<rparr>)"
        using new
        by (cases "tx_index ev")
          (auto simp: record_detected_def bindP_def modP_def okP_def broadcast_def dest: update_subset)
      then show ?thesis
        unfolding ev(1) pending_ok_def
        by (intro bexI[of _ ev]) (auto intro: exI[of _ "pd_confirmations ev"])
    qed
    moreover have "backed (reported ?t) c" if "EPaymentConfirmed c \<in> set (cm_events ?t)" for c
      using that ev \<open>confirm_inv s\<close> backed_mono unfolding confirm_inv_def by blast
    ultimately show ?thesis unfolding confirm_inv_def by blast
  qed
  then show ?thesis by (simp add: steps_def kept_def)
qed

lemma confirm_check [steps_intros]: "steps (kept confirm_inv) check_confirmations"
proof -
  let ?f = "\<lambda>current s. let done' = map (confirm_one s current) (cm_pending s) in
       s\<lparr>cm_pending := map fst (filter (\<lambda>(_, c). c = None) done'),
         cm_events := cm_events s @ map EPaymentConfirmed (List.map_filter snd done')\<rparr>"
  have "kept confirm_inv s (?f current s)" for s current
    unfolding kept_def
  proof
    assume inv: "confirm_inv s"
    let ?t = "?f current s"
    have r: "reported ?t = reported s" by (auto simp: reported_def Let_def)
    have one: "pending_ok (reported s) y \<and> (\<forall>c'. c = Some c' \<longrightarrow> backed (reported s) c')"
      if x: "x \<in> set (cm_pending s)" and y: "confirm_one s current x = (y, c)" for x y c
    proof -
      obtain h i p where xx: "x = ((h, i), p)" by (cases x) auto
      obtain e d where e: "e \<in> reported s" "tx_index e = Some i" "pd_tx_hash e = h" "pp_event p = e\<lparr>pd_confirmations := d\<rparr>"
        using inv x by (force simp: confirm_inv_def pending_ok_def xx)
      let ?d = "sat_sub current (pd_block e) + 1"
      have y': "y = ((h, i), p\<lparr>pp_event := e\<lparr>pd_confirmations := ?d\<rparr>\<rparr>)"
        and c': "c = (if pd_required e \<le> ?d then Some (confirm_event s ?d i (e\<lparr>pd_confirmations := ?d\<rparr>)) else None)"
        using y e(4) by (auto simp: confirm_one_def Let_def xx)
      have "pending_ok (reported s) y"
        unfolding y' pending_ok_def using e by (intro bexI[of _ e]) auto
      moreover have "backed (reported s) c'" if "c = Some c'" for c'
        unfolding backed_def using that c' e by (intro bexI[of _ e]) (auto simp: confirm_event_def split: if_splits)
      ultimately show ?thesis by blast
    qed
    have each: "pending_ok (reported s) (fst (confirm_one s current x))"
      "snd (confirm_one s current x) = Some c \<Longrightarrow> backed (reported s) c" if "x \<in> set (cm_pending s)" for x c
      using one[OF that prod.collapse[symmetric]] by auto
    have "pending_ok (reported ?t) y" if "y \<in> set (cm_pending ?t)" for y
    proof -
      have "y \<in> fst ` confirm_one s current ` set (cm_pending s)" using that by (auto simp: Let_def)
      then show ?thesis using each(1) unfolding r by auto
    qed
    moreover have "backed (reported ?t) c" if "EPaymentConfirmed c \<in> set (cm_events ?t)" for c
    proof (cases "EPaymentConfirmed c \<in> set (cm_events s)")
      case True
      then show ?thesis using inv unfolding r by (simp add: confirm_inv_def)
    next
      case False
      then have "\<exists>x \<in> set (cm_pending s). snd (confirm_one s current x) = Some c"
        using that by (auto simp: Let_def List.map_filter_def)
      then show ?thesis using each(2) unfolding r by auto
    qed
    ultimately show "confirm_inv ?t" unfolding confirm_inv_def by blast
  qed
  then show ?thesis
    unfolding check_confirmations_def by (intro steps_intros confirm.steps_mod)
qed

lemma confirm_reorg [steps_intros]: "steps (kept confirm_inv) (check_reorg n)"
  unfolding check_reorg_def handle_reorg_def find_survived_tx_hashes_def find_fork_def Let_def
  by (intro steps_intros confirm_broadcast) simp_all

lemma confirm_set_cursor: "steps (kept confirm_inv) (set_cursor k h)"
  unfolding set_cursor_def by (rule confirm.steps_mod) (simp add: confirm_frame)

lemma confirm_process [steps_intros]: "steps (kept confirm_inv) (process_block be n)"
  unfolding process_block_def backfill_chunk_def backfill_missed_blocks_def scan_block_def Let_def
  by (intro steps_intros confirm_set_cursor)

lemma confirm_tick [steps_intros]: "steps (kept confirm_inv) (on_tick r)"
  unfolding on_tick_def resubscribe_if_stalled_def get_health_def Let_def
  by (intro steps_intros confirm.steps_mod confirm_frame) simp_all

lemma confirm_on_block [steps_intros]: "steps (kept confirm_inv) (on_block be n)"
proof -
  have m: "steps (kept confirm_inv) (modP (\<lambda>s. s\<lparr>cm_last_block_at := cm_now s\<rparr>))"
    by (rule confirm.steps_mod) (simp add: confirm_frame)
  show ?thesis
    unfolding on_block_def
    by (intro steps_intros m) (auto intro!: steps_intros confirm_broadcast split: EvmError.split)
qed

lemma confirm_loop: "steps (kept confirm_inv) (monitor_loop be xs)"
proof (induction xs)
  case Nil
  then show ?case by (simp add: confirm.steps_ok)
next
  case (Cons x xs)
  have m: "steps (kept confirm_inv) (modP (\<lambda>s. s\<lparr>cm_loop_alive_at := cm_now s\<rparr>))"
    "steps (kept confirm_inv) (modP (\<lambda>s. s\<lparr>cm_now := fst x\<rparr>))"
    by (rule confirm.steps_mod, simp add: confirm_frame)+
  show ?case
    unfolding monitor_loop.simps
    by (cases "snd x") (auto intro!: steps_intros m Cons confirm_broadcast)
qed

lemma reach_confirm_inv: "monitor_reach be s \<Longrightarrow> confirm_inv s"
proof (induction rule: monitor_reach.induct)
  case (fresh chain n cfg t)
  then show ?case by (simp add: confirm_inv_def monitor_new_def)
next
  case (step s t)
  have same: "confirm_inv t" if "cm_pending t = cm_pending s" "cm_events t = cm_events s"
    using confirm_frame[OF that] step.IH by (simp add: kept_def)
  from step.hyps(2) show ?case
  proof (cases rule: monitor_step.cases)
    case (turns xs r)
    then show ?thesis using stepsD[OF confirm_loop] step.IH by (auto simp: kept_def)
  next
    case (watches w r)
    then show ?thesis by (intro same) (auto simp: monitor_watch_def modP_def)
  next
    case (unwatches a token r)
    then show ?thesis by (intro same) (auto simp: monitor_unwatch_def)
  next
    case (chain n sch)
    then show ?thesis by (intro same) auto
  qed
qed

text \<open>
  C7 (invariant): Whatever happened to a monitor since it was created, each confirmation it has sent names,
  by transaction hash and transfer index, a payment it reported, with the same chain, invoice, address,
  amount and block, and states at least the depth that payment required.
\<close>

theorem confirmations_are_backed:
  assumes "monitor_reach be s" "EPaymentConfirmed c \<in> set (cm_events s)"
  shows "\<exists>e. EPaymentDetected e \<in> set (cm_events s) \<and> tx_index e = Some (pc_tx_index c) \<and> pd_tx_hash e = pc_tx_hash c
    \<and> pd_chain e = pc_chain c \<and> pd_invoice e = pc_invoice c \<and> pd_address e = pc_address c \<and> pd_amount e = pc_amount c
    \<and> pd_block e = pc_block c \<and> pd_required e \<le> pc_confirmations c"
  using reach_confirm_inv[OF assms(1)] assms(2)
  unfolding confirm_inv_def backed_def reported_def by blast

definition ex_deep :: "(EvmError + bool) \<times> chain_monitor" where
  "ex_deep = monitor_loop ex_be [(1, Block_arrived (notification_of (ex_block 11 111 110 []))), (2, Timer_tick (Inr Connected))]
     (snd (monitor_watch \<lparr> wd_address = 42, wd_invoice = 1, wd_expected = None, wd_token = None, wd_created_at = 0 \<rparr>
       (monitor_new ETHEREUM (ex_node\<lparr>node_head := 40\<rparr>) monitor_config_default 0)))"

theorem confirmations_are_backed_witness:
  "\<exists>c e. EPaymentConfirmed c \<in> set (cm_events (snd ex_deep)) \<and> EPaymentDetected e \<in> set (cm_events (snd ex_deep))
    \<and> tx_index e = Some (pc_tx_index c) \<and> pd_tx_hash e = pc_tx_hash c \<and> pd_amount e = pc_amount c
    \<and> pd_required e \<le> pc_confirmations c"
proof -
  let ?n = "monitor_new ETHEREUM (ex_node\<lparr>node_head := 40\<rparr>) monitor_config_default 0"
  let ?w = "\<lparr> wd_address = 42, wd_invoice = 1, wd_expected = None, wd_token = None, wd_created_at = 0 \<rparr>"
  let ?s = "snd (monitor_watch ?w ?n)"
  have "monitor_watch ?w ?n = (fst (monitor_watch ?w ?n), ?s)" by simp
  then have "monitor_reach ex_be ?s"
    by (rule monitor_reach.step[OF monitor_reach.fresh monitor_step.watches])
  moreover have "monitor_step ex_be ?s (snd ex_deep)"
    by (rule monitor_step.turns[where r = "fst ex_deep"], unfold ex_deep_def prod.collapse) (rule refl)
  ultimately have reach: "monitor_reach ex_be (snd ex_deep)" by (rule monitor_reach.step)
  have "list_ex (\<lambda>x. case x of EPaymentConfirmed _ \<Rightarrow> True | _ \<Rightarrow> False) (cm_events (snd ex_deep))" by code_simp
  then obtain x where "x \<in> set (cm_events (snd ex_deep))" "case x of EPaymentConfirmed _ \<Rightarrow> True | _ \<Rightarrow> False"
    by (auto simp: list_ex_iff)
  then obtain c where c: "EPaymentConfirmed c \<in> set (cm_events (snd ex_deep))"
    by (cases rule: MonitorEvent.exhaust[of x]) auto
  show ?thesis using confirmations_are_backed[OF reach c] c by blast
qed

section \<open>A replaced block\<close>

definition ex_replaced :: "(EvmError + unit) \<times> chain_monitor" where
  "ex_replaced = process_block ex_be ex_head (ex_monitor\<lparr>cm_last_block := Some 11, cm_last_hash := Some 99\<rparr>)"


end
