(* ===== verification/Monitor_Server.thy ===== *)
theory Monitor_Server
  imports Chain_Confirm Reorg
begin

text \<open>
  The monitor and the server together.  When the chain reorganises, the monitor tells the server which
  transactions are still there, and the server retracts what it cannot find in that list: the scan of the
  one is what keeps the other from retracting a payment that is still on the chain.
\<close>

text \<open>The transactions of a block that pay a watched address.\<close>

definition on_chain :: "chain_monitor \<Rightarrow> u64 \<Rightarrow> b256 set" where
  "on_chain m k = {txn_hash x |x i. (i, x) \<in> natives_in m k}
     \<union> {h. \<exists>i l. (i, l) \<in> tokens_in m k \<and> log_tx_hash l = Some h}"

lemma survivor_reads_events [steps_intros]:
  "steps (same cm_events) (survived_natives as ks)" "steps (same cm_events) (survived_logs as rs)"
  unfolding source_defs
  by (induction ks, auto intro: steps_intros simp: source_defs) (induction rs, auto intro: steps_intros simp: source_defs)

lemma survivor_events: "steps (same cm_events) (find_survived_tx_hashes a b)"
  unfolding find_survived_tx_hashes_def Let_def by (intro steps_intros)

lemma reorg_report:
  assumes run: "handle_reorg f old n m = (Inr (), m')"
    and ev: "cm_events m' = cm_events m @ [EReorgDetected ev]"
  shows "\<exists>u. find_survived_tx_hashes f (bn_number n) m = (Inr (rd_survived ev, rd_verifiable ev), u)"
proof -
  obtain hs v u where u: "find_survived_tx_hashes f (bn_number n) m = (Inr (hs, v), u)"
    using run by (auto simp: handle_reorg_def bindP_def getP_def split: prod.splits sum.splits)
  have "cm_events u = cm_events m"
    using stepsD[OF survivor_events u] by (simp add: same_def)
  then have "rd_survived ev = hs" "rd_verifiable ev = v"
    using run ev u by (auto simp: handle_reorg_def bindP_def getP_def broadcast_def)
  then show ?thesis using u by blast
qed


text \<open>The example's payment was found in block 10; the reorganisation moved its transaction to block 11.\<close>

definition ex_moved :: "(EvmError + unit) \<times> chain_monitor" where
  "ex_moved = handle_reorg 10 99 ex_head ex_monitor"

definition ex_report :: ReorgDetected where
  "ex_report =
     \<lparr> rd_chain = 1, rd_fork_block = 10, rd_old_hash = 99, rd_new_hash = 112, rd_depth = 3, rd_affected = [],
       rd_survived = [77, 78], rd_verifiable = True, rd_detected_at = 0 \<rparr>"


end
