(* ===== verification/Outbox_Drain.thy ===== *)
theory Outbox_Drain
  imports Outcomes Lifecycle Example
begin

text \<open>
  The webhook outbox drain (\<^verbatim>\<open>server/src/services/webhook_outbox_drain.rs\<close>).  A payment is stored together
  with the promise of a webhook; this service turns promises into queued deliveries.  One pass claims
  a batch, so that two instances do not work on the same promise, and settles each: it queues the
  notification, or finds that none is to be sent, and marks the promise dispatched, or it leaves the
  promise for a later pass.  The timer loop repeats \<^verbatim>\<open>drain_once\<close>.
\<close>

section \<open>Configuration\<close>

record WebhookOutboxDrainConfig =
  poll_interval_secs :: u64
  batch_size :: int
  claim_visibility_secs :: u64

definition drain_config_default :: WebhookOutboxDrainConfig where
  "drain_config_default = \<lparr> poll_interval_secs = 5, batch_size = 100, claim_visibility_secs = 30 \<rparr>"

definition drain_config_from_env :: "(string \<Rightarrow> string option) \<Rightarrow> WebhookOutboxDrainConfig" where
  "drain_config_from_env var =
     \<lparr> poll_interval_secs = env_u64 var ''WEBHOOK_OUTBOX_DRAIN_INTERVAL_SECS'' 5,
       batch_size = (case Option.bind (var ''WEBHOOK_OUTBOX_DRAIN_BATCH_SIZE'') parse_i64 of
                       Some n \<Rightarrow> n | None \<Rightarrow> 100),
       claim_visibility_secs = env_u64 var ''WEBHOOK_OUTBOX_CLAIM_VISIBILITY_SECS'' 30 \<rparr>"

section \<open>One pass\<close>

datatype 'a Lookup = Found 'a | GiveUp | Retry

definition parse_event_type :: "env \<Rightarrow> string \<Rightarrow> WebhookEventType option" where
  "parse_event_type E s = event_parse E s"

definition load_invoice :: "env \<Rightarrow> WebhookObligation \<Rightarrow> ('e, world, InvoiceData Lookup) prog" where
  "load_invoice E ob =
     bindP (tryP (invoice_get E (ob_invoice ob))) (\<lambda>r.
       okP (case r of Inr (Some d) \<Rightarrow> Found d | Inr None \<Rightarrow> GiveUp | Inl _ \<Rightarrow> Retry))"

definition load_payment :: "env \<Rightarrow> WebhookObligation \<Rightarrow> ('e, world, PaymentData Lookup) prog" where
  "load_payment E ob =
     bindP (tryP (payment_get E (ob_payment ob))) (\<lambda>r.
       okP (case r of Inr (Some p) \<Rightarrow> Found p | Inr None \<Rightarrow> GiveUp | Inl _ \<Rightarrow> Retry))"

definition load_obligation_subject ::
    "env \<Rightarrow> WebhookObligation \<Rightarrow> ('e, world, (InvoiceData \<times> PaymentData) Lookup) prog" where
  "load_obligation_subject E ob =
     bindP (load_invoice E ob) (\<lambda>li.
     case li of
       GiveUp \<Rightarrow> okP GiveUp
     | Retry \<Rightarrow> okP Retry
     | Found d \<Rightarrow>
        bindP (load_payment E ob) (\<lambda>lp.
        case lp of
          GiveUp \<Rightarrow> okP GiveUp
        | Retry \<Rightarrow> okP Retry
        | Found p \<Rightarrow> if pay_reorged p then okP GiveUp else okP (Found (d, p))))"

definition mark_dispatched :: "uuid \<Rightarrow> ('e, world, unit) prog" where
  "mark_dispatched i = bindP (tryP (mark_obligation_dispatched i)) (\<lambda>_. okP ())"

definition dispatch_obligation :: "env \<Rightarrow> WebhookObligation \<Rightarrow> ('e, world, unit) prog" where
  "dispatch_obligation E ob =
     (case parse_event_type E (ob_event ob) of
        None \<Rightarrow> mark_dispatched (ob_id ob)
      | Some ev \<Rightarrow>
         bindP (load_obligation_subject E ob) (\<lambda>l.
         case l of
           GiveUp \<Rightarrow> mark_dispatched (ob_id ob)
         | Retry \<Rightarrow> okP ()
         | Found (d, p) \<Rightarrow>
             bindP (queue_for_store E (inv_store d) (Payment_event ev d p)) (\<lambda>q.
             case q of
               Queued \<Rightarrow> mark_dispatched (ob_id ob)
             | Skipped \<Rightarrow> mark_dispatched (ob_id ob)
             | Failed \<Rightarrow> okP ())))"

definition drain_once :: "env \<Rightarrow> WebhookOutboxDrainConfig \<Rightarrow> ('e, world, unit) prog" where
  "drain_once E cfg =
     bindP (tryP (claim_undispatched_obligations (batch_size cfg) (sint (claim_visibility_secs cfg)))) (\<lambda>r.
       case r of Inl _ \<Rightarrow> okP () | Inr obs \<Rightarrow> iterP (dispatch_obligation E) obs)"

section \<open>What a promise is due\<close>

text \<open>The invoice and payment a promise is about, as the tables show them: nothing when either row
  is gone, or the payment has been retracted.\<close>

definition promise_subject :: "env \<Rightarrow> world \<Rightarrow> WebhookObligation \<Rightarrow> (InvoiceData \<times> PaymentData) option" where
  "promise_subject E s ob =
     (case (find (\<lambda>r. inv_id r = ob_invoice ob) (invoices s), find (\<lambda>r. pay_id r = ob_payment ob) (payments s)) of
        (Some i, Some p) \<Rightarrow>
           if pay_reorged p then None
           else (case try_row_to_invoice E i of
                   Inr d \<Rightarrow> Some (d, try_row_to_payment E p) | Inl _ \<Rightarrow> None)
      | _ \<Rightarrow> None)"

text \<open>The notification a promise stands for, if one is due.\<close>

definition promised :: "env \<Rightarrow> world \<Rightarrow> WebhookObligation \<Rightarrow> (uuid \<times> WebhookPayload) option" where
  "promised E s ob =
     (case (parse_event_type E (ob_event ob), promise_subject E s ob) of
        (Some ev, Some (d, p)) \<Rightarrow> Some (inv_store d, Payment_event ev d p)
      | _ \<Rightarrow> None)"

text \<open>The store's preferences switch the event off.\<close>

definition muted :: "world \<Rightarrow> uuid \<Rightarrow> string \<Rightarrow> bool" where
  "muted s st key =
     (case map_of (store_prefs s) st of
        Some prefs \<Rightarrow> (case json_get prefs key of
           Some p \<Rightarrow> json_get p ''webhook'' = Some (JBool False) | None \<Rightarrow> False)
      | None \<Rightarrow> False)"

definition endpoint :: "world \<Rightarrow> uuid \<Rightarrow> StoreWebhook option" where
  "endpoint s st = find (\<lambda>w. sw_store w = st \<and> sw_enabled w) (store_webhooks s)"

text \<open>A queued job carries the payload to the store's endpoint.\<close>

definition job_for :: "world \<Rightarrow> uuid \<Rightarrow> WebhookPayload \<Rightarrow> WebhookJob \<Rightarrow> bool" where
  "job_for s st pl job \<longleftrightarrow> (\<exists>w. endpoint s st = Some w \<and> job_url job = sw_url w
     \<and> job_store_webhook job = sw_id w \<and> job_payload job = pl)"

text \<open>The log \<^verbatim>\<open>es\<close> settles a promise: nothing is due, the store does not want it, or it was queued.\<close>

definition settled_by :: "env \<Rightarrow> world \<Rightarrow> effect list \<Rightarrow> WebhookObligation \<Rightarrow> bool" where
  "settled_by E s es ob \<longleftrightarrow>
     (case promised E s ob of
        None \<Rightarrow> True
      | Some (st, pl) \<Rightarrow> muted s st (event_str E (payload_event pl)) \<or> endpoint s st = None
           \<or> (\<exists>job. Webhook_queued job \<in> set es \<and> job_for s st pl job))"

section \<open>Reading without a trace\<close>

text \<open>After reads the tables and the log are as before; nothing fails on a healthy database.\<close>

definition calm :: "world \<Rightarrow> world \<Rightarrow> bool" where
  "calm s t \<longleftrightarrow> tables t = tables s \<and> effects t = effects s \<and> (quiet s \<longrightarrow> quiet t)"

lemma calm_refl [simp]: "calm s s"
  by (simp add: calm_def)

lemma calm_trans: "calm s t \<Longrightarrow> calm t u \<Longrightarrow> calm s u"
  by (auto simp: calm_def)

lemma calm_sets [simp]: "calm s (s\<lparr>drawn := n\<rparr>)" "calm s (s\<lparr>faults := tl (faults s)\<rparr>)"
  by (simp_all add: calm_def quiet_def)

lemma calm_quiet: "calm s t \<Longrightarrow> quiet s \<Longrightarrow> quiet t"
  by (simp add: calm_def)

lemma promised_tables: "promised E (tables s) ob = promised E s ob"
  by (simp add: promised_def promise_subject_def tables_def)

lemma muted_tables: "muted (tables s) st key = muted s st key"
  by (simp add: muted_def tables_def)

lemma endpoint_tables: "endpoint (tables s) st = endpoint s st"
  by (simp add: endpoint_def tables_def)

lemma promise_subject_tables: "promise_subject E (tables s) ob = promise_subject E s ob"
  by (simp add: promise_subject_def tables_def)

lemma read_same:
  assumes "tables t = tables s"
  shows "promised E t ob = promised E s ob" "muted t st key = muted s st key" "endpoint t st = endpoint s st"
    "promise_subject E t ob = promise_subject E s ob" "job_for t st pl job = job_for s st pl job"
    "settled_by E t es ob = settled_by E s es ob" "now t = now s" "webhook_outbox t = webhook_outbox s"
proof -
  show p: "promised E t ob = promised E s ob" for ob using assms promised_tables by metis
  show m: "muted t st key = muted s st key" for st key using assms muted_tables by metis
  show e: "endpoint t st = endpoint s st" for st using assms endpoint_tables by metis
  show "promise_subject E t ob = promise_subject E s ob" using assms promise_subject_tables by metis
  show j: "job_for t st pl job = job_for s st pl job" for st pl job by (simp add: job_for_def e)
  show "settled_by E t es ob = settled_by E s es ob" by (simp add: settled_by_def p m e j split: option.split)
  show "now t = now s" "webhook_outbox t = webhook_outbox s" using tables_sel[OF assms] by simp_all
qed

lemma calm_tables: "calm s t \<Longrightarrow> tables t = tables s"
  by (simp add: calm_def)

lemmas calm_same = read_same[OF calm_tables]

lemma wp_calm_call:
  assumes "\<And>t. calm s t \<Longrightarrow> \<not> quiet s \<Longrightarrow> Q (Inl RDatabase) t" "\<And>t. calm s t \<Longrightarrow> wp m Q t"
  shows "wp (db_call m) Q s"
proof (cases "faults s")
  case Nil
  with assms(2)[of s] show ?thesis by (simp add: wp_def db_call_def)
next
  case (Cons f fs)
  have c: "calm s (s\<lparr>faults := fs\<rparr>)" using calm_sets(2)[of s] Cons by simp
  show ?thesis using assms(1)[OF c] assms(2)[OF c] Cons by (auto simp: wp_def db_call_def quiet_def)
qed

lemma wp_calm_read:
  assumes "\<And>t. calm s t \<Longrightarrow> \<not> quiet s \<Longrightarrow> Q (Inl RDatabase) t" "\<And>t. calm s t \<Longrightarrow> Q (g t) t"
  shows "wp (db_call (\<lambda>s. (g s, s))) Q s"
  using assms by (intro wp_calm_call) (simp_all add: wp_def)

section \<open>Queueing for a store\<close>

lemma wp_suppressed:
  assumes "\<And>t b. calm s t \<Longrightarrow> (b \<Longrightarrow> muted s st key) \<Longrightarrow> Q (Inr b) t"
  shows "wp (suppressed_by_prefs st key) Q s"
  unfolding suppressed_by_prefs_def get_store_settings_def wp_bind wp_try
proof (rule wp_calm_read)
  fix t assume t: "calm s t"
  then have m: "muted t st key = muted s st key" by (rule calm_same)
  show "case Inr (Inl RDatabase) of Inl e \<Rightarrow> Q (Inl e) t | Inr x \<Rightarrow> wp (okP (case x of
      Inl _ \<Rightarrow> False | Inr None \<Rightarrow> False | Inr (Some prefs) \<Rightarrow> (case json_get prefs key of None \<Rightarrow> False
        | Some p \<Rightarrow> json_get p ''webhook'' = Some (JBool False)))) Q t"
    using assms[OF t, of False] by (simp add: wp_simps)
  show "case Inr (Inr (map_of (store_prefs t) st)) of Inl e \<Rightarrow> Q (Inl e) t | Inr x \<Rightarrow> wp (okP (case x of
      Inl _ \<Rightarrow> False | Inr None \<Rightarrow> False | Inr (Some prefs) \<Rightarrow> (case json_get prefs key of None \<Rightarrow> False
        | Some p \<Rightarrow> json_get p ''webhook'' = Some (JBool False)))) Q t"
    using assms[OF t, of "muted t st key"] m by (simp add: wp_simps muted_def split: option.splits)
qed

lemma wp_endpoint:
  assumes "\<And>t. calm s t \<Longrightarrow> \<not> quiet s \<Longrightarrow> Q (Inl RDatabase) t" "\<And>t. calm s t \<Longrightarrow> Q (Inr (endpoint s st)) t"
  shows "wp (get_enabled_webhook st) Q s"
  unfolding get_enabled_webhook_def
proof (rule wp_calm_read)
  fix t assume t: "calm s t"
  then have "endpoint t st = endpoint s st" by (rule calm_same)
  with assms(2)[OF t] show "Q (Inr (find (\<lambda>w. sw_store w = st \<and> sw_enabled w) (store_webhooks t))) t"
    by (simp add: endpoint_def)
qed (rule assms(1))

lemma wp_job_new:
  assumes "\<And>t job. calm s t \<Longrightarrow> job_url job = sw_url cfg \<Longrightarrow> job_store_webhook job = sw_id cfg \<Longrightarrow>
    job_payload job = pl \<Longrightarrow> Q (Inr job) t"
  shows "wp (job_new cfg pl) Q s"
  by (simp add: job_new_def wp_simps wp_def[of new_v4] new_v4_def assms)

lemma wp_sink:
  assumes "\<And>t. calm s t \<Longrightarrow> \<not> quiet s \<Longrightarrow> Q (Inl RDatabase) t"
    and "\<And>t. tables t = tables s \<Longrightarrow> effects t = effects s @ [Webhook_queued job] \<Longrightarrow>
      (quiet s \<Longrightarrow> quiet t) \<Longrightarrow> Q (Inr ()) t"
  shows "wp (sink_queue job) Q s"
  unfolding sink_queue_def
  by (rule wp_calm_call) (auto simp: emit_def wp_simps calm_def quiet_def intro!: assms)

lemma wp_queue_for_store:
  assumes failed: "\<And>t. calm s t \<Longrightarrow> \<not> quiet s \<Longrightarrow> Q (Inr Failed) t"
    and skipped: "\<And>t. calm s t \<Longrightarrow> muted s st (event_str E (payload_event pl)) \<or> endpoint s st = None \<Longrightarrow>
      Q (Inr Skipped) t"
    and queued: "\<And>t job. tables t = tables s \<Longrightarrow> effects t = effects s @ [Webhook_queued job] \<Longrightarrow>
      (quiet s \<Longrightarrow> quiet t) \<Longrightarrow> job_for s st pl job \<Longrightarrow> Q (Inr Queued) t"
  shows "wp (queue_for_store E st pl) Q s"
  unfolding queue_for_store_def wp_bind
proof (rule wp_suppressed)
  fix t b assume t: "calm s t" and b: "b \<Longrightarrow> muted s st (event_str E (payload_event pl))"
  have e: "endpoint t st = endpoint s st" using t by (rule calm_same)
  have fail: "calm t u \<Longrightarrow> \<not> quiet t \<Longrightarrow> Q (Inr Failed) u" for u
    using t failed by (metis calm_trans calm_quiet)
  have job: "Q (Inr Queued) v"
    if "endpoint s st = Some cfg" "calm t u" "tables v = tables u" "effects v = effects u @ [Webhook_queued job]"
      "quiet u \<Longrightarrow> quiet v" "job_url job = sw_url cfg" "job_store_webhook job = sw_id cfg" "job_payload job = pl"
    for u v cfg and job :: WebhookJob
    using that t by (intro queued[of v job]) (auto simp: calm_def job_for_def)
  show "case Inr b of Inl e \<Rightarrow> Q (Inl e) t | Inr off \<Rightarrow> wp (if off then okP Skipped
      else bindP (tryP (get_enabled_webhook st)) (\<lambda>r. case r of Inl _ \<Rightarrow> okP Failed | Inr None \<Rightarrow> okP Skipped
        | Inr (Some cfg) \<Rightarrow> bindP (job_new cfg pl) (\<lambda>job. bindP (tryP (sink_queue job))
            (\<lambda>q. okP (case q of Inl _ \<Rightarrow> Failed | Inr _ \<Rightarrow> Queued))))) Q t"
  proof (cases b)
    case True
    with b skipped[OF t] show ?thesis by (simp add: wp_simps)
  next
    case False
    have "wp (bindP (tryP (get_enabled_webhook st)) (\<lambda>r. case r of Inl _ \<Rightarrow> okP Failed | Inr None \<Rightarrow> okP Skipped
        | Inr (Some cfg) \<Rightarrow> bindP (job_new cfg pl) (\<lambda>job. bindP (tryP (sink_queue job))
            (\<lambda>q. okP (case q of Inl _ \<Rightarrow> Failed | Inr _ \<Rightarrow> Queued))))) Q t"
      unfolding wp_bind wp_try
    proof (rule wp_endpoint)
      fix u assume u: "calm t u"
      show "case Inr (Inr (endpoint t st)) of Inl e \<Rightarrow> Q (Inl e) u | Inr x \<Rightarrow> wp (case x of Inl _ \<Rightarrow> okP Failed
          | Inr None \<Rightarrow> okP Skipped | Inr (Some cfg) \<Rightarrow> bindP (job_new cfg pl) (\<lambda>job. bindP (tryP (sink_queue job))
            (\<lambda>q. okP (case q of Inl _ \<Rightarrow> Failed | Inr _ \<Rightarrow> Queued)))) Q u"
      proof (cases "endpoint s st")
        case None
        then show ?thesis using e skipped[OF calm_trans[OF t u]] by (simp add: wp_simps)
      next
        case (Some cfg)
        have "wp (bindP (job_new cfg pl) (\<lambda>job. bindP (tryP (sink_queue job))
            (\<lambda>q. okP (case q of Inl _ \<Rightarrow> Failed | Inr _ \<Rightarrow> Queued)))) Q u"
          unfolding wp_bind wp_try
        proof (rule wp_job_new)
          fix v and job :: WebhookJob
          assume v: "calm u v" "job_url job = sw_url cfg" "job_store_webhook job = sw_id cfg" "job_payload job = pl"
          have fail': "calm v w \<Longrightarrow> \<not> quiet v \<Longrightarrow> Q (Inr Failed) w" for w
            using fail u v(1) by (metis calm_trans calm_quiet)
          show "case Inr job of Inl e \<Rightarrow> Q (Inl e) v | Inr x \<Rightarrow> wp (sink_queue x) (\<lambda>r t. case Inr r of
              Inl e \<Rightarrow> Q (Inl e) t | Inr x \<Rightarrow> wp (okP (case x of Inl _ \<Rightarrow> Failed | Inr _ \<Rightarrow> Queued)) Q t) v"
            using fail' job[OF Some calm_trans[OF u v(1)] _ _ _ v(2-4)] by (auto simp: wp_simps intro!: wp_sink)
        qed
        then show ?thesis using e Some by simp
      qed
    qed (simp add: wp_simps fail)
    with False show ?thesis by simp
  qed
qed

section \<open>Settling one promise\<close>

lemma try_row_to_invoice_total: "\<exists>d. try_row_to_invoice E r = Inr d"
  by (simp add: try_row_to_invoice_def status_column)

lemma wp_load_invoice:
  assumes "\<And>t. calm s t \<Longrightarrow> \<not> quiet s \<Longrightarrow> Q (Inr Retry) t"
    and "\<And>t. calm s t \<Longrightarrow> find (\<lambda>r. inv_id r = ob_invoice ob) (invoices s) = None \<Longrightarrow> Q (Inr GiveUp) t"
    and "\<And>t i d. calm s t \<Longrightarrow> find (\<lambda>r. inv_id r = ob_invoice ob) (invoices s) = Some i \<Longrightarrow>
      try_row_to_invoice E i = Inr d \<Longrightarrow> Q (Inr (Found d)) t"
  shows "wp (load_invoice E ob) Q s"
  unfolding load_invoice_def invoice_get_def wp_bind wp_try
proof (rule wp_calm_read)
  fix t assume t: "calm s t"
  have inv: "invoices t = invoices s" using tables_sel[OF calm_tables[OF t]] by simp
  show "\<not> quiet s \<Longrightarrow> case Inr (Inl RDatabase) of Inl e \<Rightarrow> Q (Inl e) t | Inr x \<Rightarrow>
      wp (okP (case x of Inl _ \<Rightarrow> Retry | Inr None \<Rightarrow> GiveUp | Inr (Some d) \<Rightarrow> Found d)) Q t"
    using assms(1)[OF t] by (simp add: wp_simps)
  let ?r = "case find (\<lambda>r. inv_id r = ob_invoice ob) (invoices t) of None \<Rightarrow> Inr None
       | Some r \<Rightarrow> map_sum id Some (try_row_to_invoice E r)"
  show "case Inr ?r of Inl e \<Rightarrow> Q (Inl e) t | Inr x \<Rightarrow>
      wp (okP (case x of Inl _ \<Rightarrow> Retry | Inr None \<Rightarrow> GiveUp | Inr (Some d) \<Rightarrow> Found d)) Q t"
  proof (cases "find (\<lambda>r. inv_id r = ob_invoice ob) (invoices s)")
    case None
    then show ?thesis using assms(2)[OF t] inv by (simp add: wp_simps)
  next
    case (Some i)
    obtain d where "try_row_to_invoice E i = Inr d" using try_row_to_invoice_total by blast
    then show ?thesis using assms(3)[OF t Some] inv Some by (simp add: wp_simps)
  qed
qed

lemma wp_load_payment:
  assumes "\<And>t. calm s t \<Longrightarrow> \<not> quiet s \<Longrightarrow> Q (Inr Retry) t"
    and "\<And>t. calm s t \<Longrightarrow> find (\<lambda>r. pay_id r = ob_payment ob) (payments s) = None \<Longrightarrow> Q (Inr GiveUp) t"
    and "\<And>t p. calm s t \<Longrightarrow> find (\<lambda>r. pay_id r = ob_payment ob) (payments s) = Some p \<Longrightarrow>
      Q (Inr (Found (try_row_to_payment E p))) t"
  shows "wp (load_payment E ob) Q s"
  unfolding load_payment_def payment_get_def wp_bind wp_try
proof (rule wp_calm_read)
  fix t assume t: "calm s t"
  have pay: "payments t = payments s" using tables_sel[OF calm_tables[OF t]] by simp
  show "\<not> quiet s \<Longrightarrow> case Inr (Inl RDatabase) of Inl e \<Rightarrow> Q (Inl e) t | Inr x \<Rightarrow>
      wp (okP (case x of Inl _ \<Rightarrow> Retry | Inr None \<Rightarrow> GiveUp | Inr (Some p) \<Rightarrow> Found p)) Q t"
    using assms(1)[OF t] by (simp add: wp_simps)
  show "case Inr (Inr (map_option (try_row_to_payment E) (find (\<lambda>r. pay_id r = ob_payment ob) (payments t)))) of
      Inl e \<Rightarrow> Q (Inl e) t | Inr x \<Rightarrow>
      wp (okP (case x of Inl _ \<Rightarrow> Retry | Inr None \<Rightarrow> GiveUp | Inr (Some p) \<Rightarrow> Found p)) Q t"
    using assms(2,3)[OF t] pay
    by (cases "find (\<lambda>r. pay_id r = ob_payment ob) (payments s)") (simp_all add: wp_simps)
qed

lemma wp_subject:
  assumes retry: "\<And>t. calm s t \<Longrightarrow> \<not> quiet s \<Longrightarrow> Q (Inr Retry) t"
    and gone: "\<And>t. calm s t \<Longrightarrow> promise_subject E s ob = None \<Longrightarrow> Q (Inr GiveUp) t"
    and found: "\<And>t d p. calm s t \<Longrightarrow> promise_subject E s ob = Some (d, p) \<Longrightarrow> Q (Inr (Found (d, p))) t"
  shows "wp (load_obligation_subject E ob) Q s"
  unfolding load_obligation_subject_def wp_bind
proof (rule wp_load_invoice)
  fix t i d
  assume t: "calm s t" and i: "find (\<lambda>r. inv_id r = ob_invoice ob) (invoices s) = Some i"
    and d: "try_row_to_invoice E i = Inr d"
  have pay: "payments t = payments s" using tables_sel[OF calm_tables[OF t]] by simp
  have "wp (load_payment E ob) (\<lambda>r u. case r of Inl e \<Rightarrow> Q (Inl e) u | Inr lp \<Rightarrow> wp (case lp of
      Found p \<Rightarrow> if pay_reorged p then okP GiveUp else okP (Found (d, p)) | GiveUp \<Rightarrow> okP GiveUp | Retry \<Rightarrow> okP Retry) Q u) t"
  proof (rule wp_load_payment)
    fix u p assume u: "calm t u" and p: "find (\<lambda>r. pay_id r = ob_payment ob) (payments t) = Some p"
    have r: "pay_reorged (try_row_to_payment E p) = pay_reorged p" by (simp add: try_row_to_payment_def)
    show "case Inr (Found (try_row_to_payment E p)) of Inl e \<Rightarrow> Q (Inl e) u | Inr lp \<Rightarrow> wp (case lp of
      Found p \<Rightarrow> if pay_reorged p then okP GiveUp else okP (Found (d, p)) | GiveUp \<Rightarrow> okP GiveUp | Retry \<Rightarrow> okP Retry) Q u"
      using gone[OF calm_trans[OF t u]] found[OF calm_trans[OF t u], of d "try_row_to_payment E p"] i d p pay r
      by (simp add: promise_subject_def wp_simps)
  next
    fix u assume u: "calm t u" "find (\<lambda>r. pay_id r = ob_payment ob) (payments t) = None"
    then show "case Inr GiveUp of Inl e \<Rightarrow> Q (Inl e) u | Inr lp \<Rightarrow> wp (case lp of
      Found p \<Rightarrow> if pay_reorged p then okP GiveUp else okP (Found (d, p)) | GiveUp \<Rightarrow> okP GiveUp | Retry \<Rightarrow> okP Retry) Q u"
      using gone[OF calm_trans[OF t u(1)]] i pay by (simp add: promise_subject_def wp_simps)
  next
    fix u assume u: "calm t u" "\<not> quiet t"
    then show "case Inr Retry of Inl e \<Rightarrow> Q (Inl e) u | Inr lp \<Rightarrow> wp (case lp of
      Found p \<Rightarrow> if pay_reorged p then okP GiveUp else okP (Found (d, p)) | GiveUp \<Rightarrow> okP GiveUp | Retry \<Rightarrow> okP Retry) Q u"
      using retry[OF calm_trans[OF t u(1)]] calm_quiet[OF t] by (auto simp: wp_simps)
  qed
  then show "case Inr (Found d) of Inl e \<Rightarrow> Q (Inl e) t | Inr li \<Rightarrow> wp (case li of
      Found d \<Rightarrow> bindP (load_payment E ob) (\<lambda>lp. case lp of
        Found p \<Rightarrow> if pay_reorged p then okP GiveUp else okP (Found (d, p)) | GiveUp \<Rightarrow> okP GiveUp | Retry \<Rightarrow> okP Retry)
      | GiveUp \<Rightarrow> okP GiveUp | Retry \<Rightarrow> okP Retry) Q t"
    by (simp add: wp_bind)
qed (simp_all add: wp_simps retry gone promise_subject_def)

text \<open>Marking rows dispatched.\<close>

definition stamp :: "timestamp \<Rightarrow> uuid set \<Rightarrow> obligation_row list \<Rightarrow> obligation_row list" where
  "stamp tm D rows = map (\<lambda>r. if ob_id r \<in> D then r\<lparr>ob_dispatched_at := Some tm\<rparr> else r) rows"

lemma stamp_empty [simp]: "stamp tm {} rows = rows"
  by (simp add: stamp_def)

lemma stamp_stamp: "stamp tm D (stamp tm D' rows) = stamp tm (D \<union> D') rows"
  by (simp add: stamp_def)

definition stamped :: "world \<Rightarrow> uuid set \<Rightarrow> world \<Rightarrow> bool" where
  "stamped s D t \<longleftrightarrow> tables t = tables (s\<lparr>webhook_outbox := stamp (now s) D (webhook_outbox s)\<rparr>)"

lemma stamped_empty [simp]: "stamped s {} t \<longleftrightarrow> tables t = tables s"
  by (simp add: stamped_def)

lemma stamped_rows: "stamped s D t \<Longrightarrow> webhook_outbox t = stamp (now s) D (webhook_outbox s) \<and> now t = now s"
  unfolding stamped_def by (drule tables_sel) simp

lemma outbox_reads:
  "promised E (s\<lparr>webhook_outbox := x\<rparr>) ob = promised E s ob"
  "muted (s\<lparr>webhook_outbox := x\<rparr>) st key = muted s st key"
  "endpoint (s\<lparr>webhook_outbox := x\<rparr>) st = endpoint s st"
  "job_for (s\<lparr>webhook_outbox := x\<rparr>) st pl job = job_for s st pl job"
  by (simp_all add: promised_def promise_subject_def muted_def endpoint_def job_for_def)

lemma stamped_reads:
  assumes "stamped s D t"
  shows "promised E t ob = promised E s ob" "settled_by E t es ob = settled_by E s es ob"
    "job_for t st pl job = job_for s st pl job"
proof -
  note same = read_same[OF assms[unfolded stamped_def]]
  show "promised E t ob = promised E s ob" "settled_by E t es ob = settled_by E s es ob"
    "job_for t st pl job = job_for s st pl job"
    unfolding same by (simp_all add: settled_by_def outbox_reads split: option.split)
qed

lemma tables_outbox: "tables (s\<lparr>webhook_outbox := x\<rparr>) = (tables s)\<lparr>webhook_outbox := x\<rparr>"
  by (simp add: tables_def)

lemma stamped_trans:
  assumes "stamped s D t" "stamped t D' u" shows "stamped s (D \<union> D') u"
  using assms stamped_rows[OF assms(1)]
  by (auto simp: stamped_def tables_outbox stamp_stamp Un_commute)

lemma wp_mark_dispatched:
  assumes "\<And>t. calm s t \<Longrightarrow> \<not> quiet s \<Longrightarrow> Q (Inr ()) t"
    and "\<And>t. stamped s {i} t \<Longrightarrow> effects t = effects s \<Longrightarrow> (quiet s \<Longrightarrow> quiet t) \<Longrightarrow> Q (Inr ()) t"
  shows "wp (mark_dispatched i) Q s"
  unfolding mark_dispatched_def mark_obligation_dispatched_def wp_bind wp_try
proof (rule wp_calm_call)
  fix t assume t: "calm s t"
  note same = calm_same[OF t]
  have "stamped s {i} (t\<lparr>webhook_outbox := update_where (\<lambda>r. ob_id r = i)
      (\<lambda>r. r\<lparr>ob_dispatched_at := Some (now t)\<rparr>) (webhook_outbox t)\<rparr>)"
    using calm_tables[OF t] same(7,8) by (simp add: stamped_def tables_outbox stamp_def update_where_def)
  then show "wp (\<lambda>s. (Inr (), s\<lparr>webhook_outbox := update_where (\<lambda>r. ob_id r = i)
      (\<lambda>r. r\<lparr>ob_dispatched_at := Some (now s)\<rparr>) (webhook_outbox s)\<rparr>))
      (\<lambda>r t. case Inr r of Inl e \<Rightarrow> Q (Inl e) t | Inr x \<Rightarrow> wp (okP ()) Q t) t"
    using t by (auto simp: wp_def[of "\<lambda>s. (Inr (), _ s)"] wp_simps calm_def quiet_def intro!: assms(2))
qed (simp add: wp_simps assms(1))

text \<open>Every logged effect is a job for a promise that is due.\<close>

definition due :: "env \<Rightarrow> world \<Rightarrow> WebhookObligation \<Rightarrow> effect \<Rightarrow> bool" where
  "due E s ob e \<longleftrightarrow> (\<exists>st pl job. e = Webhook_queued job \<and> promised E s ob = Some (st, pl) \<and> job_for s st pl job)"

definition settles :: "env \<Rightarrow> world \<Rightarrow> WebhookObligation list \<Rightarrow> world \<Rightarrow> bool" where
  "settles E s obs t \<longleftrightarrow> (\<exists>es D. effects t = effects s @ es \<and> stamped s D t \<and> D \<subseteq> ob_id ` set obs
     \<and> (\<forall>e \<in> set es. \<exists>ob \<in> set obs. due E s ob e)
     \<and> (\<forall>ob \<in> set obs. ob_id ob \<in> D \<longrightarrow> settled_by E s es ob)
     \<and> (quiet s \<longrightarrow> quiet t \<and> D = ob_id ` set obs))"

lemma settles_marked:
  assumes "effects u = effects s @ es" "tables u = tables s" "quiet s \<Longrightarrow> quiet u"
    "\<forall>e \<in> set es. due E s ob e" "settled_by E s es ob"
  shows "wp (mark_dispatched (ob_id ob)) (\<lambda>r t. r = Inr () \<and> settles E s [ob] t) u"
proof (rule wp_mark_dispatched)
  fix t assume "calm u t" "\<not> quiet u"
  then show "Inr () = Inr () \<and> settles E s [ob] t"
    using assms by (auto simp: settles_def calm_def intro!: exI[of _ es] exI[of _ "{}"])
next
  fix t assume t: "stamped u {ob_id ob} t" "effects t = effects u" "quiet u \<Longrightarrow> quiet t"
  have "stamped s {ob_id ob} t" using stamped_trans[of s "{}" u "{ob_id ob}" t] t(1) assms(2) by simp
  then show "Inr () = Inr () \<and> settles E s [ob] t"
    using assms t by (auto simp: settles_def intro!: exI[of _ es] exI[of _ "{ob_id ob}"])
qed

lemma settles_left:
  assumes "calm s t" "\<not> quiet s" shows "settles E s [ob] t"
  using assms by (auto simp: settles_def calm_def intro!: exI[of _ "[]"] exI[of _ "{}"])

lemma dispatch_settles: "wp (dispatch_obligation E ob) (\<lambda>r t. r = Inr () \<and> settles E s [ob] t) s"
proof (cases "parse_event_type E (ob_event ob)")
  case None
  then have "settled_by E s [] ob" by (simp add: settled_by_def promised_def)
  then show ?thesis using settles_marked[of s s "[]"] None by (simp add: dispatch_obligation_def)
next
  case (Some ev)
  have gone: "settled_by E s [] ob" if "promise_subject E s ob = None"
    using that Some by (simp add: settled_by_def promised_def)
  have prom: "promised E s ob = Some (inv_store d, Payment_event ev d p)" if "promise_subject E s ob = Some (d, p)" for d p
    using that Some by (simp add: promised_def)
  let ?Q = "\<lambda>r t. r = Inr () \<and> settles E s [ob] t"
  let ?next = "\<lambda>q. case q of Queued \<Rightarrow> mark_dispatched (ob_id ob) | Skipped \<Rightarrow> mark_dispatched (ob_id ob) | Failed \<Rightarrow> okP ()"
  have queue: "wp (bindP (queue_for_store E (inv_store d) (Payment_event ev d p)) ?next) ?Q t"
    if t: "calm s t" and sub: "promise_subject E s ob = Some (d, p)" for t d p
    unfolding wp_bind
  proof (rule wp_queue_for_store)
    fix u assume "calm t u" "\<not> quiet t"
    then show "case Inr Failed of Inl e \<Rightarrow> ?Q (Inl e) u | Inr q \<Rightarrow> wp (?next q) ?Q u"
      using t by (auto simp: wp_simps intro!: settles_left dest: calm_trans calm_quiet)
  next
    fix u assume u: "calm t u" "muted t (inv_store d) (event_str E (payload_event (Payment_event ev d p))) \<or> endpoint t (inv_store d) = None"
    then have "settled_by E s [] ob" using prom[OF sub] calm_same(2,3)[OF t] by (simp add: settled_by_def)
    then show "case Inr Skipped of Inl e \<Rightarrow> ?Q (Inl e) u | Inr q \<Rightarrow> wp (?next q) ?Q u"
      using calm_trans[OF t u(1)] settles_marked[of u s "[]"] by (auto simp: calm_def)
  next
    fix u and job :: WebhookJob
    assume u: "tables u = tables t" "effects u = effects t @ [Webhook_queued job]" "quiet t \<Longrightarrow> quiet u"
      "job_for t (inv_store d) (Payment_event ev d p) job"
    have job: "job_for s (inv_store d) (Payment_event ev d p) job" using u(4) calm_same(5)[OF t] by simp
    have "wp (mark_dispatched (ob_id ob)) ?Q u"
    proof (rule settles_marked[of u s "[Webhook_queued job]"])
      show "effects u = effects s @ [Webhook_queued job]" "tables u = tables s" using u t by (auto simp: calm_def)
      show "quiet s \<Longrightarrow> quiet u" using u(3) calm_quiet[OF t] by simp
      show "\<forall>e\<in>set [Webhook_queued job]. due E s ob e" using prom[OF sub] job by (simp add: due_def)
      show "settled_by E s [Webhook_queued job] ob" using prom[OF sub] job by (auto simp: settled_by_def)
    qed
    then show "case Inr Queued of Inl e \<Rightarrow> ?Q (Inl e) u | Inr q \<Rightarrow> wp (?next q) ?Q u" by simp
  qed
  have "wp (bindP (load_obligation_subject E ob) (\<lambda>l. case l of
      Found dp \<Rightarrow> (case dp of (d, p) \<Rightarrow> bindP (queue_for_store E (inv_store d) (Payment_event ev d p)) ?next)
      | GiveUp \<Rightarrow> mark_dispatched (ob_id ob) | Retry \<Rightarrow> okP ())) ?Q s"
    unfolding wp_bind[of "load_obligation_subject E ob"]
  proof (rule wp_subject)
    fix t assume t: "calm s t" and "promise_subject E s ob = None"
    then show "case Inr GiveUp of Inl e \<Rightarrow> ?Q (Inl e) t | Inr l \<Rightarrow> wp (case l of
      Found dp \<Rightarrow> (case dp of (d, p) \<Rightarrow> bindP (queue_for_store E (inv_store d) (Payment_event ev d p)) ?next)
      | GiveUp \<Rightarrow> mark_dispatched (ob_id ob) | Retry \<Rightarrow> okP ()) ?Q t"
      using settles_marked[of t s "[]"] gone by (auto simp: calm_def)
  qed (simp_all add: wp_ok queue settles_left)
  then show ?thesis using Some by (simp add: dispatch_obligation_def)
qed

section \<open>Settling a batch\<close>

lemma settled_by_mono: "settled_by E s es ob \<Longrightarrow> set es \<subseteq> set es' \<Longrightarrow> settled_by E s es' ob"
  by (auto simp: settled_by_def split: option.splits)

lemma due_stamped: "stamped s D t \<Longrightarrow> due E t ob e = due E s ob e"
  by (simp add: due_def stamped_reads)

lemma settles_Cons:
  assumes one: "settles E s [ob] u" and rest: "settles E u obs t" and dist: "ob_id ob \<notin> ob_id ` set obs"
  shows "settles E s (ob # obs) t"
proof -
  obtain es D where a: "effects u = effects s @ es" "stamped s D u" "D \<subseteq> {ob_id ob}" "\<forall>e \<in> set es. due E s ob e"
      "ob_id ob \<in> D \<Longrightarrow> settled_by E s es ob" "quiet s \<Longrightarrow> quiet u \<and> D = {ob_id ob}"
    using one by (auto simp: settles_def)
  obtain es' D' where b: "effects t = effects u @ es'" "stamped u D' t" "D' \<subseteq> ob_id ` set obs"
      "\<forall>e \<in> set es'. \<exists>ob \<in> set obs. due E u ob e" "\<forall>ob \<in> set obs. ob_id ob \<in> D' \<longrightarrow> settled_by E u es' ob"
      "quiet u \<Longrightarrow> quiet t \<and> D' = ob_id ` set obs"
    using rest by (auto simp: settles_def)
  have "effects t = effects s @ (es @ es')" using a(1) b(1) by simp
  moreover have "stamped s (D \<union> D') t" by (rule stamped_trans[OF a(2) b(2)])
  moreover have "\<forall>e \<in> set (es @ es'). \<exists>x \<in> set (ob # obs). due E s x e"
    using a(4) b(4) due_stamped[OF a(2)] by auto
  moreover have "settled_by E s (es @ es') x" if "x \<in> set (ob # obs)" "ob_id x \<in> D \<union> D'" for x
  proof (cases "ob_id x = ob_id ob")
    case True
    with that(1) dist have "x = ob" by (metis imageI set_ConsD)
    moreover have "ob_id ob \<in> D" using that(2) b(3) dist True by auto
    ultimately show ?thesis using a(5) by (auto intro: settled_by_mono)
  next
    case False
    with that a(3) dist have "x \<in> set obs" "ob_id x \<in> D'" by auto
    with b(5) have "settled_by E s es' x" using stamped_reads(2)[OF a(2)] by blast
    then show ?thesis by (rule settled_by_mono) simp
  qed
  ultimately show ?thesis using a(3,6) b(3,6) unfolding settles_def
    by (intro exI[of _ "es @ es'"] exI[of _ "D \<union> D'"]) auto
qed

lemma batch_settles:
  "distinct (map ob_id obs) \<Longrightarrow> wp (iterP (dispatch_obligation E :: _ \<Rightarrow> ('e, world, unit) prog) obs) (\<lambda>r t. r = Inr () \<and> settles E s obs t) s"
proof (induction obs arbitrary: s)
  case Nil
  then show ?case by (simp add: wp_simps settles_def)
next
  case (Cons ob obs)
  have "wp (dispatch_obligation E ob :: ('e, world, unit) prog) (\<lambda>r u. case r of Inl e \<Rightarrow> Inl e = Inr () \<and> settles E s (ob # obs) u
      | Inr x \<Rightarrow> wp (iterP (dispatch_obligation E :: _ \<Rightarrow> ('e, world, unit) prog) obs) (\<lambda>r t. r = Inr () \<and> settles E s (ob # obs) t) u) s"
  proof (rule wp_mono[OF dispatch_settles])
    fix r u assume u: "r = Inr () \<and> settles E s [ob] u"
    have "wp (iterP (dispatch_obligation E :: _ \<Rightarrow> ('e, world, unit) prog) obs) (\<lambda>r t. r = Inr () \<and> settles E s (ob # obs) t) u"
      by (rule wp_mono[OF Cons.IH]) (use Cons.prems u settles_Cons in auto)
    with u show "case r of Inl e \<Rightarrow> Inl e = Inr () \<and> settles E s (ob # obs) u
      | Inr x \<Rightarrow> wp (iterP (dispatch_obligation E :: _ \<Rightarrow> ('e, world, unit) prog) obs) (\<lambda>r t. r = Inr () \<and> settles E s (ob # obs) t) u"
      by simp
  qed
  then show ?case by (simp add: wp_bind)
qed

text \<open>The claimed world: what the first statement of a pass leaves.\<close>

definition batch :: "int \<Rightarrow> world \<Rightarrow> obligation_row list" where
  "batch n s = take (nat n) (sort_key ob_created_at (filter (claimable (now s)) (webhook_outbox s)))"

definition claimed :: "int \<Rightarrow> int \<Rightarrow> world \<Rightarrow> world" where
  "claimed n v s = s\<lparr>webhook_outbox := update_where (\<lambda>r. ob_id r \<in> ob_id ` set (batch n s))
     (\<lambda>r. r\<lparr>ob_claimed_until := Some (now s + v)\<rparr>) (webhook_outbox s)\<rparr>"

lemma set_batch: "set (batch n s) \<subseteq> set (webhook_outbox s)"
  unfolding batch_def using set_take_subset by fastforce

lemma batch_claimable: "ob \<in> set (batch n s) \<Longrightarrow> claimable (now s) ob"
  unfolding batch_def using set_take_subset by fastforce

lemma distinct_batch:
  assumes "distinct (map ob_id (webhook_outbox s))" shows "distinct (map ob_id (batch n s))"
proof -
  have "distinct (map ob_id (sort_key ob_created_at (filter (claimable (now s)) (webhook_outbox s))))"
    using assms by (simp add: distinct_map inj_on_subset[of ob_id "set (webhook_outbox s)"])
  then show ?thesis unfolding batch_def by (simp add: take_map[symmetric] distinct_take)
qed

lemma wp_claim:
  assumes "\<And>e t. calm s t \<Longrightarrow> \<not> (quiet s \<and> 0 \<le> n) \<Longrightarrow> Q (Inl e) t"
    and "\<And>t. calm (claimed n v s) t \<Longrightarrow> 0 \<le> n \<Longrightarrow> Q (Inr (map obligation_of (batch n s))) t"
  shows "wp (claim_undispatched_obligations n v) Q s"
  unfolding claim_undispatched_obligations_def Let_def
proof (rule wp_calm_call)
  fix t assume t: "calm s t"
  note same = calm_same[OF t]
  have picked: "take (nat n) (sort_key ob_created_at (filter (claimable (now t)) (webhook_outbox t))) = batch n s"
    by (simp add: batch_def same(7,8))
  have "calm (claimed n v s) (t\<lparr>webhook_outbox := update_where (\<lambda>r. ob_id r \<in> set (map ob_id (batch n s)))
     (\<lambda>r. r\<lparr>ob_claimed_until := Some (now t + v)\<rparr>) (webhook_outbox t)\<rparr>)"
    using t same(7,8) by (simp add: calm_def claimed_def tables_outbox quiet_def)
  with assms(2) assms(1)[OF t]
  show "wp (\<lambda>s. if n < 0 then (Inl RDatabase, s) else (Inr (map obligation_of (take (nat n)
        (sort_key ob_created_at (filter (claimable (now s)) (webhook_outbox s))))),
      s\<lparr>webhook_outbox := update_where (\<lambda>r. ob_id r \<in> set (map ob_id (take (nat n)
          (sort_key ob_created_at (filter (claimable (now s)) (webhook_outbox s))))))
        (\<lambda>r. r\<lparr>ob_claimed_until := Some (now s + v)\<rparr>) (webhook_outbox s)\<rparr>)) Q t"
    by (simp add: wp_def picked)
qed (simp add: assms(1))

lemma claimed_reads:
  "promised E (claimed n v s) ob = promised E s ob" "due E (claimed n v s) ob e = due E s ob e"
  "settled_by E (claimed n v s) es ob = settled_by E s es ob" "effects (claimed n v s) = effects s"
  "now (claimed n v s) = now s" "quiet (claimed n v s) = quiet s"
  by (simp_all add: claimed_def due_def settled_by_def outbox_reads quiet_def split: option.split)

lemma drain_settles:
  assumes dist: "distinct (map ob_id (webhook_outbox s))"
  shows "wp (drain_once E cfg) (\<lambda>r t. r = Inr () \<and>
     (calm s t \<and> \<not> (quiet s \<and> 0 \<le> batch_size cfg)
      \<or> (\<exists>u. calm (claimed (batch_size cfg) (sint (claim_visibility_secs cfg)) s) u \<and>
             settles E u (map obligation_of (batch (batch_size cfg) s)) t))) s"
proof -
  let ?n = "batch_size cfg" and ?v = "sint (claim_visibility_secs cfg)"
  have d: "distinct (map ob_id (map obligation_of (batch ?n s)))"
    using distinct_batch[OF dist, of ?n] by (simp add: o_def obligation_of_def)
  show ?thesis unfolding drain_once_def wp_bind wp_try
    by (rule wp_claim) (auto simp: wp_simps intro!: wp_mono[OF batch_settles[OF d]])
qed

lemma obligation_of_stamp [simp]:
  "map obligation_of (stamp tm D rows) = map obligation_of rows"
  by (simp add: stamp_def obligation_of_def)

lemma obligation_of_claimed [simp]:
  "map obligation_of (webhook_outbox (claimed n v s)) = map obligation_of (webhook_outbox s)"
  by (simp add: claimed_def update_where_def obligation_of_def)

lemma obligation_of_sel [simp]: "ob_id (obligation_of r) = ob_id r" "ob_payment (obligation_of r) = ob_payment r"
  by (simp_all add: obligation_of_def)

lemma dispatched_in:
  assumes "ob' \<in> set (stamp tm D (webhook_outbox (claimed n v s)))" "ob \<in> set (webhook_outbox s)"
    "ob_id ob' = ob_id ob" "distinct (map ob_id (webhook_outbox s))"
  shows "ob_dispatched_at ob' = (if ob_id ob \<in> D then Some tm else ob_dispatched_at ob)"
proof -
  obtain r where "r \<in> set (webhook_outbox s)" "ob_id r = ob_id ob'"
      "ob_dispatched_at ob' = (if ob_id r \<in> D then Some tm else ob_dispatched_at r)"
    using assms(1) by (auto simp: stamp_def claimed_def set_update_where image_iff split: if_splits)
  with assms show ?thesis by (metis distinct_map inj_on_def)
qed

lemma settles_world:
  assumes u: "calm (claimed n v s) u" and t: "settles E u obs t"
  obtains es D where "effects t = effects s @ es"
    "tables t = tables (s\<lparr>webhook_outbox := stamp (now s) D (webhook_outbox (claimed n v s))\<rparr>)"
    "D \<subseteq> ob_id ` set obs" "\<forall>e \<in> set es. \<exists>ob \<in> set obs. due E s ob e"
    "\<forall>ob \<in> set obs. ob_id ob \<in> D \<longrightarrow> settled_by E s es ob" "quiet s \<Longrightarrow> quiet t \<and> D = ob_id ` set obs"
proof -
  note same = calm_same[OF u] and tb = calm_tables[OF u]
  have due': "due E u ob e = due E s ob e" for ob e
    using same(1,5) claimed_reads(2)[of E n v s ob e] by (simp add: due_def)
  have set': "settled_by E u es ob = settled_by E s es ob" for es ob
    using same(6) claimed_reads(3) by simp
  obtain es D where a: "effects t = effects u @ es" "stamped u D t" "D \<subseteq> ob_id ` set obs"
      "\<forall>e \<in> set es. \<exists>ob \<in> set obs. due E u ob e" "\<forall>ob \<in> set obs. ob_id ob \<in> D \<longrightarrow> settled_by E u es ob"
      "quiet u \<longrightarrow> quiet t \<and> D = ob_id ` set obs"
    using t unfolding settles_def by blast
  have "effects t = effects s @ es" using a(1) u claimed_reads(4)[of n v s] by (simp add: calm_def)
  moreover have "tables t = tables (s\<lparr>webhook_outbox := stamp (now s) D (webhook_outbox (claimed n v s))\<rparr>)"
    using a(2) tb same(7,8) claimed_reads(5)[of n v s] by (simp add: stamped_def tables_outbox claimed_def)
  moreover have "quiet s \<Longrightarrow> quiet t \<and> D = ob_id ` set obs"
    using a(6) calm_quiet[OF u] claimed_reads(6)[of n v s] by simp
  ultimately show ?thesis using that a(3-5) unfolding due' set' by blast
qed

lemma batch_row:
  assumes "distinct (map ob_id (webhook_outbox s))" "ob \<in> set (webhook_outbox s)"
    "ob_id ob \<in> ob_id ` set (batch n s)"
  shows "ob \<in> set (batch n s)"
  using assms set_batch[of n s] by (auto simp: distinct_map inj_on_def)

text \<open>C14 (safety): one pass of the outbox drain, whatever calls fail, queues only notifications for
  stored promises whose payment exists and has not been retracted, and marks a promise dispatched
  only when its notification was queued for the store's endpoint, the store switched the event off or
  has no endpoint, or nothing is left to announce (unknown event, missing row, retracted payment);
  it changes no other part of any promise and no other table.\<close>

theorem drain_settles_with_cause:
  assumes "distinct (map ob_id (webhook_outbox s))" and "drain_once E cfg s = (r, t)"
  shows "r = Inr ()
    \<and> (\<exists>es. effects t = effects s @ es
       \<and> (\<forall>e \<in> set es. \<exists>ob \<in> set (webhook_outbox s). \<exists>ev d p job. e = Webhook_queued job
            \<and> job_payload job = Payment_event ev d p \<and> promise_subject E s (obligation_of ob) = Some (d, p)
            \<and> \<not> pay_reorged p)
       \<and> (\<forall>ob \<in> set (webhook_outbox s). \<forall>ob' \<in> set (webhook_outbox t).
            ob_id ob' = ob_id ob \<and> ob_dispatched_at ob' \<noteq> ob_dispatched_at ob \<longrightarrow>
              settled_by E s es (obligation_of ob)))
    \<and> map obligation_of (webhook_outbox t) = map obligation_of (webhook_outbox s)
    \<and> invoices t = invoices s \<and> payments t = payments s"
proof -
  let ?n = "batch_size cfg" and ?v = "sint (claim_visibility_secs cfg)"
  have subject: "\<exists>ev d p. pl = Payment_event ev d p \<and> promise_subject E s ob = Some (d, p) \<and> \<not> pay_reorged p"
    if "promised E s ob = Some (st, pl)" for ob st pl
    using that by (auto simp: promised_def promise_subject_def try_row_to_payment_def
      split: option.splits if_splits sum.splits)
  from wpD[OF drain_settles[OF assms(1)] assms(2)]
  consider "r = Inr ()" "calm s t"
    | u where "r = Inr ()" "calm (claimed ?n ?v s) u" "settles E u (map obligation_of (batch ?n s)) t"
    by blast
  then show ?thesis
  proof cases
    case 1
    then have eq: "webhook_outbox t = webhook_outbox s" using calm_same(8) by blast
    have "ob' = ob" if "ob \<in> set (webhook_outbox s)" "ob' \<in> set (webhook_outbox s)" "ob_id ob' = ob_id ob" for ob ob'
      using that assms(1) by (auto simp: distinct_map inj_on_def)
    then show ?thesis using 1 eq tables_sel[OF calm_tables[OF 1(2)]]
      by (auto simp: calm_def intro!: exI[of _ "[]"])
  next
    case 2
    obtain es D where a: "effects t = effects s @ es"
      "tables t = tables (s\<lparr>webhook_outbox := stamp (now s) D (webhook_outbox (claimed ?n ?v s))\<rparr>)"
      "D \<subseteq> ob_id ` set (map obligation_of (batch ?n s))"
      "\<forall>e \<in> set es. \<exists>ob \<in> set (map obligation_of (batch ?n s)). due E s ob e"
      "\<forall>ob \<in> set (map obligation_of (batch ?n s)). ob_id ob \<in> D \<longrightarrow> settled_by E s es ob"
      using settles_world[OF 2(2,3)] by metis
    note sel = tables_sel[OF a(2)]
    have D: "D \<subseteq> ob_id ` set (batch ?n s)" using a(3) by (auto simp: image_image)
    have "settled_by E s es (obligation_of ob)"
      if ob: "ob \<in> set (webhook_outbox s)" and ob': "ob' \<in> set (webhook_outbox t)" "ob_id ob' = ob_id ob"
        "ob_dispatched_at ob' \<noteq> ob_dispatched_at ob" for ob ob'
    proof -
      have "ob_id ob \<in> D" using dispatched_in[OF _ ob ob'(2) assms(1)] ob'(1,3) sel by (auto split: if_splits)
      moreover then have "ob \<in> set (batch ?n s)" using D batch_row[OF assms(1) ob] by blast
      ultimately show ?thesis using a(5) by auto
    qed
    moreover have "\<exists>ob \<in> set (webhook_outbox s). \<exists>ev d p job. e = Webhook_queued job
        \<and> job_payload job = Payment_event ev d p \<and> promise_subject E s (obligation_of ob) = Some (d, p)
        \<and> \<not> pay_reorged p" if e: "e \<in> set es" for e
    proof -
      obtain ob where ob: "ob \<in> set (batch ?n s)" "due E s (obligation_of ob) e" using a(4) e by auto
      obtain st pl job where d: "e = Webhook_queued job" "promised E s (obligation_of ob) = Some (st, pl)"
          "job_payload job = pl"
        using ob(2) by (auto simp: due_def job_for_def)
      with subject[OF d(2)] ob(1) set_batch[of ?n s] show ?thesis by blast
    qed
    ultimately show ?thesis using 2(1) a(1) sel by auto
  qed
qed

theorem drain_settles_with_cause_witness:
  "\<exists>t es. drain_once ex_env drain_config_default ex_processing = ((Inr () :: unit + unit), t)
     \<and> effects t = effects ex_processing @ es \<and> es \<noteq> []
     \<and> (\<exists>ev d p job. hd es = Webhook_queued job \<and> job_payload job = Payment_event ev d p \<and> \<not> pay_reorged p)"
proof -
  obtain r :: "unit + unit" and t where run: "drain_once ex_env drain_config_default ex_processing = (r, t)"
    by (meson surj_pair)
  have dist: "distinct (map ob_id (webhook_outbox ex_processing))" by code_simp
  have sent: "length (effects (snd (drain_once ex_env drain_config_default ex_processing ::
      (unit + unit) \<times> world))) = 1" by code_simp
  obtain es where es: "r = Inr ()" "effects t = effects ex_processing @ es"
      "\<forall>e \<in> set es. \<exists>ob \<in> set (webhook_outbox ex_processing). \<exists>ev d p job. e = Webhook_queued job
         \<and> job_payload job = Payment_event ev d p \<and> promise_subject ex_env ex_processing (obligation_of ob) = Some (d, p)
         \<and> \<not> pay_reorged p"
    using drain_settles_with_cause[OF dist run] by (elim conjE exE) (rule that)
  have "effects ex_processing = []" by code_simp
  then have ne: "es \<noteq> []" using sent run es(2) by auto
  then have "hd es \<in> set es" by simp
  from bspec[OF es(3) this] have "\<exists>ev d p job. hd es = Webhook_queued job \<and> job_payload job = Payment_event ev d p \<and> \<not> pay_reorged p"
    by blast
  then show ?thesis using run es(1,2) ne by blast
qed

text \<open>C16 (liveness): on a healthy database one pass settles the whole batch: each of the oldest
  claimable promises, up to the batch size, is marked dispatched, and each that is due and wanted by
  its store has its notification queued.\<close>

theorem drain_settles_batch:
  assumes "quiet s" and "distinct (map ob_id (webhook_outbox s))" and "0 \<le> batch_size cfg"
  shows "\<exists>t es. drain_once E cfg s = ((Inr () :: 'e + unit), t) \<and> quiet t \<and> effects t = effects s @ es
    \<and> (\<forall>ob \<in> set (take (nat (batch_size cfg)) (sort_key ob_created_at
           (filter (claimable (now s)) (webhook_outbox s)))).
         settled_by E s es (obligation_of ob)
         \<and> (\<exists>ob' \<in> set (webhook_outbox t). obligation_of ob' = obligation_of ob
              \<and> ob_dispatched_at ob' = Some (now s)))"
proof -
  let ?n = "batch_size cfg" and ?v = "sint (claim_visibility_secs cfg)"
  obtain r :: "'e + unit" and t where run: "drain_once E cfg s = (r, t)" by (meson surj_pair)
  from wpD[OF drain_settles[OF assms(2)] run] assms obtain u where r: "r = Inr ()"
    and u: "calm (claimed ?n ?v s) u" "settles E u (map obligation_of (batch ?n s)) t" by blast
  obtain es D where a: "effects t = effects s @ es"
      "tables t = tables (s\<lparr>webhook_outbox := stamp (now s) D (webhook_outbox (claimed ?n ?v s))\<rparr>)"
      "\<forall>ob \<in> set (map obligation_of (batch ?n s)). ob_id ob \<in> D \<longrightarrow> settled_by E s es ob"
      "quiet t" "D = ob_id ` set (map obligation_of (batch ?n s))"
    using settles_world[OF u] assms(1) by metis
  have rows: "webhook_outbox t = stamp (now s) D (webhook_outbox (claimed ?n ?v s))"
    using tables_sel[OF a(2)] by simp
  have "\<exists>ob' \<in> set (webhook_outbox t). obligation_of ob' = obligation_of ob \<and> ob_dispatched_at ob' = Some (now s)"
    if ob: "ob \<in> set (batch ?n s)" for ob
  proof -
    have "map obligation_of (webhook_outbox t) = map obligation_of (webhook_outbox s)" unfolding rows by simp
    then have "obligation_of ob \<in> obligation_of ` set (webhook_outbox t)"
      using ob set_batch[of ?n s] by (metis image_set imageI subsetD)
    then obtain ob' where ob': "ob' \<in> set (webhook_outbox t)" "obligation_of ob' = obligation_of ob" by force
    then have "ob_id ob' = ob_id ob" by (metis obligation_of_sel(1))
    moreover have "ob \<in> set (webhook_outbox s)" using ob set_batch[of ?n s] by blast
    moreover have "ob_id ob \<in> D" using a(5) ob by (force simp: image_image)
    ultimately have "ob_dispatched_at ob' = Some (now s)"
      using dispatched_in[of ob' "now s" D ?n ?v s ob] ob'(1) assms(2) rows by simp
    with ob' show ?thesis by blast
  qed
  moreover have "settled_by E s es (obligation_of ob)" if "ob \<in> set (batch ?n s)" for ob
    using a(3,5) that by (force simp: image_image)
  ultimately show ?thesis unfolding batch_def[symmetric]
    by (intro exI[of _ t] exI[of _ es] conjI ballI) (use run r a in simp_all)
qed

theorem drain_settles_batch_witness:
  "\<exists>t es. drain_once ex_env drain_config_default ex_processing = ((Inr () :: unit + unit), t) \<and> quiet t
    \<and> settled_by ex_env ex_processing es (obligation_of (hd (webhook_outbox ex_processing)))
    \<and> (\<exists>ob' \<in> set (webhook_outbox t). ob_id ob' = 101 \<and> ob_dispatched_at ob' = Some 500)"
proof -
  have h: "quiet ex_processing" "distinct (map ob_id (webhook_outbox ex_processing))"
    "0 \<le> batch_size drain_config_default" by code_simp+
  have batch: "take (nat (batch_size drain_config_default)) (sort_key ob_created_at
      (filter (claimable (now ex_processing)) (webhook_outbox ex_processing))) = webhook_outbox ex_processing"
    "webhook_outbox ex_processing = [hd (webhook_outbox ex_processing)]"
    "ob_id (hd (webhook_outbox ex_processing)) = 101" "now ex_processing = 500" by code_simp+
  obtain t es where t: "drain_once ex_env drain_config_default ex_processing = ((Inr () :: unit + unit), t)" "quiet t"
      "\<forall>ob \<in> set (webhook_outbox ex_processing). settled_by ex_env ex_processing es (obligation_of ob)
         \<and> (\<exists>ob' \<in> set (webhook_outbox t). obligation_of ob' = obligation_of ob \<and> ob_dispatched_at ob' = Some 500)"
    using drain_settles_batch[OF h, of ex_env] unfolding batch(1) unfolding batch(4) by blast
  have "hd (webhook_outbox ex_processing) \<in> set (webhook_outbox ex_processing)" using batch(2) by (metis list.set_intros(1))
  then show ?thesis using t batch(3) obligation_of_sel(1) by metis
qed

section \<open>Two instances\<close>

text \<open>What may happen to the outbox: a claim by any instance, a promise marked dispatched, a new
  promise, or the passing of time.\<close>

inductive outbox_step :: "world \<Rightarrow> world \<Rightarrow> bool" where
  Claim: "claim_undispatched_obligations n v s = (r, t) \<Longrightarrow> outbox_step s t"
| Mark: "mark_obligation_dispatched i s = (r, t) \<Longrightarrow> outbox_step s t"
| Promise: "db_call (insert_obligation oid pid i ev) s = (r, t) \<Longrightarrow> outbox_step s t"
| Pass: "0 \<le> d \<Longrightarrow> outbox_step s (s\<lparr>now := now s + d\<rparr>)"

text \<open>The rows of a set of promises are claimed until at least some time.\<close>

definition held_until :: "uuid set \<Rightarrow> timestamp \<Rightarrow> world \<Rightarrow> bool" where
  "held_until ids tm s \<longleftrightarrow> ids \<subseteq> ob_id ` set (webhook_outbox s) \<and>
     (\<forall>ob \<in> set (webhook_outbox s). ob_id ob \<in> ids \<longrightarrow> (\<exists>c. ob_claimed_until ob = Some c \<and> tm \<le> c))"

lemma held_not_claimable: "held_until ids tm s \<Longrightarrow> now s \<le> tm \<Longrightarrow> ob_id ` set (batch n s) \<inter> ids = {}"
  using batch_claimable[of _ n s] set_batch[of n s] by (fastforce simp: held_until_def claimable_def)

lemma held_outbox: "webhook_outbox t = webhook_outbox s \<Longrightarrow> held_until ids tm t = held_until ids tm s"
  by (simp add: held_until_def)

lemma held_map:
  assumes "held_until ids tm s" "webhook_outbox t = map f (webhook_outbox s)"
    "\<And>r. ob_id (f r) = ob_id r" "\<And>r. ob_id r \<in> ids \<Longrightarrow> ob_claimed_until (f r) = ob_claimed_until r"
  shows "held_until ids tm t"
  using assms by (auto simp: held_until_def image_image)

lemma db_call_world:
  assumes "db_call m s = (r, t)"
  obtains "webhook_outbox t = webhook_outbox s" "now t = now s"
    | u where "webhook_outbox u = webhook_outbox s" "now u = now s" "m u = (r, t)"
proof (cases "faults s")
  case Nil
  with assms that(2)[of s] show thesis by (simp add: db_call_def)
next
  case (Cons f fs)
  with assms that(1) that(2)[of "s\<lparr>faults := fs\<rparr>"] show thesis by (auto simp: db_call_def split: if_splits)
qed

lemma claim_result:
  assumes "claim_undispatched_obligations n v s = (r, t)"
  shows "calm s t \<and> (\<nexists>x. r = Inr x) \<or> calm (claimed n v s) t \<and> r = Inr (map obligation_of (batch n s))"
  by (rule wpD[OF wp_claim assms]) auto

lemma held_step:
  assumes "outbox_step s t" "held_until ids tm s" "now t \<le> tm" shows "held_until ids tm t \<and> now s \<le> now t"
  using assms
proof (cases rule: outbox_step.cases)
  case (Claim n v r)
  consider "calm s t" | "calm (claimed n v s) t" using claim_result[OF Claim] by blast
  then show ?thesis
  proof cases
    case 1
    then show ?thesis using calm_same(7)[OF 1] assms(2) held_outbox[OF calm_same(8)[OF 1]] by simp
  next
    case 2
    have n: "now t = now s" and rows: "webhook_outbox t = webhook_outbox (claimed n v s)"
      using calm_same(7,8)[OF 2] claimed_reads(5) by simp_all
    have "ob_id ` set (batch n s) \<inter> ids = {}" using held_not_claimable assms(2,3) n by simp
    then have "held_until ids tm (claimed n v s)"
      by (intro held_map[OF assms(2), of _ "\<lambda>r. if ob_id r \<in> ob_id ` set (batch n s)
          then r\<lparr>ob_claimed_until := Some (now s + v)\<rparr> else r"]) (auto simp: claimed_def update_where_def)
    then show ?thesis using n held_outbox[OF rows] by simp
  qed
next
  case (Mark i r)
  show ?thesis
  proof (rule db_call_world[OF Mark[unfolded mark_obligation_dispatched_def]])
    assume "webhook_outbox t = webhook_outbox s" "now t = now s"
    then show ?thesis using assms(2) by (simp add: held_until_def)
  next
    fix u
    assume u: "webhook_outbox u = webhook_outbox s" "now u = now s" "(Inr (), u\<lparr>webhook_outbox :=
      update_where (\<lambda>r. ob_id r = i) (\<lambda>r. r\<lparr>ob_dispatched_at := Some (now u)\<rparr>) (webhook_outbox u)\<rparr>) = (r, t)"
    have "held_until ids tm t"
      by (rule held_map[OF assms(2), of _ "\<lambda>r. if ob_id r = i then r\<lparr>ob_dispatched_at := Some (now u)\<rparr> else r"])
        (use u in \<open>auto simp: update_where_def\<close>)
    then show ?thesis using u by auto
  qed
next
  case (Promise oid pid i ev r)
  show ?thesis
  proof (rule db_call_world[OF Promise])
    assume "webhook_outbox t = webhook_outbox s" "now t = now s"
    then show ?thesis using assms(2) by (simp add: held_until_def)
  next
    fix u assume u: "webhook_outbox u = webhook_outbox s" "now u = now s" "insert_obligation oid pid i ev u = (r, t)"
    have "now t = now u \<and> (webhook_outbox t = webhook_outbox u
        \<or> (\<exists>x. webhook_outbox t = webhook_outbox u @ [x] \<and> ob_id x \<notin> ob_id ` set (webhook_outbox u)))"
      using u(3) by (auto simp: insert_obligation_def split: if_splits)
    then show ?thesis using u(1,2) assms(2) unfolding held_until_def by (elim conjE disjE exE) auto
  qed
next
  case (Pass d)
  then show ?thesis using assms(2) by (simp add: held_until_def)
qed

lemma held_steps:
  assumes "outbox_step\<^sup>*\<^sup>* s t" "held_until ids tm s" "now t \<le> tm" shows "held_until ids tm t"
  using assms
proof (induction rule: converse_rtranclp_induct)
  case (step s u)
  have le: "now x \<le> now y" if "outbox_step\<^sup>*\<^sup>* x y" for x y using that
  proof (induction rule: rtranclp_induct)
    case (step y z)
    then show ?case using held_step[of y z "{}" "max (now y) (now z)"] by (simp add: held_until_def)
  qed simp
  then have "now u \<le> tm" using step by force
  then show ?case using step held_step by blast
qed

text \<open>C15 (safety): when one instance has claimed a batch, no claim of any instance returns one of its
  promises before the visibility timeout has passed, whatever else happens to the outbox in
  between: further claims, deliveries marked, new promises, time passing.\<close>

theorem claims_are_exclusive:
  assumes "claim_undispatched_obligations n v s = (Inr obs, t)" and "outbox_step\<^sup>*\<^sup>* t u"
    and "claim_undispatched_obligations n' v' u = (Inr obs', w)" and "now u \<le> now s + v"
  shows "ob_id ` set obs \<inter> ob_id ` set obs' = {}"
proof -
  have a: "calm (claimed n v s) t" "obs = map obligation_of (batch n s)" using claim_result[OF assms(1)] by auto
  have b: "obs' = map obligation_of (batch n' u)" using claim_result[OF assms(3)] by auto
  have "held_until (ob_id ` set (batch n s)) (now s + v) (claimed n v s)"
    unfolding held_until_def
  proof
    have "map ob_id (webhook_outbox (claimed n v s)) = map ob_id (webhook_outbox s)"
      unfolding claimed_def by (simp add: map_update_where_key)
    then show "ob_id ` set (batch n s) \<subseteq> ob_id ` set (webhook_outbox (claimed n v s))"
      using set_batch[of n s] by (metis image_mono image_set)
    show "\<forall>ob \<in> set (webhook_outbox (claimed n v s)). ob_id ob \<in> ob_id ` set (batch n s) \<longrightarrow>
        (\<exists>c. ob_claimed_until ob = Some c \<and> now s + v \<le> c)"
      by (auto simp: claimed_def set_update_where)
  qed
  then have "held_until (ob_id ` set (batch n s)) (now s + v) t"
    using held_outbox[OF calm_same(8)[OF a(1)]] by simp
  then have "held_until (ob_id ` set (batch n s)) (now s + v) u" by (rule held_steps[OF assms(2) _ assms(4)])
  from held_not_claimable[OF this assms(4)] show ?thesis unfolding a(2) b by (auto simp: image_image)
qed

theorem claims_are_exclusive_witness:
  "\<exists>obs t obs' w. claim_undispatched_obligations 10 30 ex_processing = (Inr obs, t) \<and> obs \<noteq> []
    \<and> claim_undispatched_obligations 10 30 (t\<lparr>now := now t + 30\<rparr>) = (Inr obs', w)
    \<and> ob_id ` set obs \<inter> ob_id ` set obs' = {}"
proof -
  let ?r = "claim_undispatched_obligations 10 30 ex_processing"
  let ?u = "(snd ?r)\<lparr>now := now (snd ?r) + 30\<rparr>"
  have ok: "isl (fst ?r) = False" "projr (fst ?r) \<noteq> []" "now (snd ?r) = now ex_processing"
    "isl (fst (claim_undispatched_obligations 10 30 ?u)) = False" by code_simp+
  obtain obs t where r: "?r = (Inr obs, t)" using ok(1) by (cases ?r; cases "fst ?r") auto
  then obtain obs' w where r': "claim_undispatched_obligations 10 30 (t\<lparr>now := now t + 30\<rparr>) = (Inr obs', w)"
    using ok(4) by (cases "claim_undispatched_obligations 10 30 ?u"; cases "fst (claim_undispatched_obligations 10 30 ?u)") auto
  have "outbox_step\<^sup>*\<^sup>* t (t\<lparr>now := now t + 30\<rparr>)" by (intro r_into_rtranclp outbox_step.Pass) simp
  from claims_are_exclusive[OF r this r'] have "ob_id ` set obs \<inter> ob_id ` set obs' = {}"
    using ok(3) r by simp
  with r r' ok(2) show ?thesis by auto
qed

end
