(* ===== verification/Payouts.thy ===== *)
theory Payouts
  imports Outcomes Lifecycle Example "HOL-Library.Multiset"
begin

text \<open>
  Payouts and refunds (\<^verbatim>\<open>server/src/api/payouts.rs\<close>, \<^verbatim>\<open>server/src/api/refunds.rs\<close> and the repositories
  \<^verbatim>\<open>data-service/src/postgres/payout.rs\<close>, \<^verbatim>\<open>data-service/src/postgres/refund.rs\<close>).  The server never sends
  funds: a payout records that a merchant will move the money of some invoices, which claims those
  invoices until the payout is abandoned.  Every handler is modelled with its access check, its
  validations in the order of the code, and every repository call that may fail.

  The state is the server's world together with the payout and refund tables and the memberships of
  users in stores.  The texts of a payout status are defined outside the repository and are an
  argument; what the SQL relies on is that they decode to themselves and that \<^verbatim>\<open>'failed'\<close> is the text of
  the failed status alone.
\<close>

section \<open>Rows\<close>

datatype PayoutStatus = PoPending | PoBroadcasting | PoConfirmed | PoFailed

record 'st payout =
  po_id :: uuid
  po_store :: uuid
  po_invoices :: "string list"
  po_destination :: string
  po_chain :: chain_ref
  po_asset_type :: string
  po_symbol :: string
  po_token :: "string option"
  po_amount :: string
  po_tx_hash :: "string option"
  po_status :: 'st
  po_fee :: "string option"
  po_error :: "string option"
  po_created_at :: timestamp
  po_confirmed_at :: "timestamp option"

type_synonym PayoutData = "PayoutStatus payout"
type_synonym payout_row = "string payout"

datatype RefundStatus = RePending | ReBroadcasting | ReConfirmed | ReFailed

record 'st refund =
  re_id :: uuid
  re_invoice :: string
  re_payment :: uuid
  re_store :: uuid
  re_to :: string
  re_chain :: chain_ref
  re_asset_type :: string
  re_symbol :: string
  re_token :: "string option"
  re_amount :: string
  re_tx_hash :: "string option"
  re_status :: 'st
  re_fee :: "string option"
  re_reason :: "string option"
  re_error :: "string option"
  re_created_at :: timestamp
  re_confirmed_at :: "timestamp option"

type_synonym RefundData = "RefundStatus refund"
type_synonym refund_row = "string refund"

record status_text =
  payout_as_str :: "PayoutStatus \<Rightarrow> string"
  payout_parse :: "string \<Rightarrow> PayoutStatus option"
  refund_as_str :: "RefundStatus \<Rightarrow> string"
  refund_parse :: "string \<Rightarrow> RefundStatus option"

record desk =
  desk_world :: world
  payouts :: "payout_row list"
  refunds :: "refund_row list"
  user_stores :: "(uuid \<times> uuid) list"

section \<open>The repositories\<close>

definition on_world :: "('e, world, 'a) prog \<Rightarrow> ('e, desk, 'a) prog" where
  "on_world m s = (case m (desk_world s) of (r, w) \<Rightarrow> (r, s\<lparr>desk_world := w\<rparr>))"

text \<open>A call on the tables of this theory: it fails when the schedule of the world says so.\<close>

definition desk_call :: "(RepositoryError, desk, 'a) prog \<Rightarrow> (RepositoryError, desk, 'a) prog" where
  "desk_call m = thenP (on_world (db_call (okP ()))) m"

definition db_to_payout_status :: "status_text \<Rightarrow> string \<Rightarrow> PayoutStatus" where
  "db_to_payout_status P s = (case payout_parse P s of Some st \<Rightarrow> st | None \<Rightarrow> PoFailed)"

definition try_row_to_payout :: "status_text \<Rightarrow> payout_row \<Rightarrow> PayoutData" where
  "try_row_to_payout P r =
     \<lparr> po_id = po_id r, po_store = po_store r, po_invoices = po_invoices r,
       po_destination = po_destination r, po_chain = po_chain r, po_asset_type = po_asset_type r,
       po_symbol = po_symbol r, po_token = po_token r, po_amount = po_amount r, po_tx_hash = po_tx_hash r,
       po_status = db_to_payout_status P (po_status r), po_fee = po_fee r, po_error = po_error r,
       po_created_at = po_created_at r, po_confirmed_at = po_confirmed_at r \<rparr>"

definition payout_values :: "status_text \<Rightarrow> PayoutData \<Rightarrow> payout_row" where
  "payout_values P d =
     \<lparr> po_id = po_id d, po_store = po_store d, po_invoices = po_invoices d,
       po_destination = po_destination d, po_chain = po_chain d, po_asset_type = po_asset_type d,
       po_symbol = po_symbol d, po_token = po_token d, po_amount = po_amount d, po_tx_hash = po_tx_hash d,
       po_status = payout_as_str P (po_status d), po_fee = po_fee d, po_error = po_error d,
       po_created_at = po_created_at d, po_confirmed_at = po_confirmed_at d \<rparr>"

definition repo_get_payout :: "status_text \<Rightarrow> uuid \<Rightarrow> (RepositoryError, desk, PayoutData option) prog" where
  "repo_get_payout P i = desk_call (getP (\<lambda>s.
     map_option (try_row_to_payout P) (find (\<lambda>r. po_id r = i) (payouts s))))"

definition get_payouts_for_store ::
    "status_text \<Rightarrow> uuid \<Rightarrow> nat \<Rightarrow> nat \<Rightarrow> (RepositoryError, desk, nat \<times> PayoutData list) prog" where
  "get_payouts_for_store P st limit offset =
     bindP (desk_call (getP (\<lambda>s. rows_affected (\<lambda>r. po_store r = st) (payouts s)))) (\<lambda>n.
     bindP (desk_call (getP (\<lambda>s. map (try_row_to_payout P) (take limit (drop offset
        (sort_key (\<lambda>r. - po_created_at r) (filter (\<lambda>r. po_store r = st) (payouts s)))))))) (\<lambda>ps.
     okP (n, ps)))"

definition get_active_payouts :: "status_text \<Rightarrow> (RepositoryError, desk, PayoutData list) prog" where
  "get_active_payouts P = desk_call (getP (\<lambda>s. map (try_row_to_payout P)
     (sort_key po_created_at (filter (\<lambda>r. po_status r = ''pending'' \<or> po_status r = ''broadcasting'') (payouts s)))))"

definition invoice_ids_already_claimed ::
    "uuid \<Rightarrow> string list \<Rightarrow> (RepositoryError, desk, string list) prog" where
  "invoice_ids_already_claimed st is =
     (if is = [] then okP []
      else desk_call (getP (\<lambda>s. remdups (filter (\<lambda>i. i \<in> set is)
        (concat (map po_invoices (filter (\<lambda>r. po_store r = st \<and> po_status r \<noteq> ''failed'') (payouts s))))))))"

text \<open>The insert fails on a repeated primary key.\<close>

definition repo_create_payout :: "status_text \<Rightarrow> PayoutData \<Rightarrow> (RepositoryError, desk, unit) prog" where
  "repo_create_payout P d = desk_call (\<lambda>s.
     if po_id d \<in> po_id ` set (payouts s) then (Inl RDatabase, s)
     else (Inr (), s\<lparr>payouts := payouts s @ [payout_values P d]\<rparr>))"

definition update_payout_status ::
    "status_text \<Rightarrow> uuid \<Rightarrow> PayoutStatus \<Rightarrow> string option \<Rightarrow> string option \<Rightarrow> string option \<Rightarrow>
     (RepositoryError, desk, unit) prog" where
  "update_payout_status P i st tx fee err = desk_call (modP (\<lambda>s.
     s\<lparr>payouts := update_where (\<lambda>r. po_id r = i)
        (\<lambda>r. r\<lparr>po_status := payout_as_str P st, po_tx_hash := coalesce tx (po_tx_hash r),
               po_fee := coalesce fee (po_fee r), po_error := coalesce err (po_error r)\<rparr>) (payouts s)\<rparr>))"

definition confirm_payout :: "uuid \<Rightarrow> (RepositoryError, desk, unit) prog" where
  "confirm_payout i = desk_call (modP (\<lambda>s.
     s\<lparr>payouts := update_where (\<lambda>r. po_id r = i)
        (\<lambda>r. r\<lparr>po_status := ''confirmed'', po_confirmed_at := Some (now (desk_world s))\<rparr>) (payouts s)\<rparr>))"

definition get_user_store :: "uuid \<Rightarrow> uuid \<Rightarrow> (RepositoryError, desk, (uuid \<times> uuid) option) prog" where
  "get_user_store u st = desk_call (getP (\<lambda>s. find (\<lambda>m. m = (u, st)) (user_stores s)))"

subsection \<open>Refund rows\<close>

definition db_to_refund_status :: "status_text \<Rightarrow> string \<Rightarrow> RefundStatus" where
  "db_to_refund_status P s = (case refund_parse P s of Some st \<Rightarrow> st | None \<Rightarrow> ReFailed)"

text \<open>Reading a row decodes its status, writing one encodes it; the other columns are copied.\<close>

definition refund_with :: "('a \<Rightarrow> 'b) \<Rightarrow> 'a refund \<Rightarrow> 'b refund" where
  "refund_with f r =
     \<lparr> re_id = re_id r, re_invoice = re_invoice r, re_payment = re_payment r, re_store = re_store r,
       re_to = re_to r, re_chain = re_chain r, re_asset_type = re_asset_type r, re_symbol = re_symbol r,
       re_token = re_token r, re_amount = re_amount r, re_tx_hash = re_tx_hash r,
       re_status = f (re_status r), re_fee = re_fee r, re_reason = re_reason r, re_error = re_error r,
       re_created_at = re_created_at r, re_confirmed_at = re_confirmed_at r \<rparr>"

definition try_row_to_refund :: "status_text \<Rightarrow> refund_row \<Rightarrow> RefundData" where
  "try_row_to_refund P r = refund_with (db_to_refund_status P) r"

definition get_refund :: "status_text \<Rightarrow> uuid \<Rightarrow> (RepositoryError, desk, RefundData option) prog" where
  "get_refund P i = desk_call (getP (\<lambda>s.
     map_option (try_row_to_refund P) (find (\<lambda>r. re_id r = i) (refunds s))))"

definition get_refunds_for_invoice :: "status_text \<Rightarrow> string \<Rightarrow> (RepositoryError, desk, RefundData list) prog" where
  "get_refunds_for_invoice P i = desk_call (getP (\<lambda>s. map (try_row_to_refund P)
     (sort_key (\<lambda>r. - re_created_at r) (filter (\<lambda>r. re_invoice r = i) (refunds s)))))"

definition get_refunds_for_store ::
    "status_text \<Rightarrow> uuid \<Rightarrow> nat \<Rightarrow> nat \<Rightarrow> (RepositoryError, desk, nat \<times> RefundData list) prog" where
  "get_refunds_for_store P st limit offset =
     bindP (desk_call (getP (\<lambda>s. rows_affected (\<lambda>r. re_store r = st) (refunds s)))) (\<lambda>n.
     bindP (desk_call (getP (\<lambda>s. map (try_row_to_refund P) (take limit (drop offset
        (sort_key (\<lambda>r. - re_created_at r) (filter (\<lambda>r. re_store r = st) (refunds s)))))))) (\<lambda>rs.
     okP (n, rs)))"

definition get_active_refunds :: "status_text \<Rightarrow> (RepositoryError, desk, RefundData list) prog" where
  "get_active_refunds P = desk_call (getP (\<lambda>s. map (try_row_to_refund P)
     (sort_key re_created_at (filter (\<lambda>r. re_status r = ''pending'' \<or> re_status r = ''broadcasting'') (refunds s)))))"

definition repo_create_refund :: "status_text \<Rightarrow> RefundData \<Rightarrow> (RepositoryError, desk, unit) prog" where
  "repo_create_refund P d = desk_call (\<lambda>s.
     if re_id d \<in> re_id ` set (refunds s) \<or> re_payment d \<notin> pay_id ` set (payments (desk_world s))
     then (Inl RDatabase, s)
     else (Inr (), s\<lparr>refunds := refunds s @ [refund_with (refund_as_str P) d]\<rparr>))"

definition update_refund_status ::
    "status_text \<Rightarrow> uuid \<Rightarrow> RefundStatus \<Rightarrow> string option \<Rightarrow> string option \<Rightarrow> string option \<Rightarrow>
     (RepositoryError, desk, unit) prog" where
  "update_refund_status P i st tx fee err = desk_call (modP (\<lambda>s.
     s\<lparr>refunds := update_where (\<lambda>r. re_id r = i)
        (\<lambda>r. r\<lparr>re_status := refund_as_str P st, re_tx_hash := coalesce tx (re_tx_hash r),
               re_fee := coalesce fee (re_fee r), re_error := coalesce err (re_error r)\<rparr>) (refunds s)\<rparr>))"

definition confirm_refund :: "uuid \<Rightarrow> (RepositoryError, desk, unit) prog" where
  "confirm_refund i = desk_call (modP (\<lambda>s.
     s\<lparr>refunds := update_where (\<lambda>r. re_id r = i)
        (\<lambda>r. r\<lparr>re_status := ''confirmed'', re_confirmed_at := Some (now (desk_world s))\<rparr>) (refunds s)\<rparr>))"

section \<open>The handlers\<close>

record CreatePayoutRequest =
  rq_invoice_ids :: "string list"
  rq_destination :: string
  rq_chain :: chain_ref
  rq_symbol :: string
  rq_token :: "string option"

text \<open>The caller: an administrator, or a user of the given id.\<close>

record caller =
  user_id :: uuid
  is_admin :: bool

definition http500 :: "(RepositoryError, 's, 'a) prog \<Rightarrow> (StatusCode, 's, 'a) prog" where
  "http500 m = mapErrP (\<lambda>_. INTERNAL_SERVER_ERROR) m"

text \<open>\<^verbatim>\<open>ok_or(StatusCode::NOT_FOUND)\<close>.\<close>

definition found :: "'a option \<Rightarrow> (StatusCode, 's, 'a) prog" where
  "found z = (case z of None \<Rightarrow> errP NOT_FOUND | Some x \<Rightarrow> okP x)"

text \<open>The access check every handler opens with.\<close>

definition store_access :: "caller \<Rightarrow> uuid \<Rightarrow> (StatusCode, desk, unit) prog" where
  "store_access u st =
     (if is_admin u then okP ()
      else bindP (http500 (get_user_store (user_id u) st)) (\<lambda>m.
        if m = None then errP NOT_FOUND else okP ()))"

definition payable :: "chain_ref \<Rightarrow> string \<Rightarrow> PaymentData \<Rightarrow> bool" where
  "payable c asset p \<longleftrightarrow> pay_confirmed_at p \<noteq> None \<and> \<not> pay_reorged p \<and> pay_chain p = c \<and> pay_symbol p = asset"

definition sum_payable :: "env \<Rightarrow> PaymentData list \<Rightarrow> chain_ref \<Rightarrow> string \<Rightarrow> u256" where
  "sum_payable E ps c asset =
     foldl (+) 0 (List.map_filter (\<lambda>p. parse_u256 E (pay_amount p)) (filter (payable c asset) ps))"

primrec payable_total ::
    "env \<Rightarrow> uuid \<Rightarrow> string list \<Rightarrow> chain_ref \<Rightarrow> string \<Rightarrow> u256 \<Rightarrow> (StatusCode, desk, u256) prog" where
  "payable_total E st [] c asset acc = okP acc"
| "payable_total E st (i # is) c asset acc =
     bindP (http500 (on_world (invoice_get E i))) (\<lambda>z.
     bindP (found z) (\<lambda>d.
     if inv_store d \<noteq> st then errP NOT_FOUND
     else bindP (http500 (on_world (get_valid_for_invoice E i))) (\<lambda>ps.
       payable_total E st is c asset (acc + sum_payable E ps c asset))))"

definition reject_claimed_invoices :: "uuid \<Rightarrow> string list \<Rightarrow> (StatusCode, desk, unit) prog" where
  "reject_claimed_invoices st is =
     bindP (http500 (invoice_ids_already_claimed st is)) (\<lambda>claimed.
       if claimed = [] then okP () else errP CONFLICT)"

definition payout_for_store :: "status_text \<Rightarrow> uuid \<Rightarrow> uuid \<Rightarrow> (StatusCode, desk, PayoutData) prog" where
  "payout_for_store P st i =
     bindP (http500 (repo_get_payout P i)) (\<lambda>z.
     bindP (found z) (\<lambda>p. if po_store p \<noteq> st then errP NOT_FOUND else okP p))"

text \<open>Creating a payout: the checks and the row they lead to, and then the insert.\<close>

definition prepare_payout ::
    "env \<Rightarrow> caller \<Rightarrow> uuid \<Rightarrow> CreatePayoutRequest \<Rightarrow> (StatusCode, desk, PayoutData) prog" where
  "prepare_payout E u st body =
     thenP (store_access u st)
     (if trim (rq_destination body) = [] then errP BAD_REQUEST
      else if rq_invoice_ids body = [] then errP BAD_REQUEST
      else bindP (payable_total E st (rq_invoice_ids body) (rq_chain body) (rq_symbol body) 0) (\<lambda>total.
        thenP (reject_claimed_invoices st (rq_invoice_ids body))
        (if total = 0 then errP BAD_REQUEST
         else bindP (on_world new_v4) (\<lambda>i. bindP (getP (\<lambda>s. now (desk_world s))) (\<lambda>t.
           okP \<lparr> po_id = i, po_store = st, po_invoices = rq_invoice_ids body,
             po_destination = rq_destination body, po_chain = rq_chain body,
             po_asset_type = (if rq_token body \<noteq> None then ''erc20'' else ''native''),
             po_symbol = rq_symbol body, po_token = rq_token body, po_amount = fmt_u256 E total,
             po_tx_hash = None, po_status = PoPending, po_fee = None, po_error = None,
             po_created_at = t, po_confirmed_at = None \<rparr>)))))"

definition insert_payout :: "status_text \<Rightarrow> PayoutData \<Rightarrow> (StatusCode, desk, PayoutData) prog" where
  "insert_payout P d = thenP (http500 (repo_create_payout P d)) (okP d)"

definition create_payout ::
    "env \<Rightarrow> status_text \<Rightarrow> caller \<Rightarrow> uuid \<Rightarrow> CreatePayoutRequest \<Rightarrow> (StatusCode, desk, PayoutData) prog" where
  "create_payout E P u st body = bindP (prepare_payout E u st body) (insert_payout P)"

definition list_payouts ::
    "status_text \<Rightarrow> caller \<Rightarrow> uuid \<Rightarrow> (StatusCode, desk, nat \<times> PayoutData list) prog" where
  "list_payouts P u st = thenP (store_access u st) (http500 (get_payouts_for_store P st 50 0))"

definition get_payout :: "status_text \<Rightarrow> caller \<Rightarrow> uuid \<Rightarrow> uuid \<Rightarrow> (StatusCode, desk, PayoutData) prog" where
  "get_payout P u st i = thenP (store_access u st) (payout_for_store P st i)"

definition settle_payout ::
    "status_text \<Rightarrow> caller \<Rightarrow> uuid \<Rightarrow> uuid \<Rightarrow> string \<Rightarrow> (StatusCode, desk, PayoutData) prog" where
  "settle_payout P u st i tx =
     thenP (store_access u st)
     (let tx_hash = trim tx in
      if tx_hash = [] then errP BAD_REQUEST
      else bindP (payout_for_store P st i) (\<lambda>p.
        if po_status p \<noteq> PoPending then errP CONFLICT
        else thenP (http500 (update_payout_status P i PoConfirmed (Some tx_hash) None None))
               (payout_for_store P st i)))"

definition abandon_payout ::
    "status_text \<Rightarrow> caller \<Rightarrow> uuid \<Rightarrow> uuid \<Rightarrow> string option \<Rightarrow> (StatusCode, desk, PayoutData) prog" where
  "abandon_payout P u st i reason =
     thenP (store_access u st)
     (bindP (payout_for_store P st i) (\<lambda>p.
        if po_status p \<noteq> PoPending then errP CONFLICT
        else thenP (http500 (update_payout_status P i PoFailed None None
                 (Some (case reason of Some r \<Rightarrow> r | None \<Rightarrow> ''abandoned by the merchant''))))
               (payout_for_store P st i)))"

text \<open>Refunds are refused outright; the list remains.\<close>

definition create_refund :: "caller \<Rightarrow> string \<Rightarrow> StatusCode" where
  "create_refund u i = NOT_IMPLEMENTED"

definition list_refunds :: "env \<Rightarrow> status_text \<Rightarrow> caller \<Rightarrow> string \<Rightarrow> (StatusCode, desk, RefundData list) prog" where
  "list_refunds E P u i =
     bindP (http500 (on_world (invoice_get E i))) (\<lambda>z.
     bindP (found z) (\<lambda>d.
     thenP (store_access u (inv_store d)) (http500 (get_refunds_for_invoice P i))))"

section \<open>Reads leave no trace\<close>

text \<open>What the handlers can see of the desk: everything but the schedule of failures, the supply of
  identifiers and the log of effects.\<close>

definition shop :: "desk \<Rightarrow> desk" where
  "shop s = s\<lparr>desk_world := tables (desk_world s)\<rparr>"

lemma shop_sel:
  assumes "shop t = shop s"
  shows "payouts t = payouts s" "refunds t = refunds s" "user_stores t = user_stores s"
    "tables (desk_world t) = tables (desk_world s)"
  using assms by (cases s; cases t; simp add: shop_def)+

lemma shop_world: "tables w = tables (desk_world s) \<Longrightarrow> shop (s\<lparr>desk_world := w\<rparr>) = shop s"
  by (simp add: shop_def)

lemma shop_on_world: "steps (same tables) m \<Longrightarrow> steps (same shop) (on_world m)"
  unfolding steps_def same_def on_world_def by (simp add: split_def shop_world)

lemma tables_ok_call: "steps (same tables) (db_call (okP ()))"
  by (rule tables_body) (simp add: okP_def)

lemma shop_desk_call [steps_intros]: "steps (same shop) m \<Longrightarrow> steps (same shop) (desk_call m)"
  unfolding desk_call_def by (intro same.steps_bind shop_on_world tables_ok_call)

lemma shop_http [steps_intros]: "steps (same shop) m \<Longrightarrow> steps (same shop) (http500 m)"
  unfolding http500_def by (rule same.steps_mapErr)

lemma shop_found [steps_intros]: "steps (same shop) (found z)"
  unfolding found_def by (intro steps_intros)

lemma tables_valid_payments: "steps (same tables) (get_valid_for_invoice E i)"
  unfolding get_valid_for_invoice_def by (rule tables_body) simp

lemmas shop_world_reads [steps_intros] =
  tables_readers(1)[THEN shop_on_world] tables_valid_payments[THEN shop_on_world] tables_new_v4[THEN shop_on_world]

lemma shop_reads [steps_intros]:
  "steps (same shop) (store_access u st)"
  "steps (same shop) (repo_get_payout P i)"
  "steps (same shop) (payout_for_store P st i)"
  "steps (same shop) (invoice_ids_already_claimed st ids)"
  "steps (same shop) (reject_claimed_invoices st ids)"
  unfolding store_access_def get_user_store_def payout_for_store_def repo_get_payout_def
    reject_claimed_invoices_def invoice_ids_already_claimed_def
  by (intro steps_intros)+

lemma shop_payable_total [steps_intros]: "steps (same shop) (payable_total E st ids c asset acc)"
proof (induction ids arbitrary: acc)
  case (Cons i ids)
  show ?case unfolding payable_total.simps by (intro steps_intros Cons)
qed (simp add: same.steps_ok)

lemma shop_prepare [steps_intros]: "steps (same shop) (prepare_payout E u st body)"
  unfolding prepare_payout_def by (intro steps_intros)

section \<open>What the calls return\<close>

lemma desk_read_Inr:
  assumes "desk_call (getP f) s = (Inr x, t)" shows "x = f t \<and> shop t = shop s"
  using assms stepsD[OF shop_desk_call[OF same.steps_get, of f] assms]
  by (auto simp: desk_call_def bindP_Inr_iff getP_def same_def)

lemma http500_Inr: "http500 m s = (Inr x, t) \<longleftrightarrow> m s = (Inr x, t)"
  by (cases "m s"; cases "fst (m s)") (auto simp: http500_def mapErrP_def)

lemma found_Inr: "found z s = (Inr x, t) \<longleftrightarrow> z = Some x \<and> t = s"
  by (auto simp: found_def okP_def errP_def split: option.split)

lemma on_world_iff: "on_world m s = (r, t) \<longleftrightarrow> (\<exists>w. m (desk_world s) = (r, w) \<and> t = s\<lparr>desk_world := w\<rparr>)"
  by (auto simp: on_world_def split: prod.split)

text \<open>What an invoice has to pay out: its confirmed, valid payments in the asset on the chain.\<close>

definition amount_of :: "env \<Rightarrow> payment_row \<Rightarrow> u256" where
  "amount_of E p = (case parse_u256 E (pg_text E 0 (pay_amount p)) of Some v \<Rightarrow> v | None \<Rightarrow> 0)"

definition owed :: "env \<Rightarrow> world \<Rightarrow> string \<Rightarrow> chain_ref \<Rightarrow> string \<Rightarrow> u256" where
  "owed E w i c asset = (\<Sum>p\<leftarrow>filter (\<lambda>p. pay_invoice p = i \<and> \<not> pay_reorged p \<and> pay_confirmed_at p \<noteq> None
      \<and> pay_chain p = c \<and> pay_symbol p = asset) (payments w). amount_of E p)"

lemma foldl_plus: "foldl (+) a xs = a + sum_list xs" for a :: "'a::comm_monoid_add"
  by (induction xs arbitrary: a) (simp_all add: add.assoc)

lemma sum_map_filter: "sum_list (List.map_filter f xs) = (\<Sum>x\<leftarrow>xs. case f x of Some v \<Rightarrow> v | None \<Rightarrow> 0)"
  for f :: "'a \<Rightarrow> 'b::comm_monoid_add option"
  by (induction xs) (auto simp: map_filter_simps split: option.split)

lemma sum_list_sort_key: "(\<Sum>x\<leftarrow>sort_key k xs. g x) = (\<Sum>x\<leftarrow>xs. g x)" for g :: "'a \<Rightarrow> 'b::comm_monoid_add"
  by (metis mset_map mset_sort sum_mset_sum_list)

lemma sum_list_filter_map: "(\<Sum>x\<leftarrow>filter Q xs. g x) = (\<Sum>x\<leftarrow>xs. if Q x then g x else 0)"
  for g :: "'a \<Rightarrow> 'b::comm_monoid_add"
  by (induction xs) auto

lemma sum_payable_owed:
  "sum_payable E (map (try_row_to_payment E) (sort_key k (filter (\<lambda>r. pay_invoice r = i \<and> \<not> pay_reorged r) (payments w))))
     c asset = owed E w i c asset"
proof -
  have pay: "payable c asset (try_row_to_payment E r) \<longleftrightarrow>
      \<not> pay_reorged r \<and> pay_confirmed_at r \<noteq> None \<and> pay_chain r = c \<and> pay_symbol r = asset" for r
    by (auto simp: payable_def try_row_to_payment_def)
  have amt: "(case parse_u256 E (pay_amount (try_row_to_payment E r)) of Some v \<Rightarrow> v | None \<Rightarrow> 0) = amount_of E r" for r
    by (simp add: amount_of_def try_row_to_payment_def)
  let ?f = "\<lambda>r. pay_invoice r = i \<and> \<not> pay_reorged r"
  have "sum_payable E (map (try_row_to_payment E) (sort_key k (filter ?f (payments w)))) c asset
      = (\<Sum>r\<leftarrow>sort_key k (filter ?f (payments w)).
          if payable c asset (try_row_to_payment E r) then amount_of E r else 0)"
    by (simp add: sum_payable_def foldl_plus sum_map_filter sum_list_filter_map o_def amt cong: if_cong)
  also have "\<dots> = (\<Sum>r\<leftarrow>filter ?f (payments w). if payable c asset (try_row_to_payment E r) then amount_of E r else 0)"
    by (rule sum_list_sort_key)
  also have "\<dots> = owed E w i c asset"
    unfolding owed_def sum_list_filter_map pay by (rule arg_cong[where f = sum_list], rule map_cong) auto
  finally show ?thesis .
qed

lemma owed_tables: "tables w = tables v \<Longrightarrow> owed E w i c asset = owed E v i c asset"
  unfolding owed_def using tables_sel[of w v] by simp

definition owns :: "world \<Rightarrow> uuid \<Rightarrow> string \<Rightarrow> bool" where
  "owns w st i \<longleftrightarrow> (case find (\<lambda>r. inv_id r = i) (invoices w) of Some r \<Rightarrow> inv_store r = st | None \<Rightarrow> False)"

lemma invoice_get_find:
  assumes "invoice_get E i s = (Inr (Some d), t)"
  shows "\<exists>row. find (\<lambda>r. inv_id r = i) (invoices s) = Some row \<and> try_row_to_invoice E row = Inr d"
  using assms unfolding invoice_get_def
  by (elim db_call_outcome) (auto split: option.splits simp: map_sum_def split: sum.splits)

lemma payable_total_Inr:
  assumes "payable_total E st ids c asset acc s = (Inr x, t)"
  shows "x = acc + (\<Sum>i\<leftarrow>ids. owed E (desk_world s) i c asset) \<and> (\<forall>i \<in> set ids. owns (desk_world s) st i)"
  using assms
proof (induction ids arbitrary: acc s)
  case Nil
  then show ?case by (simp add: okP_def)
next
  case (Cons i ids)
  obtain z s1 d ps s2 where a: "on_world (invoice_get E i) s = (Inr z, s1)" "z = Some d" "inv_store d = st"
      "on_world (get_valid_for_invoice E i) s1 = (Inr ps, s2)"
      "payable_total E st ids c asset (acc + sum_payable E ps c asset) s2 = (Inr x, t)"
    using Cons.prems by (auto simp: bindP_Inr_iff http500_Inr found_Inr errP_def split: if_splits)
  have s1: "shop s1 = shop s" using stepsD[OF shop_world_reads(1) a(1)] by (simp add: same_def)
  have s2: "shop s2 = shop s" using stepsD[OF shop_world_reads(2) a(4)] s1 by (simp add: same_def)
  note t1 = shop_sel(4)[OF s1] and t2 = shop_sel(4)[OF s2]
  have "ps = map (try_row_to_payment E) (sort_key (\<lambda>r. - pay_detected_at r)
      (filter (\<lambda>r. pay_invoice r = i \<and> \<not> pay_reorged r) (payments (desk_world s))))"
    using a(4) tables_sel[OF t1] unfolding on_world_iff get_valid_for_invoice_def db_call_cases by auto
  then have ps: "sum_payable E ps c asset = owed E (desk_world s) i c asset" by (simp add: sum_payable_owed)
  have own: "owns (desk_world s) st i"
  proof -
    obtain w where "invoice_get E i (desk_world s) = (Inr (Some d), w)" using a(1,2) by (auto simp: on_world_iff)
    from invoice_get_find[OF this] obtain row where row: "find (\<lambda>r. inv_id r = i) (invoices (desk_world s)) = Some row"
        "try_row_to_invoice E row = Inr d" by blast
    then show ?thesis using try_row_to_invoice_sel[OF row(2)] a(3) by (auto simp: owns_def)
  qed
  have "x = (acc + sum_payable E ps c asset) + (\<Sum>i\<leftarrow>ids. owed E (desk_world s2) i c asset) \<and>
      (\<forall>i \<in> set ids. owns (desk_world s2) st i)"
    by (rule Cons.IH[OF a(5)])
  then show ?case using own ps owed_tables[OF t2] tables_sel[OF t2] by (simp add: owns_def add.assoc)
qed

section \<open>Creating a payout\<close>

definition live :: "payout_row \<Rightarrow> bool" where
  "live p \<longleftrightarrow> po_status p \<noteq> ''failed''"

definition unclaimed :: "desk \<Rightarrow> uuid \<Rightarrow> string \<Rightarrow> bool" where
  "unclaimed s st i \<longleftrightarrow> (\<forall>p \<in> set (payouts s). po_store p = st \<and> live p \<longrightarrow> i \<notin> set (po_invoices p))"

lemma reject_claimed_Inr:
  assumes "reject_claimed_invoices st ids s = (Inr x, t)" shows "\<forall>i \<in> set ids. unclaimed s st i"
proof (cases "ids = []")
  case False
  obtain y u where "desk_call (getP (\<lambda>s. remdups (filter (\<lambda>i. i \<in> set ids) (concat (map po_invoices
        (filter (\<lambda>r. po_store r = st \<and> po_status r \<noteq> ''failed'') (payouts s))))))) s = (Inr y, u)" "y = []"
    using assms False unfolding reject_claimed_invoices_def invoice_ids_already_claimed_def
    by (auto simp: bindP_Inr_iff http500_Inr errP_def split: if_splits)
  from desk_read_Inr[OF this(1)] this(2)
  have none: "filter (\<lambda>i. i \<in> set ids) (concat (map po_invoices
        (filter (\<lambda>r. po_store r = st \<and> po_status r \<noteq> ''failed'') (payouts u)))) = []"
    and "shop u = shop s" by simp_all
  then show ?thesis using shop_sel(1)[of u s] by (auto simp: unclaimed_def live_def filter_empty_conv)
qed simp

lemma store_access_Inr:
  assumes "store_access u st s = (Inr x, t)" shows "is_admin u \<or> (user_id u, st) \<in> set (user_stores s)"
proof (cases "is_admin u")
  case False
  obtain m v where m: "get_user_store (user_id u) st s = (Inr m, v)" "m \<noteq> None"
    using assms False unfolding store_access_def
    by (auto simp: bindP_Inr_iff http500_Inr errP_def split: if_splits)
  from desk_read_Inr[OF m(1)[unfolded get_user_store_def]] m(2) shop_sel(3)[of v s]
  show ?thesis by (auto dest!: find_SomeD)
qed simp

lemma prepare_Inr:
  assumes "prepare_payout E u st body s = (Inr d, t)"
  shows "(is_admin u \<or> (user_id u, st) \<in> set (user_stores s)) \<and> rq_invoice_ids body \<noteq> []
    \<and> trim (rq_destination body) \<noteq> [] \<and> po_store d = st \<and> po_invoices d = rq_invoice_ids body \<and> po_status d = PoPending \<and> po_tx_hash d = None
    \<and> (\<forall>i \<in> set (rq_invoice_ids body). owns (desk_world s) st i \<and> unclaimed s st i)
    \<and> (\<exists>v. v = (\<Sum>i\<leftarrow>rq_invoice_ids body. owed E (desk_world s) i (rq_chain body) (rq_symbol body))
         \<and> v \<noteq> 0 \<and> po_amount d = fmt_u256 E v)"
proof -
  let ?ids = "rq_invoice_ids body"
  obtain a s1 v s2 b s3 where 1: "store_access u st s = (Inr a, s1)" "?ids \<noteq> []" "trim (rq_destination body) \<noteq> []"
      "payable_total E st ?ids (rq_chain body) (rq_symbol body) 0 s1 = (Inr v, s2)"
      "reject_claimed_invoices st ?ids s2 = (Inr b, s3)" "v \<noteq> 0"
      "po_store d = st" "po_invoices d = ?ids" "po_status d = PoPending" "po_tx_hash d = None" "po_amount d = fmt_u256 E v"
    using assms unfolding prepare_payout_def
    by (auto simp: bindP_Inr_iff errP_def okP_def getP_def split: if_splits)
  have s1: "shop s1 = shop s" using stepsD[OF shop_reads(1) 1(1)] by (simp add: same_def)
  have s2: "shop s2 = shop s" using stepsD[OF shop_payable_total 1(4)] s1 by (simp add: same_def)
  have "owed E (desk_world s1) = owed E (desk_world s)"
    by (intro ext) (rule owed_tables[OF shop_sel(4)[OF s1]])
  moreover have "owns (desk_world s1) = owns (desk_world s)"
    using tables_sel[OF shop_sel(4)[OF s1]] by (intro ext) (simp add: owns_def)
  moreover have "unclaimed s2 = unclaimed s" using shop_sel(1)[OF s2] by (intro ext) (simp add: unclaimed_def)
  ultimately show ?thesis
    using payable_total_Inr[OF 1(4)] reject_claimed_Inr[OF 1(5)] store_access_Inr[OF 1(1)] 1 by simp
qed

lemma desk_call_cases:
  "desk_call m s = (r, t) \<longleftrightarrow>
     (\<exists>fs. faults (desk_world s) = True # fs \<and> r = Inl RDatabase \<and> t = s\<lparr>desk_world := (desk_world s)\<lparr>faults := fs\<rparr>\<rparr>)
   \<or> (\<exists>fs. faults (desk_world s) = False # fs \<and> m (s\<lparr>desk_world := (desk_world s)\<lparr>faults := fs\<rparr>\<rparr>) = (r, t))
   \<or> (faults (desk_world s) = [] \<and> m s = (r, t))"
  by (cases "faults (desk_world s)")
     (auto simp: desk_call_def bindP_def on_world_def db_call_def okP_def split: if_splits)

lemma insert_payout_outcome:
  assumes "insert_payout P d s = (r, t)"
  shows "(\<exists>e. r = Inl e) \<and> shop t = shop s
    \<or> r = Inr d \<and> po_id d \<notin> po_id ` set (payouts s) \<and> shop t = shop (s\<lparr>payouts := payouts s @ [payout_values P d]\<rparr>)"
proof -
  obtain r0 u where c: "repo_create_payout P d s = (r0, u)" by (cases "repo_create_payout P d s")
  have "t = u" "r = (case r0 of Inl e \<Rightarrow> Inl INTERNAL_SERVER_ERROR | Inr _ \<Rightarrow> Inr d)"
    using assms c by (auto simp: insert_payout_def http500_def mapErrP_def bindP_def okP_def split: sum.splits)
  then show ?thesis using c unfolding repo_create_payout_def desk_call_cases
    by (auto simp: shop_def split: if_splits)
qed

lemma created_outcome:
  assumes "create_payout E P u st body s = (r, t)"
  shows "case r of
      Inl e \<Rightarrow> payouts t = payouts s
    | Inr d \<Rightarrow> payouts t = payouts s @ [payout_values P d] \<and> po_id d \<notin> po_id ` set (payouts s)
        \<and> po_status d = PoPending \<and> po_store d = st \<and> po_invoices d = rq_invoice_ids body
        \<and> (is_admin u \<or> (user_id u, st) \<in> set (user_stores s))
        \<and> (\<forall>i \<in> set (rq_invoice_ids body). owns (desk_world s) st i \<and> unclaimed s st i)
        \<and> (\<exists>v. v \<noteq> 0 \<and> po_amount d = fmt_u256 E v
             \<and> v = (\<Sum>i\<leftarrow>rq_invoice_ids body. owed E (desk_world s) i (rq_chain body) (rq_symbol body)))"
proof -
  obtain r0 s1 where p: "prepare_payout E u st body s = (r0, s1)" by (cases "prepare_payout E u st body s")
  have s1: "shop s1 = shop s" using stepsD[OF shop_prepare p] by (simp add: same_def)
  show ?thesis
  proof (cases r0)
    case (Inl e)
    then have "r = Inl e" "t = s1" using assms p by (simp_all add: create_payout_def bindP_def)
    then show ?thesis using shop_sel(1)[OF s1] by simp
  next
    case (Inr d)
    then have ins: "insert_payout P d s1 = (r, t)" using assms p by (simp add: create_payout_def bindP_def)
    from insert_payout_outcome[OF ins] show ?thesis
    proof
      assume "(\<exists>e. r = Inl e) \<and> shop t = shop s1"
      then show ?thesis using shop_sel(1)[of t s1] shop_sel(1)[OF s1] by auto
    next
      assume a: "r = Inr d \<and> po_id d \<notin> po_id ` set (payouts s1)
        \<and> shop t = shop (s1\<lparr>payouts := payouts s1 @ [payout_values P d]\<rparr>)"
      then have "payouts t = payouts s @ [payout_values P d]"
        using shop_sel(1)[of t "s1\<lparr>payouts := payouts s1 @ [payout_values P d]\<rparr>"] shop_sel(1)[OF s1] by simp
      then show ?thesis using a prepare_Inr[OF p[unfolded Inr]] shop_sel(1)[OF s1] by auto
    qed
  qed
qed

text \<open>C18 (functional): creating a payout either fails and leaves the payouts as they were, or adds
  exactly one pending payout.  Then the caller is an administrator or a member of the store, every
  named invoice belongs to that store and no live payout of the store names it, and the amount is the
  total, over the listed invoices, of their confirmed and valid payments in the asset on the chain,
  which is not zero.\<close>

theorem created_payout_is_backed:
  assumes "create_payout E P u st body s = (r, t)"
  shows "case r of
      Inl e \<Rightarrow> payouts t = payouts s
    | Inr d \<Rightarrow> payouts t = payouts s @ [payout_values P d] \<and> po_id d \<notin> po_id ` set (payouts s)
        \<and> po_status d = PoPending \<and> po_store d = st \<and> po_invoices d = rq_invoice_ids body
        \<and> (is_admin u \<or> (user_id u, st) \<in> set (user_stores s))
        \<and> (\<forall>i \<in> set (rq_invoice_ids body). owns (desk_world s) st i \<and> unclaimed s st i)
        \<and> (\<exists>v. v \<noteq> 0 \<and> po_amount d = fmt_u256 E v
             \<and> v = (\<Sum>i\<leftarrow>rq_invoice_ids body. owed E (desk_world s) i (rq_chain body) (rq_symbol body)))"
  using assms by (rule created_outcome)

text \<open>A desk with two settled invoices of 100 units each, and a member of their store asking for them.\<close>

definition ex_text :: status_text where
  "ex_text = \<lparr>
     payout_as_str = (\<lambda>st. case st of PoPending \<Rightarrow> ''pending'' | PoBroadcasting \<Rightarrow> ''broadcasting''
        | PoConfirmed \<Rightarrow> ''confirmed'' | PoFailed \<Rightarrow> ''failed''),
     payout_parse = (\<lambda>t. if t = ''pending'' then Some PoPending else if t = ''broadcasting'' then Some PoBroadcasting
        else if t = ''confirmed'' then Some PoConfirmed else if t = ''failed'' then Some PoFailed else None),
     refund_as_str = (\<lambda>st. case st of RePending \<Rightarrow> ''pending'' | ReBroadcasting \<Rightarrow> ''broadcasting''
        | ReConfirmed \<Rightarrow> ''confirmed'' | ReFailed \<Rightarrow> ''failed''),
     refund_parse = (\<lambda>t. if t = ''pending'' then Some RePending else if t = ''broadcasting'' then Some ReBroadcasting
        else if t = ''confirmed'' then Some ReConfirmed else if t = ''failed'' then Some ReFailed else None) \<rparr>"

definition ex_desk :: desk where
  "ex_desk = \<lparr>
     desk_world = ex_world\<lparr>invoices := [ex_invoice\<lparr>inv_status := Paid, inv_received := 100\<rparr>,
         ex_invoice\<lparr>inv_id := ''2'', inv_status := Paid, inv_received := 100\<rparr>],
       payments := [ex_payment\<lparr>pay_confirmed_at := Some 480\<rparr>,
         ex_payment\<lparr>pay_id := 99, pay_invoice := ''2'', pay_tx_hash := ''0x78'', pay_confirmed_at := Some 480\<rparr>]\<rparr>,
     payouts = [], refunds = [], user_stores = [(3, 5)] \<rparr>"

definition ex_caller :: caller where
  "ex_caller = \<lparr> user_id = 3, is_admin = False \<rparr>"

definition ex_request :: "string list \<Rightarrow> CreatePayoutRequest" where
  "ex_request ids = \<lparr> rq_invoice_ids = ids, rq_destination = ''0x9'', rq_chain = ''eip155:1'', rq_symbol = ''ETH'',
     rq_token = None \<rparr>"

definition ex_created :: "(StatusCode + PayoutData) \<times> desk" where
  "ex_created = create_payout ex_env ex_text ex_caller 5 (ex_request [''1'']) ex_desk"

lemma ex_created_ok: "fst ex_created = Inr (projr (fst ex_created))"
proof -
  have "\<not> isl (fst ex_created)" by code_simp
  then show ?thesis by (cases "fst ex_created") simp_all
qed

theorem created_payout_is_backed_witness:
  "payouts (snd ex_created) = [payout_values ex_text (projr (fst ex_created))]
   \<and> po_amount (projr (fst ex_created)) = ''100''
   \<and> owns (desk_world ex_desk) 5 ''1'' \<and> unclaimed ex_desk 5 ''1''"
proof -
  have "create_payout ex_env ex_text ex_caller 5 (ex_request [''1'']) ex_desk
      = (Inr (projr (fst ex_created)), snd ex_created)"
    using ex_created_ok by (simp add: ex_created_def prod_eq_iff)
  note backed = created_payout_is_backed[OF this]
  have "payouts ex_desk = []" "rq_invoice_ids (ex_request [''1'']) = [''1'']"
    by (simp_all add: ex_desk_def ex_request_def)
  moreover have "po_amount (projr (fst ex_created)) = ''100''" by code_simp
  ultimately show ?thesis using backed by simp
qed

section \<open>The life of payouts\<close>

text \<open>One completed request at a time, in any order and with any failures, while the rest of the
  server changes its world and the memberships.\<close>

inductive desk_step :: "env \<Rightarrow> status_text \<Rightarrow> desk \<Rightarrow> desk \<Rightarrow> bool" for E P where
  Create: "create_payout E P u st body s = (r, t) \<Longrightarrow> desk_step E P s t"
| Settle: "settle_payout P u st i tx s = (r, t) \<Longrightarrow> desk_step E P s t"
| Abandon: "abandon_payout P u st i reason s = (r, t) \<Longrightarrow> desk_step E P s t"
| World: "desk_step E P s (s\<lparr>desk_world := w\<rparr>)"
| Members: "desk_step E P s (s\<lparr>user_stores := m\<rparr>)"

text \<open>What the SQL relies on of the texts of a status.\<close>

definition status_texts_ok :: "status_text \<Rightarrow> bool" where
  "status_texts_ok P \<longleftrightarrow> (\<forall>x \<in> {PoPending, PoBroadcasting, PoConfirmed, PoFailed}.
     payout_parse P (payout_as_str P x) = Some x \<and> (payout_as_str P x = ''failed'' \<longleftrightarrow> x = PoFailed))"

lemma status_texts_okD:
  assumes "status_texts_ok P"
  shows "payout_parse P (payout_as_str P x) = Some x" "payout_as_str P x = ''failed'' \<longleftrightarrow> x = PoFailed"
  using assms by (cases x; simp add: status_texts_ok_def)+

text \<open>A change of one pending payout, of any of its columns but the store and the invoices.\<close>

definition pending_row :: "status_text \<Rightarrow> payout_row \<Rightarrow> bool" where
  "pending_row P p \<longleftrightarrow> db_to_payout_status P (po_status p) = PoPending"

lemma payout_for_store_Inr:
  assumes "payout_for_store P st i s = (Inr p, t)"
  shows "shop t = shop s \<and> (\<exists>row. find (\<lambda>r. po_id r = i) (payouts s) = Some row \<and> p = try_row_to_payout P row)"
proof -
  obtain z u where z: "repo_get_payout P i s = (Inr z, u)" "z = Some p" "t = u"
    using assms unfolding payout_for_store_def
    by (auto simp: bindP_Inr_iff http500_Inr found_Inr okP_def errP_def split: if_splits)
  from desk_read_Inr[OF z(1)[unfolded repo_get_payout_def]] z(2,3) shop_sel(1)[of u s] show ?thesis
    by (cases "find (\<lambda>r. po_id r = i) (payouts s)") auto
qed

lemma update_payout_outcome:
  assumes "update_payout_status P i st tx fee err s = (r, t)"
  shows "shop t = shop s \<or> shop t = shop (s\<lparr>payouts := update_where (\<lambda>r. po_id r = i)
        (\<lambda>r. r\<lparr>po_status := payout_as_str P st, po_tx_hash := coalesce tx (po_tx_hash r),
               po_fee := coalesce fee (po_fee r), po_error := coalesce err (po_error r)\<rparr>) (payouts s)\<rparr>)"
  using assms unfolding update_payout_status_def desk_call_cases by (auto simp: shop_def modP_def)

text \<open>The payouts after a step: as before, one more, or one pending payout closed.\<close>

definition closed :: "status_text \<Rightarrow> uuid \<Rightarrow> (payout_row \<Rightarrow> payout_row) \<Rightarrow> desk \<Rightarrow> desk \<Rightarrow> bool" where
  "closed P i f s t \<longleftrightarrow> payouts t = update_where (\<lambda>r. po_id r = i) f (payouts s)
     \<and> (\<forall>r. po_id (f r) = po_id r \<and> po_store (f r) = po_store r \<and> po_invoices (f r) = po_invoices r)
     \<and> (\<exists>row. find (\<lambda>r. po_id r = i) (payouts s) = Some row \<and> pending_row P row)"

lemma close_outcome:
  assumes get: "payout_for_store P st i s1 = (Inr p, s2)" and pend: "po_status p = PoPending"
    and s1: "shop s1 = shop s"
    and upd: "thenP (http500 (update_payout_status P i new tx fee err)) (payout_for_store P st i) s2 = (r, t)"
  shows "payouts t = payouts s \<or> (\<exists>f. closed P i f s t)"
proof -
  obtain row where row: "find (\<lambda>r. po_id r = i) (payouts s) = Some row" "pending_row P row" and s2: "shop s2 = shop s"
    using payout_for_store_Inr[OF get] s1 pend shop_sel(1)[OF s1] by (auto simp: pending_row_def try_row_to_payout_def)
  obtain r0 u where u: "update_payout_status P i new tx fee err s2 = (r0, u)"
    by (cases "update_payout_status P i new tx fee err s2")
  have t: "shop t = shop u"
  proof (cases r0)
    case (Inl e)
    then show ?thesis using upd u by (auto simp: bindP_def http500_def mapErrP_def)
  next
    case (Inr x)
    then have "payout_for_store P st i u = (r, t)" using upd u by (auto simp: bindP_def http500_def mapErrP_def)
    then show ?thesis using stepsD[OF shop_reads(3)] by (simp add: same_def)
  qed
  let ?f = "\<lambda>r. r\<lparr>po_status := payout_as_str P new, po_tx_hash := coalesce tx (po_tx_hash r),
               po_fee := coalesce fee (po_fee r), po_error := coalesce err (po_error r)\<rparr>"
  from update_payout_outcome[OF u] show ?thesis
  proof
    assume "shop u = shop s2"
    then show ?thesis using t s2 shop_sel(1)[of t s] by simp
  next
    assume "shop u = shop (s2\<lparr>payouts := update_where (\<lambda>r. po_id r = i) ?f (payouts s2)\<rparr>)"
    then have "payouts t = update_where (\<lambda>r. po_id r = i) ?f (payouts s)"
      using t shop_sel(1)[of t "s2\<lparr>payouts := update_where (\<lambda>r. po_id r = i) ?f (payouts s2)\<rparr>"] shop_sel(1)[OF s2]
      by simp
    then have "closed P i ?f s t" using row by (simp add: closed_def)
    then show ?thesis by blast
  qed
qed

lemma close_request:
  assumes "thenP (store_access u st) (bindP (payout_for_store P st i) (\<lambda>p. if po_status p \<noteq> PoPending then errP CONFLICT
      else thenP (http500 (update_payout_status P i new tx fee err)) (payout_for_store P st i))) s = (r, t)"
  shows "payouts t = payouts s \<or> (\<exists>f. closed P i f s t)"
proof -
  have keep: "shop v = shop s \<Longrightarrow> payouts v = payouts s" for v by (rule shop_sel)
  obtain a s1 where a: "store_access u st s = (a, s1)" by (cases "store_access u st s")
  have s1: "shop s1 = shop s" using stepsD[OF shop_reads(1) a] by (simp add: same_def)
  obtain b s2 where b: "payout_for_store P st i s1 = (b, s2)" by (cases "payout_for_store P st i s1")
  have s2: "shop s2 = shop s" using stepsD[OF shop_reads(3) b] s1 by (simp add: same_def)
  note unroll = bindP_def[of "store_access u st"] bindP_def[of "payout_for_store P st i"]
  show ?thesis
  proof (cases "\<exists>p. a = Inr () \<and> b = Inr p \<and> po_status p = PoPending")
    case True
    then obtain p where p: "b = Inr p" "po_status p = PoPending"
      "thenP (http500 (update_payout_status P i new tx fee err)) (payout_for_store P st i) s2 = (r, t)"
      using assms a b by (auto simp: unroll)
    show ?thesis by (rule close_outcome[OF b[unfolded p(1)] p(2) s1 p(3)])
  next
    case False
    then have "t = s1 \<or> t = s2" using assms a b by (auto simp: unroll errP_def split: sum.splits if_splits)
    then show ?thesis using keep s1 s2 by blast
  qed
qed

lemma settle_request_outcome:
  assumes "settle_payout P u st i tx s = (r, t)"
  shows "payouts t = payouts s \<or> (\<exists>f. closed P i f s t)"
proof (cases "trim tx = []")
  case True
  then have "steps (same shop) (settle_payout P u st i tx)" unfolding settle_payout_def Let_def
    by (simp add: shop_reads(1) same.steps_bind same.steps_err)
  from stepsD[OF this assms] have "shop t = shop s" by (simp add: same_def)
  from shop_sel(1)[OF this] show ?thesis by simp
next
  case False
  then have "settle_payout P u st i tx = thenP (store_access u st) (bindP (payout_for_store P st i)
      (\<lambda>p. if po_status p \<noteq> PoPending then errP CONFLICT
        else thenP (http500 (update_payout_status P i PoConfirmed (Some (trim tx)) None None)) (payout_for_store P st i)))"
    by (simp add: settle_payout_def)
  from assms[unfolded this] show ?thesis by (rule close_request)
qed

lemma abandon_outcome:
  "abandon_payout P u st i reason s = (r, t) \<Longrightarrow> payouts t = payouts s \<or> (\<exists>f. closed P i f s t)"
  unfolding abandon_payout_def by (rule close_request)

text \<open>Every step leaves the payouts alone, adds a backed one, or closes a pending one.\<close>

lemma desk_step_payouts:
  assumes "desk_step E P s t"
  shows "payouts t = payouts s
    \<or> (\<exists>d. payouts t = payouts s @ [payout_values P d] \<and> po_id d \<notin> po_id ` set (payouts s)
          \<and> (\<forall>i \<in> set (po_invoices d). unclaimed s (po_store d) i))
    \<or> (\<exists>i f. closed P i f s t)"
  using assms
proof cases
  case (Create u st body r)
  show ?thesis
  proof (cases r)
    case (Inl e)
    then show ?thesis using created_outcome[OF Create] by simp
  next
    case (Inr d)
    then show ?thesis using created_outcome[OF Create] by auto
  qed
next
  case (Settle u st i tx r)
  then show ?thesis using settle_request_outcome by blast
next
  case (Abandon u st i reason r)
  then show ?thesis using abandon_outcome by blast
qed simp_all

text \<open>The rows stay distinct, and no invoice is named by two live payouts of one store.\<close>

definition exclusive :: "payout_row list \<Rightarrow> bool" where
  "exclusive ps \<longleftrightarrow> (\<forall>p \<in> set ps. \<forall>q \<in> set ps. po_id p \<noteq> po_id q \<and> po_store p = po_store q \<and> live p \<and> live q \<longrightarrow>
     set (po_invoices p) \<inter> set (po_invoices q) = {})"

definition desk_inv :: "desk \<Rightarrow> bool" where
  "desk_inv s \<longleftrightarrow> distinct (map po_id (payouts s)) \<and> exclusive (payouts s)"

lemma pending_live: "status_texts_ok P \<Longrightarrow> pending_row P p \<Longrightarrow> live p"
  using status_texts_okD[of P PoFailed] by (auto simp: pending_row_def live_def db_to_payout_status_def)

lemma desk_inv_closed:
  assumes "status_texts_ok P" "desk_inv s" "closed P i f s t" shows "desk_inv t"
proof -
  obtain row where row: "find (\<lambda>r. po_id r = i) (payouts s) = Some row" "pending_row P row"
    using assms(3) by (auto simp: closed_def)
  note f = assms(3)[unfolded closed_def, THEN conjunct2, THEN conjunct1, rule_format]
  have t: "payouts t = update_where (\<lambda>r. po_id r = i) f (payouts s)" using assms(3) by (simp add: closed_def)
  have dist: "distinct (map po_id (payouts s))" using assms(2) by (simp add: desk_inv_def)
  have before: "\<exists>p0 \<in> set (payouts s). po_id p = po_id p0 \<and> po_store p = po_store p0
      \<and> po_invoices p = po_invoices p0 \<and> (live p \<longrightarrow> live p0)" if p: "p \<in> set (payouts t)" for p
  proof -
    obtain p0 where p0: "p0 \<in> set (payouts s)" "p = (if po_id p0 = i then f p0 else p0)"
      using p unfolding t set_update_where by auto
    show ?thesis
    proof (cases "po_id p0 = i")
      case True
      then have "p0 = row" using row(1) p0(1) dist find_Some_iff_distinct[OF dist] find_SomeD[OF row(1)]
        by (metis option.inject)
      then show ?thesis using p0 True f pending_live[OF assms(1) row(2)] by auto
    qed (use p0 in auto)
  qed
  have "exclusive (payouts t)" unfolding exclusive_def
    using before assms(2)[unfolded desk_inv_def exclusive_def] by metis
  moreover have "distinct (map po_id (payouts t))" unfolding t using dist f by (simp add: map_update_where_key)
  ultimately show ?thesis by (simp add: desk_inv_def)
qed

lemma exclusive_append:
  assumes "exclusive ps"
    and new: "\<And>p. p \<in> set ps \<Longrightarrow> po_store p = po_store x \<Longrightarrow> live p \<Longrightarrow> set (po_invoices p) \<inter> set (po_invoices x) = {}"
  shows "exclusive (ps @ [x])"
  unfolding exclusive_def
proof (intro ballI impI, elim conjE)
  fix p q
  assume p: "p \<in> set (ps @ [x])" and q: "q \<in> set (ps @ [x])" and ne: "po_id p \<noteq> po_id q"
    and st: "po_store p = po_store q" and l: "live p" "live q"
  consider "p \<in> set ps" "q \<in> set ps" | "p \<in> set ps" "q = x" | "p = x" "q \<in> set ps" | "p = x" "q = x" using p q by auto
  then show "set (po_invoices p) \<inter> set (po_invoices q) = {}"
  proof cases
    case 1 then show ?thesis using assms(1) ne st l unfolding exclusive_def by blast
  next
    case 2 then show ?thesis using new st l by simp
  next
    case 3 then show ?thesis using new[of q] st l by (simp add: Int_commute)
  qed (use ne in simp)
qed

lemma desk_inv_step:
  assumes "status_texts_ok P" "desk_step E P s t" "desk_inv s" shows "desk_inv t"
  using desk_step_payouts[OF assms(2)]
proof (elim disjE exE conjE)
  fix d assume d: "payouts t = payouts s @ [payout_values P d]" "po_id d \<notin> po_id ` set (payouts s)"
    "\<forall>i \<in> set (po_invoices d). unclaimed s (po_store d) i"
  have sel: "po_id (payout_values P d) = po_id d" "po_store (payout_values P d) = po_store d"
    "po_invoices (payout_values P d) = po_invoices d" by (simp_all add: payout_values_def)
  have "set (po_invoices p) \<inter> set (po_invoices d) = {}"
    if "p \<in> set (payouts s)" "po_store p = po_store d" "live p" for p
    using that d(3) by (auto simp: unclaimed_def)
  then have "exclusive (payouts t)" unfolding d(1)
    by (intro exclusive_append) (use assms(3) sel in \<open>simp_all add: desk_inv_def\<close>)
  moreover have "distinct (map po_id (payouts t))" using assms(3) d(2) unfolding d(1) by (simp add: desk_inv_def sel)
  ultimately show ?thesis by (simp add: desk_inv_def)
next
  assume "payouts t = payouts s"
  then show ?thesis using assms(3) by (simp add: desk_inv_def)
next
  fix i f assume "closed P i f s t"
  then show ?thesis by (rule desk_inv_closed[OF assms(1,3)])
qed

lemma desk_inv_reach: "(desk_step E P)\<^sup>*\<^sup>* s t \<Longrightarrow> status_texts_ok P \<Longrightarrow> desk_inv s \<Longrightarrow> desk_inv t"
  by (induction rule: rtranclp_induct) (auto intro: desk_inv_step)

text \<open>C17 (invariant): starting without payouts, after any sequence of completed requests to create,
  settle and abandon payouts, with whatever failures and whatever changes elsewhere in the server,
  no invoice is named by two live payouts of the same store.\<close>

theorem claims_never_overlap:
  assumes "status_texts_ok P" and "payouts s = []" and "(desk_step E P)\<^sup>*\<^sup>* s t"
  shows "\<forall>p \<in> set (payouts t). \<forall>q \<in> set (payouts t).
     po_id p \<noteq> po_id q \<and> po_store p = po_store q \<and> live p \<and> live q \<longrightarrow>
       set (po_invoices p) \<inter> set (po_invoices q) = {}"
proof -
  have "desk_inv s" using assms(2) by (simp add: desk_inv_def exclusive_def)
  from desk_inv_reach[OF assms(3,1) this] show ?thesis by (simp add: desk_inv_def exclusive_def)
qed

definition ex_second :: "(StatusCode + PayoutData) \<times> desk" where
  "ex_second = create_payout ex_env ex_text ex_caller 5 (ex_request [''2'']) (snd ex_created)"

lemma ex_status_texts_ok: "status_texts_ok ex_text"
  by code_simp

lemma ex_reach: "(desk_step ex_env ex_text)\<^sup>*\<^sup>* ex_desk (snd ex_second)"
proof -
  have "desk_step ex_env ex_text ex_desk (snd ex_created)"
    by (rule desk_step.Create[of _ _ ex_caller 5 "ex_request [''1'']" _ "fst ex_created"]) (simp add: ex_created_def)
  moreover have "desk_step ex_env ex_text (snd ex_created) (snd ex_second)"
    by (rule desk_step.Create[of _ _ ex_caller 5 "ex_request [''2'']" _ "fst ex_second"]) (simp add: ex_second_def)
  ultimately show ?thesis by (meson converse_rtranclp_into_rtranclp r_into_rtranclp)
qed

theorem claims_never_overlap_witness:
  "length (payouts (snd ex_second)) = 2 \<and> po_store (payouts (snd ex_second) ! 0) = po_store (payouts (snd ex_second) ! 1)
   \<and> live (payouts (snd ex_second) ! 0) \<and> live (payouts (snd ex_second) ! 1)
   \<and> set (po_invoices (payouts (snd ex_second) ! 0)) \<inter> set (po_invoices (payouts (snd ex_second) ! 1)) = {}"
proof -
  let ?ps = "payouts (snd ex_second)"
  have ex: "length ?ps = 2 \<and> po_store (?ps ! 0) = po_store (?ps ! 1) \<and> po_id (?ps ! 0) \<noteq> po_id (?ps ! 1)
      \<and> live (?ps ! 0) \<and> live (?ps ! 1)" by code_simp
  moreover have "payouts ex_desk = []" by (simp add: ex_desk_def)
  moreover have "?ps ! 0 \<in> set ?ps" "?ps ! 1 \<in> set ?ps" using ex by simp_all
  ultimately show ?thesis using claims_never_overlap[OF ex_status_texts_ok _ ex_reach] by blast
qed

lemma final_step:
  assumes "status_texts_ok P" "desk_step E P s t" "distinct (map po_id (payouts s))" "p \<in> set (payouts s)" "\<not> pending_row P p"
  shows "p \<in> set (payouts t)"
  using desk_step_payouts[OF assms(2)]
proof (elim disjE exE)
  fix i f assume "closed P i f s t"
  then obtain row where row: "find (\<lambda>r. po_id r = i) (payouts s) = Some row" "pending_row P row"
    "payouts t = update_where (\<lambda>r. po_id r = i) f (payouts s)" by (auto simp: closed_def)
  then have "po_id p \<noteq> i" using assms(3,4,5) find_Some_iff_distinct[OF assms(3)] find_SomeD[OF row(1)]
    by (metis option.inject)
  then show ?thesis using assms(4) row(3) by (force simp: set_update_where)
qed (use assms(4) in auto)

lemma distinct_step:
  assumes "desk_step E P s t" "distinct (map po_id (payouts s))" shows "distinct (map po_id (payouts t))"
  using desk_step_payouts[OF assms(1)]
proof (elim disjE exE)
  fix i f assume "closed P i f s t"
  then show ?thesis using assms(2) by (auto simp: closed_def map_update_where_key)
qed (use assms(2) in \<open>auto simp: payout_values_def\<close>)

text \<open>C21 (safety): the outcome of a payout is final.  Once a payout is no longer pending, whether
  settled or abandoned, its row, including the recorded transaction hash, is never changed again by
  any sequence of completed requests.\<close>

theorem payout_outcome_is_final:
  assumes "status_texts_ok P" and "distinct (map po_id (payouts s))" and "(desk_step E P)\<^sup>*\<^sup>* s t"
    and "p \<in> set (payouts s)" and "db_to_payout_status P (po_status p) \<noteq> PoPending"
  shows "p \<in> set (payouts t)"
proof -
  have "p \<in> set (payouts t) \<and> distinct (map po_id (payouts t))"
    using assms(3)
  proof (induction rule: rtranclp_induct)
    case (step t u)
    then show ?case using final_step[OF assms(1)] distinct_step assms(5) by (auto simp: pending_row_def)
  qed (use assms in simp)
  then show ?thesis ..
qed

theorem payout_outcome_is_final_witness:
  "\<exists>t. settle_payout ex_text ex_caller 5 (po_id (payouts (snd ex_created) ! 0)) ''0xaa'' (snd ex_created) = t
     \<and> po_tx_hash (payouts (snd t) ! 0) = Some ''0xaa''
     \<and> payouts (snd t) ! 0 \<in> set (payouts (snd (settle_payout ex_text ex_caller 5 (po_id (payouts (snd ex_created) ! 0))
          ''0xbb'' (snd t))))"
proof -
  define t where "t = settle_payout ex_text ex_caller 5 (po_id (payouts (snd ex_created) ! 0)) ''0xaa'' (snd ex_created)"
  define u where "u = settle_payout ex_text ex_caller 5 (po_id (payouts (snd ex_created) ! 0)) ''0xbb'' (snd t)"
  have t: "length (payouts (snd t)) = 1 \<and> po_tx_hash (payouts (snd t) ! 0) = Some ''0xaa''
      \<and> distinct (map po_id (payouts (snd t)))
      \<and> db_to_payout_status ex_text (po_status (payouts (snd t) ! 0)) \<noteq> PoPending"
    unfolding t_def by code_simp
  have "desk_step ex_env ex_text (snd t) (snd u)" unfolding u_def by (rule desk_step.Settle) (rule prod.collapse[symmetric])
  then have reach: "(desk_step ex_env ex_text)\<^sup>*\<^sup>* (snd t) (snd u)" by (rule r_into_rtranclp)
  have "payouts (snd t) ! 0 \<in> set (payouts (snd u))"
    by (rule payout_outcome_is_final[OF ex_status_texts_ok _ reach]) (use t in simp_all)
  then show ?thesis using t unfolding u_def t_def by simp
qed

section \<open>What the checks do not cover\<close>

text \<open>On a healthy database the checks pass exactly when their conditions hold.\<close>

lemma desk_call_quiet: "quiet (desk_world s) \<Longrightarrow> desk_call m s = m s"
  by (simp add: desk_call_def bindP_def on_world_def db_call_def okP_def quiet_def)

lemma on_world_quiet_read:
  "quiet (desk_world s) \<Longrightarrow> on_world (db_call (\<lambda>w. (g w, w))) s = (g (desk_world s), s)"
  by (simp add: on_world_def db_call_def quiet_def)

lemma payable_total_quiet:
  assumes "quiet (desk_world s)" "\<forall>i \<in> set ids. owns (desk_world s) st i"
  shows "payable_total E st ids c asset acc s = (Inr (acc + (\<Sum>i\<leftarrow>ids. owed E (desk_world s) i c asset)), s)"
  using assms(2)
proof (induction ids arbitrary: acc)
  case (Cons i ids)
  obtain row where row: "find (\<lambda>r. inv_id r = i) (invoices (desk_world s)) = Some row" "inv_store row = st"
    using Cons.prems by (auto simp: owns_def split: option.splits)
  obtain d where d: "try_row_to_invoice E row = Inr d" by (simp add: try_row_to_invoice_def status_column)
  have get: "on_world (invoice_get E i) s = (Inr (Some d), s)"
    unfolding invoice_get_def on_world_quiet_read[OF assms(1)] using row d by simp
  let ?ps = "map (try_row_to_payment E) (sort_key (\<lambda>r. - pay_detected_at r)
      (filter (\<lambda>r. pay_invoice r = i \<and> \<not> pay_reorged r) (payments (desk_world s))))"
  have valid: "on_world (get_valid_for_invoice E i) s = (Inr ?ps, s)"
    unfolding get_valid_for_invoice_def on_world_quiet_read[OF assms(1)] by simp
  have "payable_total E st (i # ids) c asset acc s
      = payable_total E st ids c asset (acc + sum_payable E ?ps c asset) s"
    using get valid row(2) try_row_to_invoice_sel(3)[OF d]
    by (simp add: bindP_def http500_def mapErrP_def found_def okP_def)
  also have "\<dots> = (Inr ((acc + sum_payable E ?ps c asset) + (\<Sum>i\<leftarrow>ids. owed E (desk_world s) i c asset)), s)"
    by (rule Cons.IH) (use Cons.prems in simp)
  finally show ?case by (simp only: sum_payable_owed list.map sum_list.Cons add.assoc)
qed (simp add: okP_def)

lemma prepare_quiet:
  assumes q: "quiet (desk_world s)" and "is_admin u \<or> (user_id u, st) \<in> set (user_stores s)"
    and "trim (rq_destination body) \<noteq> []" "rq_invoice_ids body \<noteq> []"
    and "\<forall>i \<in> set (rq_invoice_ids body). owns (desk_world s) st i \<and> unclaimed s st i"
    and v: "v = (\<Sum>i\<leftarrow>rq_invoice_ids body. owed E (desk_world s) i (rq_chain body) (rq_symbol body))" "v \<noteq> 0"
  shows "\<exists>d. prepare_payout E u st body s
      = (Inr d, s\<lparr>desk_world := (desk_world s)\<lparr>drawn := Suc (drawn (desk_world s))\<rparr>\<rparr>)
    \<and> po_id d = entropy (desk_world s) (drawn (desk_world s)) \<and> po_amount d = fmt_u256 E v"
proof -
  have "find (\<lambda>m. m = (user_id u, st)) (user_stores s) \<noteq> None" if "\<not> is_admin u"
    using assms(2) that by (auto simp: find_None_iff)
  then have access: "store_access u st s = (Inr (), s)"
    by (auto simp: store_access_def get_user_store_def desk_call_quiet[OF q] getP_def bindP_def http500_def mapErrP_def okP_def)
  have "filter (\<lambda>i. i \<in> set (rq_invoice_ids body)) (concat (map po_invoices
        (filter (\<lambda>r. po_store r = st \<and> po_status r \<noteq> ''failed'') (payouts s)))) = []"
    using assms(5) by (auto simp: filter_empty_conv unclaimed_def live_def)
  then have reject: "reject_claimed_invoices st (rq_invoice_ids body) s = (Inr (), s)"
    by (simp add: reject_claimed_invoices_def invoice_ids_already_claimed_def desk_call_quiet[OF q] getP_def
      bindP_def http500_def mapErrP_def okP_def)
  have own: "\<forall>i \<in> set (rq_invoice_ids body). owns (desk_world s) st i" using assms(5) by blast
  show ?thesis unfolding prepare_payout_def
    using assms(3,4) access reject payable_total_quiet[OF q own, of E "rq_chain body" "rq_symbol body" 0] v
    by (simp add: bindP_def on_world_def new_v4_def getP_def okP_def)
qed

lemma insert_quiet:
  "quiet (desk_world s) \<Longrightarrow> po_id d \<notin> po_id ` set (payouts s) \<Longrightarrow>
   insert_payout P d s = (Inr d, s\<lparr>payouts := payouts s @ [payout_values P d]\<rparr>)"
  by (simp add: insert_payout_def repo_create_payout_def desk_call_quiet bindP_def http500_def mapErrP_def okP_def)

text \<open>C19 (error): a request that lists the same invoice twice is accepted, and its payout is for twice
  the money of that invoice: the ownership check and the check for earlier claims pass for both
  entries, and the total adds both.\<close>

theorem repeated_invoice_counted_twice:
  assumes "quiet (desk_world s)" and "is_admin u \<or> (user_id u, st) \<in> set (user_stores s)"
    and "trim (rq_destination body) \<noteq> []" and "rq_invoice_ids body = [i, i]"
    and "owns (desk_world s) st i" and "unclaimed s st i"
    and "a = owed E (desk_world s) i (rq_chain body) (rq_symbol body)" and "a + a \<noteq> 0"
    and "entropy (desk_world s) (drawn (desk_world s)) \<notin> po_id ` set (payouts s)"
  shows "\<exists>d t. create_payout E P u st body s = (Inr d, t) \<and> po_amount d = fmt_u256 E (a + a)"
proof -
  have v: "a + a = (\<Sum>i\<leftarrow>rq_invoice_ids body. owed E (desk_world s) i (rq_chain body) (rq_symbol body))"
    using assms(4,7) by simp
  obtain d where d: "prepare_payout E u st body s
      = (Inr d, s\<lparr>desk_world := (desk_world s)\<lparr>drawn := Suc (drawn (desk_world s))\<rparr>\<rparr>)"
    "po_id d = entropy (desk_world s) (drawn (desk_world s))" "po_amount d = fmt_u256 E (a + a)"
    using prepare_quiet[OF assms(1,2,3) _ _ v assms(8)] assms(4,5,6) by auto
  have "insert_payout P d (s\<lparr>desk_world := (desk_world s)\<lparr>drawn := Suc (drawn (desk_world s))\<rparr>\<rparr>)
      = (Inr d, s\<lparr>desk_world := (desk_world s)\<lparr>drawn := Suc (drawn (desk_world s))\<rparr>,
           payouts := payouts s @ [payout_values P d]\<rparr>)"
    using insert_quiet[of "s\<lparr>desk_world := (desk_world s)\<lparr>drawn := Suc (drawn (desk_world s))\<rparr>\<rparr>" d P] assms(1,9) d(2)
    by (simp add: quiet_def)
  then show ?thesis using d by (simp add: create_payout_def bindP_def)
qed

theorem repeated_invoice_counted_twice_witness:
  "owed ex_env (desk_world ex_desk) ''1'' ''eip155:1'' ''ETH'' = 100
   \<and> (\<exists>d t. create_payout ex_env ex_text ex_caller 5 (ex_request [''1'', ''1'']) ex_desk = (Inr d, t)
        \<and> po_amount d = fmt_u256 ex_env 200)"
proof -
  let ?r = "ex_request [''1'', ''1'']"
  have a: "owed ex_env (desk_world ex_desk) ''1'' ''eip155:1'' ''ETH'' = 100" by code_simp
  have h: "quiet (desk_world ex_desk)" "is_admin ex_caller \<or> (user_id ex_caller, 5) \<in> set (user_stores ex_desk)"
    "trim (rq_destination ?r) \<noteq> []" "rq_invoice_ids ?r = [''1'', ''1'']" "owns (desk_world ex_desk) 5 ''1''"
    "unclaimed ex_desk 5 ''1''"
    "entropy (desk_world ex_desk) (drawn (desk_world ex_desk)) \<notin> po_id ` set (payouts ex_desk)"
    by code_simp+
  have "100 = owed ex_env (desk_world ex_desk) ''1'' (rq_chain ?r) (rq_symbol ?r)"
    using a by (simp add: ex_request_def)
  from repeated_invoice_counted_twice[OF h(1-6) this _ h(7), of ex_text] show ?thesis using a by simp
qed

text \<open>C20 (error): two requests that both finish their checks before either inserts its row are both
  accepted, and two live payouts of the store then name the same invoices.  A second copy of any
  request that passes its checks is such a request.\<close>

theorem concurrent_payouts_claim_twice:
  assumes "status_texts_ok P" and "quiet (desk_world s)" and "prepare_payout E u st body s = (Inr d, s1)"
    and "entropy (desk_world s) (Suc (drawn (desk_world s))) \<noteq> entropy (desk_world s) (drawn (desk_world s))"
    and "entropy (desk_world s) (drawn (desk_world s)) \<notin> po_id ` set (payouts s)"
    and "entropy (desk_world s) (Suc (drawn (desk_world s))) \<notin> po_id ` set (payouts s)"
  shows "\<exists>d' s2 s3 s4. prepare_payout E u st body s1 = (Inr d', s2)
     \<and> insert_payout P d s2 = (Inr d, s3) \<and> insert_payout P d' s3 = (Inr d', s4)
     \<and> payouts s4 = payouts s @ [payout_values P d, payout_values P d'] \<and> po_id d \<noteq> po_id d'
     \<and> live (payout_values P d) \<and> live (payout_values P d')
     \<and> po_store d = po_store d' \<and> set (po_invoices d) \<inter> set (po_invoices d') \<noteq> {}"
proof -
  let ?w = "desk_world s" and ?v = "\<Sum>i\<leftarrow>rq_invoice_ids body. owed E (desk_world s) i (rq_chain body) (rq_symbol body)"
  have f: "(is_admin u \<or> (user_id u, st) \<in> set (user_stores s))" "trim (rq_destination body) \<noteq> []"
      "rq_invoice_ids body \<noteq> []" "po_store d = st" "po_invoices d = rq_invoice_ids body" "po_status d = PoPending"
      "\<forall>i \<in> set (rq_invoice_ids body). owns ?w st i \<and> unclaimed s st i" "?v \<noteq> 0"
    using prepare_Inr[OF assms(3)] by auto
  have s1: "s1 = s\<lparr>desk_world := ?w\<lparr>drawn := Suc (drawn ?w)\<rparr>\<rparr>" and d: "po_id d = entropy ?w (drawn ?w)"
    using prepare_quiet[OF assms(2) f(1,2,3,7) refl f(8)] assms(3) by auto
  have same: "owns (desk_world s1) st i = owns ?w st i" "unclaimed s1 st i = unclaimed s st i"
    "owed E (desk_world s1) i c a = owed E ?w i c a" for i c a
    by (simp_all add: s1 owns_def unclaimed_def owed_def)
  have q1: "quiet (desk_world s1)" using assms(2) by (simp add: s1 quiet_def)
  have again: "is_admin u \<or> (user_id u, st) \<in> set (user_stores s1)"
      "\<forall>i \<in> set (rq_invoice_ids body). owns (desk_world s1) st i \<and> unclaimed s1 st i"
      "?v = (\<Sum>i\<leftarrow>rq_invoice_ids body. owed E (desk_world s1) i (rq_chain body) (rq_symbol body))"
    using f(1,7) by (simp_all only: same) (simp add: s1)
  obtain d' where d': "prepare_payout E u st body s1 = (Inr d', s\<lparr>desk_world := ?w\<lparr>drawn := Suc (Suc (drawn ?w))\<rparr>\<rparr>)"
      "po_id d' = entropy ?w (Suc (drawn ?w))"
    using prepare_quiet[OF q1 again(1) f(2,3) again(2,3) f(8)] by (auto simp: s1)
  let ?s2 = "s\<lparr>desk_world := ?w\<lparr>drawn := Suc (Suc (drawn ?w))\<rparr>\<rparr>"
  let ?s3 = "?s2\<lparr>payouts := payouts s @ [payout_values P d]\<rparr>"
  have q: "quiet (desk_world ?s2)" "quiet (desk_world ?s3)" using assms(2) by (simp_all add: quiet_def)
  have 3: "insert_payout P d ?s2 = (Inr d, ?s3)" using insert_quiet[OF q(1), of d P] assms(5) d by simp
  have 4: "insert_payout P d' ?s3 = (Inr d', ?s3\<lparr>payouts := payouts s @ [payout_values P d, payout_values P d']\<rparr>)"
    using insert_quiet[OF q(2), of d' P] assms(4,6) d d'(2) by (simp add: payout_values_def)
  have f': "po_store d' = st" "po_invoices d' = rq_invoice_ids body" "po_status d' = PoPending"
    using prepare_Inr[OF d'(1)] by auto
  have "live (payout_values P x)" if "po_status x = PoPending" for x
    using that status_texts_okD(2)[OF assms(1), of PoPending] by (simp add: live_def payout_values_def)
  then show ?thesis using d'(1) 3 4 d d'(2) assms(4) f(3-6) f'
    by (intro exI[of _ d'] exI[of _ ?s2] exI[of _ ?s3] exI[of _ "?s3\<lparr>payouts := payouts s @ [payout_values P d, payout_values P d']\<rparr>"])
       auto
qed

theorem concurrent_payouts_claim_twice_witness:
  "\<exists>d s1 d' s2 s3 s4. prepare_payout ex_env ex_caller 5 (ex_request [''1'']) ex_desk = (Inr d, s1)
     \<and> prepare_payout ex_env ex_caller 5 (ex_request [''1'']) s1 = (Inr d', s2)
     \<and> insert_payout ex_text d s2 = (Inr d, s3) \<and> insert_payout ex_text d' s3 = (Inr d', s4)
     \<and> set (po_invoices d) \<inter> set (po_invoices d') \<noteq> {}"
proof -
  let ?p = "prepare_payout ex_env ex_caller 5 (ex_request [''1'']) ex_desk"
  have "\<not> isl (fst ?p)" by code_simp
  then obtain d s1 where p: "?p = (Inr d, s1)" by (cases ?p; cases "fst ?p") auto
  have h: "quiet (desk_world ex_desk)"
    "entropy (desk_world ex_desk) (Suc (drawn (desk_world ex_desk))) \<noteq> entropy (desk_world ex_desk) (drawn (desk_world ex_desk))"
    "entropy (desk_world ex_desk) (drawn (desk_world ex_desk)) \<notin> po_id ` set (payouts ex_desk)"
    "entropy (desk_world ex_desk) (Suc (drawn (desk_world ex_desk))) \<notin> po_id ` set (payouts ex_desk)"
    by code_simp+
  from concurrent_payouts_claim_twice[OF ex_status_texts_ok h(1) p h(2-4)] p show ?thesis by blast
qed

end
