(* ===== verification/Spec2Isabelle.thy ===== *)
theory Spec2Isabelle
  imports Resume Confirmation Reorg Detection Webhook_Delivery Monitor_Server Outbox_Drain Payouts
begin

text \<open>
  A verification development for the payment server.

  Plan.  \<^verbatim>\<open>Prelude\<close>: words, programs with state and errors, relations kept by programs, tables.
  \<^verbatim>\<open>Rust_Text\<close>: the string functions of the standard library.  \<^verbatim>\<open>Chains\<close>: the chain catalogue.
  \<^verbatim>\<open>World\<close>: rows, values and the world state.  \<^verbatim>\<open>Ledger\<close>, \<^verbatim>\<open>Stores\<close>: the repositories.  \<^verbatim>\<open>Settlement\<close>,
  \<^verbatim>\<open>Monitor_Events\<close>, \<^verbatim>\<open>Notify\<close>, \<^verbatim>\<open>Lifecycle\<close>, \<^verbatim>\<open>Payment_Handlers\<close>, \<^verbatim>\<open>Event_Consumer\<close>: the server.
\<close>

end
